(* ===== verification/Prelude.thy ===== *)
theory Prelude
  imports Main "HOL-Library.Word"
begin

text \<open>
  The prelude: machine integers, the outcome of a C function, and the command type in which
  every function of the firmware is written.

  A command takes the state of a driver and gives an outcome and the state it leaves behind.
  \<open>Ok\<close> is a normal return, \<open>Fail e\<close> is a negative return code \<open>-e\<close>, \<open>Halted\<close> is the kernel
  panic raised by \<open>FATAL_CHECK\<close>, \<open>Fault\<close> is an access outside an array, and \<open>Spin\<close> is a loop
  that has not ended within its poll budget (or, for a loop whose 8-bit counter can never reach
  its bound, does not end at all).  The state is returned with every outcome, because a C
  function that fails half way has still changed what it had changed.
\<close>

unbundle bit_operations_syntax

type_synonym byte = "8 word"
type_synonym u16 = "16 word"
type_synonym u32 = "32 word"

datatype errno = EMSGSIZE | ENOBUFS | EINVAL | ENOTSUP | EIO | ENODATA | EAGAIN
  | ESHUTDOWN | ENODEV | DriverError int

datatype 'a outcome = Ok 'a | Fail errno | Halted | Fault | Spin

type_synonym ('s, 'a) cmd = "'s \<Rightarrow> 'a outcome \<times> 's"

named_theorems cmd_simps \<open>symbolic execution of commands\<close>
named_theorems safe_intros \<open>commands that keep an invariant and access no array out of range\<close>

section \<open>Commands\<close>

definition ret :: "'a \<Rightarrow> ('s, 'a) cmd" where
  "ret a = (\<lambda>s. (Ok a, s))"

definition fail :: "errno \<Rightarrow> ('s, 'a) cmd" where
  "fail e = (\<lambda>s. (Fail e, s))"

definition fault :: "('s, 'a) cmd" where
  "fault = (\<lambda>s. (Fault, s))"

definition spin :: "('s, 'a) cmd" where
  "spin = (\<lambda>s. (Spin, s))"

definition halt :: "('s, 'a) cmd" where
  "halt = (\<lambda>s. (Halted, s))"

definition bindC :: "('s, 'a) cmd \<Rightarrow> ('a \<Rightarrow> ('s, 'b) cmd) \<Rightarrow> ('s, 'b) cmd" where
  "bindC m k = (\<lambda>s. case m s of
     (Ok a, t) \<Rightarrow> k a t
   | (Fail e, t) \<Rightarrow> (Fail e, t)
   | (Halted, t) \<Rightarrow> (Halted, t)
   | (Fault, t) \<Rightarrow> (Fault, t)
   | (Spin, t) \<Rightarrow> (Spin, t))"

definition gets :: "('s \<Rightarrow> 'a) \<Rightarrow> ('s, 'a) cmd" where
  "gets f = (\<lambda>s. (Ok (f s), s))"

definition modify :: "('s \<Rightarrow> 's) \<Rightarrow> ('s, unit) cmd" where
  "modify f = (\<lambda>s. (Ok (), f s))"

definition whenC :: "bool \<Rightarrow> ('s, unit) cmd \<Rightarrow> ('s, unit) cmd" where
  "whenC b m = (if b then m else ret ())"

text \<open>The \<open>FATAL_CHECK\<close> macro of util.h: a false condition ends in a kernel panic.\<close>

definition fatal_check :: "bool \<Rightarrow> ('s, unit) cmd" where
  "fatal_check b = (if b then ret () else halt)"

text \<open>A caller that answers any negative code of \<open>m\<close> with a code of its own.\<close>

definition fail_as :: "errno \<Rightarrow> ('s, 'a) cmd \<Rightarrow> ('s, 'a) cmd" where
  "fail_as e m = (\<lambda>s. case m s of (Fail _, t) \<Rightarrow> (Fail e, t) | r \<Rightarrow> r)"

text \<open>A caller that only asks whether \<open>m\<close> failed.\<close>

definition attempt :: "('s, 'a) cmd \<Rightarrow> ('s, bool) cmd" where
  "attempt m = (\<lambda>s. case m s of
     (Ok _, t) \<Rightarrow> (Ok False, t)
   | (Fail _, t) \<Rightarrow> (Ok True, t)
   | (Halted, t) \<Rightarrow> (Halted, t)
   | (Fault, t) \<Rightarrow> (Fault, t)
   | (Spin, t) \<Rightarrow> (Spin, t))"

text \<open>Reading a C array: an index outside it is a fault.\<close>

definition array_get :: "'a list \<Rightarrow> nat \<Rightarrow> ('s, 'a) cmd" where
  "array_get xs i = (if i < length xs then ret (xs ! i) else fault)"

text \<open>Writing a C array that is a field of the state.\<close>

definition array_set :: "('s \<Rightarrow> 'a list) \<Rightarrow> (('a list \<Rightarrow> 'a list) \<Rightarrow> 's \<Rightarrow> 's) \<Rightarrow> nat \<Rightarrow> 'a \<Rightarrow> ('s, unit) cmd" where
  "array_set f upd i v =
     (\<lambda>s. if i < length (f s) then (Ok (), upd (\<lambda>xs. xs[i := v]) s) else (Fault, s))"

text \<open>A counted loop whose body does not use the counter.\<close>

fun repeat :: "nat \<Rightarrow> ('s, unit) cmd \<Rightarrow> ('s, unit) cmd" where
  "repeat 0 m = ret ()"
| "repeat (Suc n) m = bindC m (\<lambda>_. repeat n m)"

text \<open>
  A counted loop \<open>for (uint8_t i = 0; i < n; i++)\<close>: an 8-bit counter never reaches a bound
  above 255, so such a loop does not end.
\<close>

definition repeat_u8 :: "nat \<Rightarrow> ('s, unit) cmd \<Rightarrow> ('s, unit) cmd" where
  "repeat_u8 n m = (if n \<le> 255 then repeat n m else spin)"

lemma bindC_simps [cmd_simps]:
  "m s = (Ok a, t) \<Longrightarrow> bindC m k s = k a t"
  "m s = (Fail e, t) \<Longrightarrow> bindC m k s = (Fail e, t)"
  "m s = (Halted, t) \<Longrightarrow> bindC m k s = (Halted, t)"
  "m s = (Fault, t) \<Longrightarrow> bindC m k s = (Fault, t)"
  "m s = (Spin, t) \<Longrightarrow> bindC m k s = (Spin, t)"
  by (simp_all add: bindC_def)

text \<open>
  Rules for whole applications only: an equation for \<open>ret a s\<close> would be used on \<open>ret a\<close> as well,
  by eta-contraction.
\<close>

lemma cmd_prim_simps [cmd_simps, simp]:
  "fst (ret a s) = Ok a" "snd (ret a s) = s" "fst (gets f s) = Ok (f s)" "snd (gets f s) = s"
  "fst (modify g s) = Ok ()" "snd (modify g s) = g s"
  "fst (fail e s) = Fail e" "snd (fail e s) = s" "fst (fault s) = Fault" "snd (fault s) = s"
  "fst (spin s) = Spin" "snd (spin s) = s" "fst (halt s) = Halted" "snd (halt s) = s"
  by (simp_all add: ret_def fail_def fault_def spin_def halt_def gets_def modify_def)

lemma cmd_prim_eqs [cmd_simps, simp]:
  "ret a s = (r, t) \<longleftrightarrow> r = Ok a \<and> t = s" "gets f s = (r, t) \<longleftrightarrow> r = Ok (f s) \<and> t = s"
  "modify g s = (q, t) \<longleftrightarrow> q = Ok () \<and> t = g s" "fail e s = (r, t) \<longleftrightarrow> r = Fail e \<and> t = s"
  "fault s = (r, t) \<longleftrightarrow> r = Fault \<and> t = s" "spin s = (r, t) \<longleftrightarrow> r = Spin \<and> t = s"
  "halt s = (r, t) \<longleftrightarrow> r = Halted \<and> t = s"
  by (auto simp: ret_def fail_def fault_def spin_def halt_def gets_def modify_def)

lemma whenC_simps [simp]: "whenC True m = m" "whenC False m = ret ()"
  by (simp_all add: whenC_def)

lemma fatal_check_simps [simp]: "fatal_check True = ret ()" "fatal_check False = halt"
  by (simp_all add: fatal_check_def)

lemma fail_as_simps [cmd_simps, simp]:
  "m s = (Ok a, t) \<Longrightarrow> fail_as e m s = (Ok a, t)"
  "m s = (Fail e', t) \<Longrightarrow> fail_as e m s = (Fail e, t)"
  by (simp_all add: fail_as_def)

lemma bindC_assoc: "bindC (bindC m k) h = bindC m (\<lambda>a. bindC (k a) h)"
  by (rule ext) (simp add: bindC_def split: outcome.splits prod.splits)

lemma bindC_ret [simp]: "bindC (ret a) k = k a" "bindC m ret = m"
  by (rule ext, simp add: bindC_def ret_def split: outcome.splits prod.splits)+

lemma bindC_stop [simp]:
  "bindC (fail e) k = fail e" "bindC fault k = fault" "bindC spin k = spin" "bindC halt k = halt"
  by (simp_all add: bindC_def fail_def fault_def spin_def halt_def fun_eq_iff)

lemma bindC_Ok_iff:
  "bindC m k s = (Ok b, u) \<longleftrightarrow> (\<exists>a t. m s = (Ok a, t) \<and> k a t = (Ok b, u))"
  by (auto simp: bindC_def split: outcome.splits prod.splits)

lemma repeat_add: "repeat (m + n) c = bindC (repeat m c) (\<lambda>_. repeat n c)"
  by (induction m) (simp_all add: bindC_assoc)

section \<open>Safe commands\<close>

text \<open>
  A command is safe for a predicate \<open>I\<close> when, from every state in \<open>I\<close>, it leaves a state in \<open>I\<close>
  whatever its outcome is, never accesses an array out of range, and, unless \<open>sp\<close> allows it,
  always comes to an end.
\<close>

definition safe :: "bool \<Rightarrow> ('s \<Rightarrow> bool) \<Rightarrow> ('s, 'a) cmd \<Rightarrow> bool" where
  "safe sp I m \<longleftrightarrow> (\<forall>s. I s \<longrightarrow>
     I (snd (m s)) \<and> fst (m s) \<noteq> Fault \<and> (sp \<or> fst (m s) \<noteq> Spin))"

lemma safeI:
  "(\<And>s. I s \<Longrightarrow> I (snd (m s)) \<and> fst (m s) \<noteq> Fault \<and> (sp \<or> fst (m s) \<noteq> Spin)) \<Longrightarrow> safe sp I m"
  by (simp add: safe_def)

lemma safeD:
  "safe sp I m \<Longrightarrow> I s \<Longrightarrow> I (snd (m s))" "safe sp I m \<Longrightarrow> I s \<Longrightarrow> fst (m s) \<noteq> Fault"
  "safe False I m \<Longrightarrow> I s \<Longrightarrow> fst (m s) \<noteq> Spin"
  by (simp_all add: safe_def)

lemma safe_prims [safe_intros, simp]:
  "safe sp I (ret a)" "safe sp I (fail e)" "safe sp I halt" "safe sp I (gets f)" "safe True I spin"
  by (simp_all add: safe_def)

lemma safe_modify [safe_intros]: "(\<And>s. I s \<Longrightarrow> I (f s)) \<Longrightarrow> safe sp I (modify f)"
  by (simp add: safe_def)

lemma safe_bind_to:
  assumes "\<And>s. I s \<Longrightarrow> J (snd (m s)) \<and> fst (m s) \<noteq> Fault \<and> (sp \<or> fst (m s) \<noteq> Spin)"
    "\<And>s. J s \<Longrightarrow> I s" "\<And>a. safe sp J (k a)"
  shows "safe sp I (bindC m k)"
proof (rule safeI)
  fix s assume "I s"
  then have m: "J (snd (m s))" "fst (m s) \<noteq> Fault" "sp \<or> fst (m s) \<noteq> Spin"
    using assms(1) by blast+
  show "I (snd (bindC m k s)) \<and> fst (bindC m k s) \<noteq> Fault \<and> (sp \<or> fst (bindC m k s) \<noteq> Spin)"
  proof (cases "fst (m s)")
    case (Ok a)
    then have "bindC m k s = k a (snd (m s))" by (cases "m s") (simp add: bindC_def)
    then show ?thesis using assms(2,3) m(1) by (simp add: safe_def)
  qed (use m assms(2) in \<open>cases "m s", simp add: bindC_def\<close>)+
qed

lemma safe_bindC [safe_intros]:
  "safe sp I m \<Longrightarrow> (\<And>a. safe sp I (k a)) \<Longrightarrow> safe sp I (bindC m k)"
  by (rule safe_bind_to [where J = I]) (simp_all add: safe_def)

text \<open>What is read from a state in \<open>I\<close> may be used afterwards.\<close>

lemma safe_bind_gets:
  assumes "\<And>s. I s \<Longrightarrow> safe sp I (k (f s))"
  shows "safe sp I (bindC (gets f) k)"
  using assms by (auto simp: safe_def bindC_def gets_def)

lemma safe_if [safe_intros]:
  "(b \<Longrightarrow> safe sp I m) \<Longrightarrow> (\<not> b \<Longrightarrow> safe sp I n) \<Longrightarrow> safe sp I (if b then m else n)"
  by simp

lemma safe_whenC [safe_intros]: "(b \<Longrightarrow> safe sp I m) \<Longrightarrow> safe sp I (whenC b m)"
  by (simp add: whenC_def)

lemma safe_prod [safe_intros]: "(\<And>a b. x = (a, b) \<Longrightarrow> safe sp I (k a b)) \<Longrightarrow> safe sp I (case x of (a, b) \<Rightarrow> k a b)"
  by (cases x) simp

lemma safe_Let [safe_intros]: "safe sp I (k a) \<Longrightarrow> safe sp I (Let a k)"
  by simp

lemma safe_option [safe_intros]:
  "(x = None \<Longrightarrow> safe sp I m) \<Longrightarrow> (\<And>a. x = Some a \<Longrightarrow> safe sp I (k a)) \<Longrightarrow>
   safe sp I (case x of None \<Rightarrow> m | Some a \<Rightarrow> k a)"
  by (cases x) simp_all

lemma safe_fatal_check [safe_intros, simp]: "safe sp I (fatal_check b)"
  by (simp add: fatal_check_def)

lemma safe_fail_as [safe_intros]: "safe sp I m \<Longrightarrow> safe sp I (fail_as e m)"
proof (rule safeI)
  fix s assume m: "safe sp I m" "I s"
  show "I (snd (fail_as e m s)) \<and> fst (fail_as e m s) \<noteq> Fault \<and> (sp \<or> fst (fail_as e m s) \<noteq> Spin)"
    using m unfolding safe_def fail_as_def
    by (cases "m s"; cases "fst (m s)") (auto dest!: spec [of _ s])
qed

lemma safe_attempt [safe_intros]: "safe sp I m \<Longrightarrow> safe sp I (attempt m)"
proof (rule safeI)
  fix s assume m: "safe sp I m" "I s"
  show "I (snd (attempt m s)) \<and> fst (attempt m s) \<noteq> Fault \<and> (sp \<or> fst (attempt m s) \<noteq> Spin)"
    using m unfolding safe_def attempt_def
    by (cases "m s"; cases "fst (m s)") (auto dest!: spec [of _ s])
qed

lemma safe_array_get [safe_intros]: "i < length xs \<Longrightarrow> safe sp I (array_get xs i)"
  by (simp add: array_get_def)

lemma safe_array_set [safe_intros]:
  "(\<And>s. I s \<Longrightarrow> i < length (f s) \<and> I (upd (\<lambda>xs. xs[i := v]) s)) \<Longrightarrow> safe sp I (array_set f upd i v)"
  by (simp add: safe_def array_set_def)

lemma safe_repeat [safe_intros]: "safe sp I m \<Longrightarrow> safe sp I (repeat n m)"
  by (induction n) (auto intro: safe_bindC)

lemma safe_repeat_u8 [safe_intros]: "safe sp I m \<Longrightarrow> n \<le> 255 \<Longrightarrow> safe sp I (repeat_u8 n m)"
  by (simp add: repeat_u8_def safe_repeat)

section \<open>Commands that come to an end\<close>

text \<open>
  \<open>ends I m J\<close>: from every state in \<open>I\<close> the command comes to an end, and when it returns, the state
  is in \<open>J\<close>.  A safe command that does not touch what \<open>I\<close> speaks about is one; the rules of the
  collection \<open>ends_intros\<close> compose them.
\<close>

named_theorems ends_intros \<open>commands that come to an end\<close>

definition ends :: "('s \<Rightarrow> bool) \<Rightarrow> ('s, 'a) cmd \<Rightarrow> ('s \<Rightarrow> bool) \<Rightarrow> bool" where
  "ends I m J \<longleftrightarrow> (\<forall>s. I s \<longrightarrow> fst (m s) \<noteq> Spin \<and> (\<forall>a t. m s = (Ok a, t) \<longrightarrow> J t))"

lemma endsI:
  "(\<And>s. I s \<Longrightarrow> fst (m s) \<noteq> Spin) \<Longrightarrow> (\<And>s a t. I s \<Longrightarrow> m s = (Ok a, t) \<Longrightarrow> J t) \<Longrightarrow> ends I m J"
  by (simp add: ends_def)

lemma endsD: "ends I m J \<Longrightarrow> I s \<Longrightarrow> fst (m s) \<noteq> Spin"
  "ends I m J \<Longrightarrow> I s \<Longrightarrow> m s = (Ok a, t) \<Longrightarrow> J t"
  by (simp_all add: ends_def)

lemma ends_safe: "safe False I m \<Longrightarrow> ends I m I"
  unfolding safe_def ends_def by (metis snd_conv)

lemma ends_stop [ends_intros, simp]: "ends I (fail e) J" "ends I halt J" "ends I fault J"
  by (simp_all add: ends_def)

lemma ends_ret [ends_intros]: "(\<And>s. I s \<Longrightarrow> J s) \<Longrightarrow> ends I (ret a) J"
  by (simp add: ends_def)

lemma ends_bindC [ends_intros]:
  assumes "ends I m J" "\<And>a. ends J (k a) K"
  shows "ends I (bindC m k) K"
proof (rule endsI)
  fix s assume s: "I s"
  show "fst (bindC m k s) \<noteq> Spin"
  proof (cases "fst (m s)")
    case (Ok a)
    then have "m s = (Ok a, snd (m s))" by (metis prod.collapse)
    then show ?thesis
      using endsD(2) [OF assms(1) s] endsD(1) [OF assms(2)] by (metis bindC_simps(1))
  qed (use endsD(1) [OF assms(1) s] in \<open>cases "m s", simp add: bindC_def\<close>)+
  fix b t assume "bindC m k s = (Ok b, t)"
  then show "K t"
    using endsD(2) [OF assms(1) s] endsD(2) [OF assms(2)] by (auto simp: bindC_Ok_iff)
qed

lemma ends_bind_gets: "(\<And>s. I s \<Longrightarrow> ends I (k (f s)) J) \<Longrightarrow> ends I (bindC (gets f) k) J"
  by (auto simp: ends_def bindC_def gets_def)

lemma ends_if [ends_intros]:
  "(b \<Longrightarrow> ends I m J) \<Longrightarrow> (\<not> b \<Longrightarrow> ends I n J) \<Longrightarrow> ends I (if b then m else n) J"
  by simp

lemma ends_option [ends_intros]:
  "(x = None \<Longrightarrow> ends I m J) \<Longrightarrow> (\<And>a. x = Some a \<Longrightarrow> ends I (k a) J) \<Longrightarrow>
   ends I (case x of None \<Rightarrow> m | Some a \<Rightarrow> k a) J"
  by (cases x) simp_all

lemma ends_prod [ends_intros]:
  "(\<And>a b. x = (a, b) \<Longrightarrow> ends I (k a b) J) \<Longrightarrow> ends I (case x of (a, b) \<Rightarrow> k a b) J"
  by (cases x) simp

lemma ends_pre: "ends J m K \<Longrightarrow> (\<And>s. I s \<Longrightarrow> J s) \<Longrightarrow> ends I m K"
  by (auto simp: ends_def)

text \<open>Rules for commands that keep a predicate, with nothing left to guess.\<close>

lemma ends_same:
  "ends I m I \<Longrightarrow> (\<And>a. ends I (k a) I) \<Longrightarrow> ends I (bindC m k) I"
  "ends I (ret a) I" "ends I (gets f) I"
  "ends I n I \<Longrightarrow> ends I (whenC b n) I"
  by (simp_all add: ends_bindC ends_ret whenC_def ends_def [of _ "gets f"])

section \<open>Running a command\<close>

text \<open>
  \<open>runs m s Q\<close>: the outcome of \<open>m\<close> in state \<open>s\<close> and the state it leaves satisfy \<open>Q\<close>.  The rules of
  the collection \<open>runs_intros\<close> go through a command one call at a time.
\<close>

named_theorems runs_intros \<open>rules that step through a command\<close>

definition runs :: "('s, 'a) cmd \<Rightarrow> 's \<Rightarrow> ('a outcome \<Rightarrow> 's \<Rightarrow> bool) \<Rightarrow> bool" where
  "runs m s Q \<longleftrightarrow> Q (fst (m s)) (snd (m s))"

lemma runs_bindC:
  "runs (bindC m k) s Q \<longleftrightarrow> runs m s (\<lambda>r t. case r of Ok a \<Rightarrow> runs (k a) t Q
     | Fail e \<Rightarrow> Q (Fail e) t | Halted \<Rightarrow> Q Halted t | Fault \<Rightarrow> Q Fault t | Spin \<Rightarrow> Q Spin t)"
  by (simp add: runs_def bindC_def split: outcome.splits prod.splits)

lemma runs_bindI [runs_intros]:
  "runs m s (\<lambda>r t. case r of Ok a \<Rightarrow> runs (k a) t Q
     | Fail e \<Rightarrow> Q (Fail e) t | Halted \<Rightarrow> Q Halted t | Fault \<Rightarrow> Q Fault t | Spin \<Rightarrow> Q Spin t) \<Longrightarrow>
   runs (bindC m k) s Q"
  by (simp add: runs_bindC)

lemma runs_prims [simp]:
  "runs (ret a) s Q = Q (Ok a) s" "runs (fail e) s Q = Q (Fail e) s" "runs fault s Q = Q Fault s"
  "runs spin s Q = Q Spin s" "runs halt s Q = Q Halted s"
  "runs (gets f) s R = R (Ok (f s)) s" "runs (modify g) s S = S (Ok ()) (g s)"
  by (simp_all add: runs_def)

lemma runs_if [simp]:
  "runs (if b then m else n) s Q \<longleftrightarrow> (if b then runs m s Q else runs n s Q)"
  by simp

lemma runs_fail_asI:
  "runs m s (\<lambda>r t. case r of Fail _ \<Rightarrow> Q (Fail e) t | _ \<Rightarrow> Q r t) \<Longrightarrow> runs (fail_as e m) s Q"
  by (cases "m s") (auto simp: runs_def fail_as_def split: outcome.splits)

lemma runs_array_set [simp]:
  "runs (array_set f upd i v) s Q \<longleftrightarrow>
     (if i < length (f s) then Q (Ok ()) (upd (\<lambda>xs. xs[i := v]) s) else Q Fault s)"
  by (simp add: runs_def array_set_def)

lemma runsI: "m s = (r, t) \<Longrightarrow> Q r t \<Longrightarrow> runs m s Q"
  by (simp add: runs_def)

lemma runsD: "runs m s Q \<Longrightarrow> m s = (r, t) \<Longrightarrow> Q r t"
  by (simp add: runs_def)

lemma runs_mono: "runs m s R \<Longrightarrow> (\<And>r t. R r t \<Longrightarrow> Q r t) \<Longrightarrow> runs m s Q"
  by (simp add: runs_def)

lemma runs_conj: "runs m s Q \<Longrightarrow> runs m s R \<Longrightarrow> runs m s (\<lambda>r t. Q r t \<and> R r t)"
  by (simp add: runs_def)

section \<open>Words and bytes\<close>

lemma unat_byte_less [simp]: "unat (b :: byte) < 256"
  using unsigned_less [of b] by simp

lemma unat_byte_le [simp]: "unat (b :: byte) \<le> 255"
  using unat_byte_less [of b] by linarith

lemma byte_bit_high: "8 \<le> n \<Longrightarrow> \<not> bit (b :: byte) n"
  using bit_imp_le_length [of b n] by auto

lemma bit_above:
  assumes "unat (w :: 'a::len word) < 2 ^ n" "n \<le> i"
  shows "\<not> bit w i"
proof
  assume "bit w i"
  then have "bit (unat w) i" by (simp add: bit_unsigned_iff)
  then have "odd (unat w div 2 ^ i)" by (simp add: bit_iff_odd)
  then have "2 ^ i \<le> unat w"
    by (metis div_less even_zero not_less)
  moreover have "(2::nat) ^ n \<le> 2 ^ i" using assms(2) by simp
  ultimately show False using assms(1) by linarith
qed

lemma all_less_8: "(\<forall>n<8. Q n) \<longleftrightarrow> Q 0 \<and> Q 1 \<and> Q 2 \<and> Q 3 \<and> Q 4 \<and> Q 5 \<and> Q 6 \<and> Q (7::nat)"
  by (auto simp add: All_less_Suc eval_nat_numeral)

lemma byte_eqI: "(\<forall>n<8. bit (a :: byte) n = bit b n) \<Longrightarrow> a = b"
  by (rule bit_word_eqI) simp

lemma bit_numeral_mask:
  "bit (63 :: int) n \<longleftrightarrow> n < 6" "bit (31 :: int) n \<longleftrightarrow> n < 5"
  "bit (15 :: int) n \<longleftrightarrow> n < 4" "bit (7 :: int) n \<longleftrightarrow> n < 3"
  using bit_mask_iff [of 6 n, where 'a = int] bit_mask_iff [of 5 n, where 'a = int]
    bit_mask_iff [of 4 n, where 'a = int] bit_mask_iff [of 3 n, where 'a = int]
  by (simp_all add: mask_eq_exp_minus_1)

text \<open>The \<open>n\<close> low bits of a word, least significant first: the order every wire protocol here uses.\<close>

definition bits_lsb :: "nat \<Rightarrow> 'a::len word \<Rightarrow> bool list" where
  "bits_lsb n w = map (bit w) [0..<n]"

lemma length_bits_lsb [simp]: "length (bits_lsb n w) = n"
  by (simp add: bits_lsb_def)

lemma nth_bits_lsb [simp]: "i < n \<Longrightarrow> bits_lsb n w ! i = bit w i"
  by (simp add: bits_lsb_def)

lemma bits_lsb_0 [simp]: "bits_lsb 0 w = []"
  by (simp add: bits_lsb_def)

lemma bits_lsb_Suc: "bits_lsb (Suc n) w = bit w 0 # bits_lsb n (drop_bit 1 w)"
  by (rule nth_equalityI) (auto simp: bit_drop_bit_eq nth_Cons split: nat.splits)

text \<open>Bits read one after the other, least significant first, make up a word.\<close>

definition word_of_bits :: "bool list \<Rightarrow> 'a::len word" where
  "word_of_bits bs = horner_sum of_bool 2 bs"

lemma bit_word_of_bits:
  "bit (word_of_bits bs :: 'a::len word) n \<longleftrightarrow> n < LENGTH('a) \<and> n < length bs \<and> bs ! n"
  by (simp add: word_of_bits_def bit_horner_sum_bit_word_iff)

lemma word_of_bits_Nil [simp]: "word_of_bits [] = 0"
  by (simp add: word_of_bits_def)

lemma word_of_bits_lsb: "word_of_bits (bits_lsb LENGTH('a) w) = (w :: 'a::len word)"
  by (rule bit_word_eqI) (simp add: bit_word_of_bits)

lemma bits_lsb_word_of_bits:
  "n \<le> LENGTH('a::len) \<Longrightarrow> length bs = n \<Longrightarrow> bits_lsb n (word_of_bits bs :: 'a word) = bs"
  by (rule nth_equalityI) (auto simp: bit_word_of_bits)

lemma word_of_bits_snoc:
  "word_of_bits (bs @ [b]) = (word_of_bits bs OR push_bit (length bs) (of_bool b) :: 'a::len word)"
  by (rule bit_word_eqI) (auto simp: bit_word_of_bits bit_simps nth_append less_Suc_eq)

lemma word_of_bits_Cons:
  "word_of_bits (b # bs) = (of_bool b OR push_bit 1 (word_of_bits bs) :: 'a::len word)"
proof (rule bit_word_eqI)
  fix n assume "n < LENGTH('a)"
  then show "bit (word_of_bits (b # bs) :: 'a word) n
      = bit (of_bool b OR push_bit 1 (word_of_bits bs) :: 'a word) n"
    by (cases n) (auto simp: bit_word_of_bits bit_or_iff bit_push_bit_iff bit_of_bool_iff
        simp del: push_bit_of_1 push_bit_Suc)
qed

text \<open>Bits packed into bytes, eight at a time; a short last byte holds its bits at the low end.\<close>

function bytes_of_bits :: "bool list \<Rightarrow> byte list" where
  "bytes_of_bits bs = (if bs = [] then [] else word_of_bits (take 8 bs) # bytes_of_bits (drop 8 bs))"
  by pat_completeness auto
termination by (relation "measure length") auto

declare bytes_of_bits.simps [simp del]

lemma bytes_of_bits_Nil [simp]: "bytes_of_bits [] = []"
  by (simp add: bytes_of_bits.simps)

lemma div_8_step:
  assumes "0 < (n :: nat)"
  shows "Suc ((n - 8 + 7) div 8) = (n + 7) div 8"
proof (cases "n \<le> 8")
  case True
  then have "(n + 7) div 8 = 1" using assms by (intro div_nat_eqI) simp_all
  then show ?thesis using True by simp
next
  case False
  then have "n + 7 = (n - 8 + 7) + 8" by simp
  then show ?thesis by (metis Suc_eq_plus1 div_add_self2 zero_neq_numeral)
qed

lemma length_bytes_of_bits: "length (bytes_of_bits bs) = (length bs + 7) div 8"
proof (induction bs rule: bytes_of_bits.induct)
  case (1 bs)
  show ?case
  proof (cases "bs = []")
    case False
    then have "length (bytes_of_bits bs) = Suc ((length bs - 8 + 7) div 8)"
      using 1 by (subst bytes_of_bits.simps) simp
    also have "\<dots> = (length bs + 7) div 8"
      using False div_8_step [of "length bs"] by simp
    finally show ?thesis .
  qed simp
qed

lemma and_1_neq_0: "(w AND 1 \<noteq> 0) = odd (w :: 'a::len word)"
  by (simp add: and_one_eq odd_iff_mod_2_eq_one)

lemma bit_0_odd: "bit (w :: 'a::len word) 0 = odd w"
  by (simp add: bit_0)

text \<open>
  The loops that read a byte bit by bit shift every new bit in at the top; a short last byte is
  moved down at the end.
\<close>

lemma shift_in_byte:
  assumes "n \<le> 7" "length bs = n"
  shows "drop_bit n (drop_bit 1 x OR push_bit 7 (of_bool b)) OR push_bit (8 - n) (word_of_bits bs)
    = (drop_bit (Suc n) x OR push_bit (8 - Suc n) (word_of_bits (b # bs)) :: byte)"
proof (rule bit_word_eqI)
  fix m assume "m < LENGTH(8)"
  then show "bit (drop_bit n (drop_bit 1 x OR push_bit 7 (of_bool b)) OR push_bit (8 - n) (word_of_bits bs)) m
    = bit (drop_bit (Suc n) x OR push_bit (8 - Suc n) (word_of_bits (b # bs)) :: byte) m"
  proof (cases m "7 - n" rule: linorder_cases)
    case greater
    then have "m - (7 - n) = Suc (m - (8 - n))" using assms(1) by simp
    then show ?thesis
      using assms greater \<open>m < _\<close> by (auto simp: bit_simps bit_word_of_bits)
  qed (use assms in \<open>auto simp: bit_simps bit_word_of_bits\<close>)
qed

lemma shift_in_short:
  "length bs = n \<Longrightarrow> n \<le> 8 \<Longrightarrow> drop_bit (8 - n) (push_bit (8 - n) (word_of_bits bs)) = (word_of_bits bs :: byte)"
  by (rule bit_word_eqI) (auto simp: bit_simps bit_word_of_bits)

lemma take_bits_step:
  "take n (concat (map (bits_lsb 8) (x # xs)))
     = bits_lsb (min 8 n) x @ take (n - min 8 n) (concat (map (bits_lsb 8) xs))" for x :: byte
  by (cases "n \<le> 8") (auto simp: bits_lsb_def take_map)

lemma bytes_of_bits_step:
  assumes "length bs = min 8 n" "length cs = n - min 8 n" "0 < n"
  shows "bytes_of_bits (bs @ cs) = word_of_bits bs # bytes_of_bits cs"
proof (cases "n \<le> 8")
  case True
  then have "cs = []" "bs \<noteq> []" "length bs \<le> 8" using assms by auto
  then show ?thesis by (subst bytes_of_bits.simps) simp
next
  case False
  then have "bs \<noteq> []" "length bs = 8" using assms by auto
  then show ?thesis by (subst bytes_of_bits.simps) simp
qed

lemma bytes_step_length:
  assumes "0 < (n :: nat)" "Suc k = (n + 7) div 8"
  shows "k = (n - min 8 n + 7) div 8"
proof -
  have "n - min 8 n = n - 8" by simp
  moreover have "Suc k = Suc ((n - 8 + 7) div 8)"
    unfolding assms(2) by (rule div_8_step [OF assms(1), symmetric])
  ultimately show ?thesis by simp
qed

end
