(* ===== verification/Platform.thy ===== *)
theory Platform
  imports Prelude
begin

text \<open>
  The platform the firmware is written against.  Zephyr's drivers, kernel services and ring
  buffers are not part of the repository, so they are parameters: a record \<open>platform\<close> that
  every definition takes as its first argument.

  Driver and kernel calls are answered by \<open>p_hw\<close>, any function of the calls made so far and
  their answers; a call and its answer are appended to the trace of the driver state.  The trace
  is therefore exactly what the outside world sees of a driver: pin levels, directions, delays.

  Ring buffers are values of a type \<open>'rb\<close> with the operations of Zephyr's \<open>ring_buf\<close> API.  What
  the firmware relies on is stated once, in the locale \<open>ring_buffer\<close> of theory
  \<open>Ring_Buffer\<close>.
\<close>

section \<open>Driver and kernel calls\<close>

datatype pin = TCK_SWCLK | TMS_SWDIO | TDO | TDI | NRESET | VTREF | LED_CONNECT | LED_RUNNING
  | IO_GPIO nat

datatype gpio_flag = GPIO_INPUT | GPIO_OUTPUT | GPIO_OUTPUT_ACTIVE | GPIO_OUTPUT_INACTIVE
  | GPIO_PULL_UP | GPIO_PULL_DOWN | GPIO_ACTIVE_LOW | GPIO_OPEN_DRAIN

datatype pin_state = PINS_JTAG | PINS_SWD | PINS_SOC u32

datatype uart = UART_SWO | UART_VCP nat

datatype sock_family = AF_INET | AF_INET6

text \<open>
  A line configuration is the fields of \<open>struct uart_config\<close>: baud rate, parity, stop bits, data
  bits and flow control.  A socket call that fails answers minus its \<open>errno\<close>.
\<close>

datatype uart_call =
    ConfigureLine u32 byte byte byte byte
  | ConfigGet
  | IrqTxEnable
  | IrqPending
  | IrqTxReady
  | FifoFill "byte list"

datatype usb_call =
    WorkInit
  | WorkSubmit
  | WorkCancel
  | TransferBusy byte
  | TransferRead byte nat nat
  | TransferWrite byte "byte list"
  | CancelTransfer byte
  | StringIdx
  | UsbEnable
  | SemGive
  | SemTake u32

datatype sock_call =
    SockOpen sock_family
  | SockBind int sock_family nat
  | SockListen int nat
  | FcntlGet int
  | FcntlSet int int
  | SockAccept int
  | SockRecv int nat
  | SockSend int "byte list"
  | SockClose int
  | NetFirstUp
  | DhcpStart int

datatype hw_call =
    GpioConfigure pin "gpio_flag list"
  | GpioSet pin int
  | GpioGet pin
  | GpioToggle pin
  | GpioReady pin
  | PinctrlConfigure pin_state
  | BusyWaitNanos u32
  | BusyWaitMicros u32
  | SleepMicros u32
  | SleepMillis u32
  | TimepointCalcMicros u32
  | TimepointCalcMillis u32
  | TimepointExpired
  | TimerStart
  | TimerStop
  | UartConfigure uart u32
  | UartIrqRxEnable uart
  | UartIrqRxDisable uart
  | UartIrqErrEnable uart
  | UartIrqErrDisable uart
  | UartIrqTxDisable uart
  | UartErrCheck uart
  | UartIrqUpdate uart
  | UartIrqRxReady uart
  | UartFifoRead uart nat
  | DeviceReady uart
  | TransportInit nat
  | TransportConfigure nat
  | TransportRecv nat nat
  | TransportSend nat "byte list"
  | UartCall uart uart_call
  | UsbCall usb_call
  | SockCall sock_call

text \<open>An answer is the \<open>int32_t\<close> the call returns and the bytes it stored through a pointer.\<close>

type_synonym answer = "int \<times> byte list"
type_synonym hist = "(hw_call \<times> answer) list"

section \<open>The platform and the buffers of a driver\<close>

record 'rb platform =
  p_put :: "'rb \<Rightarrow> byte list \<Rightarrow> nat \<times> 'rb"
  p_get :: "'rb \<Rightarrow> nat \<Rightarrow> byte list \<times> 'rb"
  p_put_claim :: "'rb \<Rightarrow> nat \<Rightarrow> (nat \<times> nat) \<times> 'rb"
  p_put_finish :: "'rb \<Rightarrow> nat \<Rightarrow> int \<times> 'rb"
  p_get_claim :: "'rb \<Rightarrow> nat \<Rightarrow> (nat \<times> nat) \<times> 'rb"
  p_get_finish :: "'rb \<Rightarrow> nat \<Rightarrow> int \<times> 'rb"
  p_load :: "'rb \<Rightarrow> nat \<Rightarrow> nat \<Rightarrow> byte list"
  p_store :: "'rb \<Rightarrow> nat \<Rightarrow> byte list \<Rightarrow> 'rb"
  p_reset :: "'rb \<Rightarrow> 'rb"
  p_size :: "'rb \<Rightarrow> nat"
  p_space :: "'rb \<Rightarrow> nat"
  p_hw :: "hist \<Rightarrow> hw_call \<Rightarrow> answer"
  p_fuel :: nat

text \<open>
  \<open>p_put_claim\<close> and \<open>p_get_claim\<close> give the number of bytes granted and the pointer to them;
  \<open>p_load\<close> and \<open>p_store\<close> are the C reads and writes through such a pointer.  \<open>p_fuel\<close> bounds
  the number of rounds of a loop whose end depends on the platform; the theorems say how much
  is enough.

  Every part of the firmware makes such calls, so the records of their states extend \<open>traced\<close>.
  Both protocol drivers hold a request and a response ring buffer, so their records extend \<open>bufs\<close>.
\<close>

record traced =
  trace :: hist

record 'rb bufs = traced +
  request :: 'rb
  response :: 'rb

section \<open>Commands on the platform\<close>

definition hw_full :: "'rb platform \<Rightarrow> hw_call \<Rightarrow> ('z traced_scheme, answer) cmd" where
  "hw_full P c = (\<lambda>s. (Ok (p_hw P (trace s) c), s\<lparr>trace := trace s @ [(c, p_hw P (trace s) c)]\<rparr>))"

definition hw :: "'rb platform \<Rightarrow> hw_call \<Rightarrow> ('z traced_scheme, int) cmd" where
  "hw P c = bindC (hw_full P c) (\<lambda>a. ret (fst a))"

definition hwv :: "'rb platform \<Rightarrow> hw_call \<Rightarrow> ('z traced_scheme, unit) cmd" where
  "hwv P c = bindC (hw_full P c) (\<lambda>_. ret ())"

text \<open>
  The operations of one ring buffer are commands on that ring buffer; they are lifted to the
  request and the response buffer of a driver.
\<close>

definition rb_put :: "'rb platform \<Rightarrow> byte list \<Rightarrow> ('rb, nat) cmd" where
  "rb_put P bs = (\<lambda>r. (Ok (fst (p_put P r bs)), snd (p_put P r bs)))"

definition rb_get :: "'rb platform \<Rightarrow> nat \<Rightarrow> ('rb, byte list) cmd" where
  "rb_get P n = (\<lambda>r. (Ok (fst (p_get P r n)), snd (p_get P r n)))"

definition rb_put_claim :: "'rb platform \<Rightarrow> nat \<Rightarrow> ('rb, nat \<times> nat) cmd" where
  "rb_put_claim P n = (\<lambda>r. (Ok (fst (p_put_claim P r n)), snd (p_put_claim P r n)))"

definition rb_put_finish :: "'rb platform \<Rightarrow> nat \<Rightarrow> ('rb, int) cmd" where
  "rb_put_finish P n = (\<lambda>r. (Ok (fst (p_put_finish P r n)), snd (p_put_finish P r n)))"

definition rb_get_claim :: "'rb platform \<Rightarrow> nat \<Rightarrow> ('rb, nat \<times> nat) cmd" where
  "rb_get_claim P n = (\<lambda>r. (Ok (fst (p_get_claim P r n)), snd (p_get_claim P r n)))"

definition rb_get_finish :: "'rb platform \<Rightarrow> nat \<Rightarrow> ('rb, int) cmd" where
  "rb_get_finish P n = (\<lambda>r. (Ok (fst (p_get_finish P r n)), snd (p_get_finish P r n)))"

definition rb_load :: "'rb platform \<Rightarrow> nat \<Rightarrow> nat \<Rightarrow> ('rb, byte list) cmd" where
  "rb_load P ptr n = gets (\<lambda>r. p_load P r ptr n)"

definition rb_store :: "'rb platform \<Rightarrow> nat \<Rightarrow> byte list \<Rightarrow> ('rb, unit) cmd" where
  "rb_store P ptr bs = modify (\<lambda>r. p_store P r ptr bs)"

definition rb_reset :: "'rb platform \<Rightarrow> ('rb, unit) cmd" where
  "rb_reset P = modify (p_reset P)"

definition on_request :: "('rb, 'a) cmd \<Rightarrow> (('rb, 'z) bufs_scheme, 'a) cmd" where
  "on_request m = (\<lambda>s. (fst (m (request s)), s\<lparr>request := snd (m (request s))\<rparr>))"

definition on_response :: "('rb, 'a) cmd \<Rightarrow> (('rb, 'z) bufs_scheme, 'a) cmd" where
  "on_response m = (\<lambda>s. (fst (m (response s)), s\<lparr>response := snd (m (response s))\<rparr>))"

text \<open>
  The two idioms every handler is made of: reading \<open>n\<close> request bytes or failing with
  \<open>-EMSGSIZE\<close>, and appending response bytes or failing with \<open>-ENOBUFS\<close>.
\<close>

definition get_bytes :: "'rb platform \<Rightarrow> nat \<Rightarrow> (('rb, 'z) bufs_scheme, byte list) cmd" where
  "get_bytes P n = on_request (bindC (rb_get P n) (\<lambda>bs.
     if length bs \<noteq> n then fail EMSGSIZE else ret bs))"

definition get_u8 :: "'rb platform \<Rightarrow> (('rb, 'z) bufs_scheme, byte) cmd" where
  "get_u8 P = bindC (get_bytes P 1) (\<lambda>bs. ret (hd bs))"

definition put_bytes :: "'rb platform \<Rightarrow> byte list \<Rightarrow> (('rb, 'z) bufs_scheme, unit) cmd" where
  "put_bytes P bs = on_response (bindC (rb_put P bs) (\<lambda>n.
     if n \<noteq> length bs then fail ENOBUFS else ret ()))"

section \<open>Safety of the platform commands\<close>

text \<open>Ring buffer commands neither fault nor spin.\<close>

lemma safe_rb [safe_intros]:
  "safe sp (\<lambda>_. True) (rb_put P bs)" "safe sp (\<lambda>_. True) (rb_get P n)"
  "safe sp (\<lambda>_. True) (rb_put_claim P n)" "safe sp (\<lambda>_. True) (rb_put_finish P n)"
  "safe sp (\<lambda>_. True) (rb_get_claim P n)" "safe sp (\<lambda>_. True) (rb_get_finish P n)"
  "safe sp (\<lambda>_. True) (rb_load P ptr n)" "safe sp (\<lambda>_. True) (rb_store P ptr bs)"
  "safe sp (\<lambda>_. True) (rb_reset P)"
  by (simp_all add: safe_def rb_put_def rb_get_def rb_put_claim_def rb_put_finish_def
    rb_get_claim_def rb_get_finish_def rb_load_def rb_store_def rb_reset_def)

lemma safe_on_buffer [safe_intros]:
  "(\<And>r s. I s \<Longrightarrow> I (s\<lparr>request := r\<rparr>)) \<Longrightarrow> safe sp (\<lambda>_. True) m \<Longrightarrow> safe sp I (on_request m)"
  "(\<And>r s. I s \<Longrightarrow> I (s\<lparr>response := r\<rparr>)) \<Longrightarrow> safe sp (\<lambda>_. True) m \<Longrightarrow> safe sp I (on_response m)"
  by (auto simp: safe_def on_request_def on_response_def)

lemma safe_hw [safe_intros]:
  "(\<And>h s. I s \<Longrightarrow> I (s\<lparr>trace := h\<rparr>)) \<Longrightarrow> safe sp I (hw_full P c)"
  "(\<And>h s. I s \<Longrightarrow> I (s\<lparr>trace := h\<rparr>)) \<Longrightarrow> safe sp I (hw P c)"
  "(\<And>h s. I s \<Longrightarrow> I (s\<lparr>trace := h\<rparr>)) \<Longrightarrow> safe sp I (hwv P c)"
  by (auto simp: safe_def hw_full_def hw_def hwv_def bindC_def ret_def)

lemma safe_get_put [safe_intros]:
  "(\<And>r s. I s \<Longrightarrow> I (s\<lparr>request := r\<rparr>)) \<Longrightarrow> safe sp I (get_bytes P n)"
  "(\<And>r s. I s \<Longrightarrow> I (s\<lparr>request := r\<rparr>)) \<Longrightarrow> safe sp I (get_u8 P)"
  "(\<And>r s. I s \<Longrightarrow> I (s\<lparr>response := r\<rparr>)) \<Longrightarrow> safe sp I (put_bytes P bs)"
  unfolding get_bytes_def get_u8_def put_bytes_def by (rule safe_intros | assumption)+

end
