(* ===== verification/Ring_Buffer.thy ===== *)
theory Ring_Buffer
  imports Platform
begin

text \<open>
  The interface of Zephyr's ring buffer, as the firmware uses it: a locale whose laws are the
  documented behaviour of the \<open>ring_buf\<close> functions, stated over a view of a buffer.

  A view holds the capacity, the position of the oldest byte in the backing array, the readable
  bytes, how many of them are claimed for reading, and the bytes claimed for writing.  A claim
  grants only memory that is contiguous in the backing array; the bytes of fresh claims are
  unspecified.
\<close>

record rview =
  r_cap :: nat
  r_pos :: nat
  r_data :: "byte list"
  r_got :: nat
  r_held :: "byte list"

text \<open>No claim is open.\<close>

definition r_idle :: "rview \<Rightarrow> bool" where
  "r_idle v \<longleftrightarrow> r_got v = 0 \<and> r_held v = []"

text \<open>The readable bytes do not wrap around the end of the backing array.\<close>

definition r_linear :: "rview \<Rightarrow> bool" where
  "r_linear v \<longleftrightarrow> r_pos v + length (r_data v) + length (r_held v) \<le> r_cap v"

definition r_wf :: "rview \<Rightarrow> bool" where
  "r_wf v \<longleftrightarrow> 0 < r_cap v \<and> r_pos v < r_cap v \<and> r_got v \<le> length (r_data v)
     \<and> length (r_data v) + length (r_held v) \<le> r_cap v"

definition r_put_room :: "rview \<Rightarrow> nat" where
  "r_put_room v =
     (let used = length (r_data v) + length (r_held v)
      in min (r_cap v - used) (r_cap v - (r_pos v + used) mod r_cap v))"

definition r_get_room :: "rview \<Rightarrow> nat" where
  "r_get_room v =
     min (length (r_data v) - r_got v) (r_cap v - (r_pos v + r_got v) mod r_cap v)"

text \<open>Overwriting bytes of the readable and held region, from index \<open>i\<close> on.\<close>

definition r_write :: "rview \<Rightarrow> nat \<Rightarrow> byte list \<Rightarrow> rview" where
  "r_write v i bs =
     (let all = r_data v @ r_held v;
          new = take i all @ bs @ drop (i + length bs) all
      in v\<lparr>r_data := take (length (r_data v)) new, r_held := drop (length (r_data v)) new\<rparr>)"

text \<open>
  How the drivers use their two buffers.  A request buffer is read from its start (it was reset
  after the previous request), so its bytes are contiguous; a response buffer starts at position
  zero because it is reset before each request.
\<close>

definition rb_reads :: "('rb \<Rightarrow> rview) \<Rightarrow> ('rb \<Rightarrow> bool) \<Rightarrow> 'rb \<Rightarrow> byte list \<Rightarrow> bool" where
  "rb_reads view ok r bs \<longleftrightarrow>
     ok r \<and> r_idle (view r) \<and> r_linear (view r) \<and> r_data (view r) = bs"

definition rb_fills :: "('rb \<Rightarrow> rview) \<Rightarrow> ('rb \<Rightarrow> bool) \<Rightarrow> nat \<Rightarrow> 'rb \<Rightarrow> byte list \<Rightarrow> bool" where
  "rb_fills view ok c r bs \<longleftrightarrow> ok r \<and> r_idle (view r) \<and> r_pos (view r) = 0
     \<and> r_cap (view r) = c \<and> r_data (view r) = bs"

locale ring_buffer =
  fixes P :: "'rb platform"
    and view :: "'rb \<Rightarrow> rview"
    and ok :: "'rb \<Rightarrow> bool"
  assumes wf: "ok r \<Longrightarrow> r_wf (view r)"
    and ok_ops:
      "ok r \<Longrightarrow> ok (snd (p_put P r bs))" "ok r \<Longrightarrow> ok (snd (p_get P r n))"
      "ok r \<Longrightarrow> ok (snd (p_put_claim P r n))" "ok r \<Longrightarrow> ok (snd (p_put_finish P r n))"
      "ok r \<Longrightarrow> ok (snd (p_get_claim P r n))" "ok r \<Longrightarrow> ok (snd (p_get_finish P r n))"
      "ok r \<Longrightarrow> ok (p_reset P r)"
    and put_count: "ok r \<Longrightarrow> r_held (view r) = [] \<Longrightarrow>
      fst (p_put P r bs) = min (length bs) (r_cap (view r) - length (r_data (view r)))"
    and put_view: "ok r \<Longrightarrow> r_held (view r) = [] \<Longrightarrow>
      view (snd (p_put P r bs)) =
        (view r)\<lparr>r_data := r_data (view r)
           @ take (r_cap (view r) - length (r_data (view r))) bs\<rparr>"
    and get_bytes: "ok r \<Longrightarrow> r_got (view r) = 0 \<Longrightarrow>
      fst (p_get P r n) = take n (r_data (view r))"
    and get_view: "ok r \<Longrightarrow> r_got (view r) = 0 \<Longrightarrow>
      view (snd (p_get P r n)) =
        (view r)\<lparr>r_data := drop n (r_data (view r)),
           r_pos := (r_pos (view r) + min n (length (r_data (view r)))) mod r_cap (view r)\<rparr>"
    and put_claim_grant: "ok r \<Longrightarrow>
      fst (p_put_claim P r n) =
        (min n (r_put_room (view r)),
         (r_pos (view r) + length (r_data (view r)) + length (r_held (view r))) mod r_cap (view r))"
    and put_claim_view: "ok r \<Longrightarrow>
      \<exists>junk. length junk = min n (r_put_room (view r)) \<and>
        view (snd (p_put_claim P r n)) = (view r)\<lparr>r_held := r_held (view r) @ junk\<rparr>"
    and put_finish: "ok r \<Longrightarrow> n \<le> length (r_held (view r)) \<Longrightarrow>
      fst (p_put_finish P r n) = 0 \<and>
      view (snd (p_put_finish P r n)) =
        (view r)\<lparr>r_data := r_data (view r) @ take n (r_held (view r)), r_held := []\<rparr>"
    and put_finish_bad: "ok r \<Longrightarrow> length (r_held (view r)) < n \<Longrightarrow>
      fst (p_put_finish P r n) < 0 \<and> view (snd (p_put_finish P r n)) = view r"
    and get_claim_grant: "ok r \<Longrightarrow>
      fst (p_get_claim P r n) =
        (min n (r_get_room (view r)), (r_pos (view r) + r_got (view r)) mod r_cap (view r))"
    and get_claim_view: "ok r \<Longrightarrow>
      view (snd (p_get_claim P r n)) =
        (view r)\<lparr>r_got := r_got (view r) + min n (r_get_room (view r))\<rparr>"
    and get_finish: "ok r \<Longrightarrow> n \<le> r_got (view r) \<Longrightarrow>
      fst (p_get_finish P r n) = 0 \<and>
      view (snd (p_get_finish P r n)) =
        (view r)\<lparr>r_data := drop n (r_data (view r)),
           r_pos := (r_pos (view r) + n) mod r_cap (view r), r_got := 0\<rparr>"
    and get_finish_bad: "ok r \<Longrightarrow> r_got (view r) < n \<Longrightarrow>
      fst (p_get_finish P r n) < 0 \<and> view (snd (p_get_finish P r n)) = view r"
    and load: "ok r \<Longrightarrow> i + n \<le> length (r_data (view r) @ r_held (view r)) \<Longrightarrow>
      ptr = (r_pos (view r) + i) mod r_cap (view r) \<Longrightarrow> ptr + n \<le> r_cap (view r) \<Longrightarrow>
      p_load P r ptr n = take n (drop i (r_data (view r) @ r_held (view r)))"
    and store: "ok r \<Longrightarrow> i + length bs \<le> length (r_data (view r) @ r_held (view r)) \<Longrightarrow>
      ptr = (r_pos (view r) + i) mod r_cap (view r) \<Longrightarrow> ptr + length bs \<le> r_cap (view r) \<Longrightarrow>
      ok (p_store P r ptr bs) \<and> view (p_store P r ptr bs) = r_write (view r) i bs"
    and reset_view: "ok r \<Longrightarrow>
      view (p_reset P r) = \<lparr>r_cap = r_cap (view r), r_pos = 0, r_data = [], r_got = 0, r_held = []\<rparr>"
    and size_get: "ok r \<Longrightarrow> r_got (view r) = 0 \<Longrightarrow> p_size P r = length (r_data (view r))"
    and space_get: "ok r \<Longrightarrow> r_held (view r) = [] \<Longrightarrow>
      p_space P r = r_cap (view r) - length (r_data (view r))"
begin

lemmas ops_ok [simp, intro] = ok_ops

lemma r_wfD:
  assumes "ok r"
  shows "0 < r_cap (view r)" "r_pos (view r) < r_cap (view r)"
    "r_got (view r) \<le> length (r_data (view r))"
    "length (r_data (view r)) + length (r_held (view r)) \<le> r_cap (view r)"
  using wf [OF assms] by (auto simp: r_wf_def)

text \<open>Claiming bytes and finishing the claim is the same as getting them, when they do not wrap.\<close>

lemma get_room_linear:
  "ok r \<Longrightarrow> r_idle (view r) \<Longrightarrow> r_linear (view r) \<Longrightarrow>
   r_get_room (view r) = length (r_data (view r))"
  using r_wfD [of r] by (auto simp: r_get_room_def r_idle_def r_linear_def)

lemma put_room_linear:
  "ok r \<Longrightarrow> r_pos (view r) = 0 \<Longrightarrow>
   r_put_room (view r) = r_cap (view r) - (length (r_data (view r)) + length (r_held (view r)))"
  using r_wfD [of r]
  by (cases "length (r_data (view r)) + length (r_held (view r)) = r_cap (view r)")
     (auto simp: r_put_room_def Let_def)

text \<open>
  A writer that claims room, stores at most that much through the pointer and finishes with what it
  stored appends it, also while a reader has a claim open.
\<close>

lemma put_round:
  assumes "ok r" "r_held (view r) = []" "ds = r_data (view r)" "cap = r_cap (view r)"
    "ptr = (r_pos (view r) + length ds) mod cap" "k = min n (min (cap - length ds) (cap - ptr))"
  shows "rb_put_claim P n r = (Ok (k, ptr), snd (p_put_claim P r n))"
    "length xs \<le> k \<Longrightarrow> \<exists>r2 r3. rb_store P ptr xs (snd (p_put_claim P r n)) = (Ok (), r2)
       \<and> rb_put_finish P (length xs) r2 = (Ok 0, r3) \<and> ok r3 \<and> view r3 = (view r)\<lparr>r_data := ds @ xs\<rparr>"
proof -
  let ?r1 = "snd (p_put_claim P r n)"
  have room: "min n (r_put_room (view r)) = k"
    using assms(2-6) by (simp add: r_put_room_def Let_def)
  show "rb_put_claim P n r = (Ok (k, ptr), ?r1)"
    using put_claim_grant [OF assms(1), of n] room assms(2-5) by (simp add: rb_put_claim_def)
  obtain junk where junk: "length junk = k" "view ?r1 = (view r)\<lparr>r_held := junk\<rparr>"
    using put_claim_view [OF assms(1), of n] room assms(2) by auto
  have ok: "ok ?r1" using assms(1) by simp
  assume xs: "length xs \<le> k"
  have "k \<le> cap - ptr" unfolding assms(6) by (simp add: min_le_iff_disj)
  moreover have "ptr < cap" using r_wfD(1) [OF assms(1)] assms(4,5) by simp
  ultimately have ptr: "ptr + length xs \<le> cap" using xs by simp
  let ?r2 = "p_store P ?r1 ptr xs"
  have st: "ok ?r2" "view ?r2 = r_write (view ?r1) (length ds) xs"
    using store [OF ok, of "length ds" xs ptr] junk xs ptr assms(3-5) by simp_all
  then have v2: "view ?r2 = (view r)\<lparr>r_held := xs @ drop (length xs) junk\<rparr>"
    using junk xs assms(3) by (simp add: r_write_def Let_def)
  show "\<exists>r2 r3. rb_store P ptr xs ?r1 = (Ok (), r2)
       \<and> rb_put_finish P (length xs) r2 = (Ok 0, r3) \<and> ok r3 \<and> view r3 = (view r)\<lparr>r_data := ds @ xs\<rparr>"
    using put_finish [OF st(1), of "length xs"] v2 assms(2) ok_ops(4) [OF st(1), of "length xs"] assms(3,4)
    by (auto simp: rb_put_finish_def rb_store_def)
qed

text \<open>A reader that claims bytes, reads them through the pointer and finishes with what it took.\<close>

lemma get_round:
  assumes "ok r" "r_got (view r) = 0" "ds = r_data (view r)" "cap = r_cap (view r)"
    "n = min m (min (length ds) (cap - r_pos (view r)))"
  shows "rb_get_claim P m r = (Ok (n, r_pos (view r)), snd (p_get_claim P r m))"
    "ok (snd (p_get_claim P r m))" "view (snd (p_get_claim P r m)) = (view r)\<lparr>r_got := n\<rparr>"
    "k \<le> n \<Longrightarrow> rb_load P (r_pos (view r)) k (snd (p_get_claim P r m)) = (Ok (take k ds), snd (p_get_claim P r m))"
    "k \<le> n \<Longrightarrow> \<exists>r2. rb_get_finish P k (snd (p_get_claim P r m)) = (Ok 0, r2) \<and> ok r2
       \<and> view r2 = (view r)\<lparr>r_data := drop k ds, r_pos := (r_pos (view r) + k) mod cap\<rparr>"
proof -
  let ?v = "view r" and ?r1 = "snd (p_get_claim P r m)"
  have pos: "r_pos ?v < r_cap ?v" using r_wfD(2) [OF assms(1)] .
  have room: "min m (r_get_room ?v) = n" using assms(2-5) pos by (simp add: r_get_room_def)
  show "rb_get_claim P m r = (Ok (n, r_pos ?v), ?r1)"
    using get_claim_grant [OF assms(1), of m] room assms(2) pos by (simp add: rb_get_claim_def)
  show r1: "ok ?r1" "view ?r1 = ?v\<lparr>r_got := n\<rparr>"
    using assms(1) get_claim_view [OF assms(1), of m] room assms(2) by auto
  have "n \<le> length ds" "n \<le> cap - r_pos ?v"
    unfolding assms(5) by (simp_all add: min_le_iff_disj)
  then have n: "n \<le> length ds" "r_pos ?v + n \<le> r_cap ?v"
    using pos assms(4) by simp_all
  assume k: "k \<le> n"
  have "fst (p_get_finish P ?r1 k) = 0" "view (snd (p_get_finish P ?r1 k)) =
      ?v\<lparr>r_data := drop k ds, r_pos := (r_pos ?v + k) mod r_cap ?v, r_got := 0\<rparr>"
    using get_finish [OF r1(1), of k] r1(2) k assms(3) by simp_all
  then show "\<exists>r2. rb_get_finish P k ?r1 = (Ok 0, r2) \<and> ok r2
       \<and> view r2 = ?v\<lparr>r_data := drop k ds, r_pos := (r_pos ?v + k) mod cap\<rparr>"
    using ok_ops(6) [OF r1(1), of k] assms(2,4)
    by (intro exI [of _ "snd (p_get_finish P ?r1 k)"]) (simp add: rb_get_finish_def)
  have "0 + k \<le> length (r_data (view ?r1) @ r_held (view ?r1))" "r_pos ?v + k \<le> r_cap (view ?r1)"
    "r_pos ?v = (r_pos (view ?r1) + 0) mod r_cap (view ?r1)"
    using n k r1(2) assms(3,4) pos by simp_all
  from load [OF r1(1) this(1,3,2)] show "rb_load P (r_pos ?v) k ?r1 = (Ok (take k ds), ?r1)"
    using r1(2) assms(3) k n by (simp add: rb_load_def)
qed

end

end
