(* ===== verification/Ring_Array.thy ===== *)
theory Ring_Array
  imports Ring_Buffer
begin

text \<open>
  A circular array that satisfies the laws of the ring buffer interface: positions are counted
  modulo the length of the backing array.  It shows that the laws can be met, and it is the
  platform on which the witnesses run.
\<close>

section \<open>Segments of a circular array\<close>

definition seg :: "byte list \<Rightarrow> nat \<Rightarrow> nat \<Rightarrow> byte list" where
  "seg m p n = map (\<lambda>k. m ! ((p + k) mod length m)) [0..<n]"

fun wr :: "byte list \<Rightarrow> nat \<Rightarrow> byte list \<Rightarrow> byte list" where
  "wr m p [] = m"
| "wr m p (b # bs) = wr (m[p mod length m := b]) (Suc p) bs"

lemma length_seg [simp]: "length (seg m p n) = n"
  by (simp add: seg_def)

lemma seg_0 [simp]: "seg m p 0 = []"
  by (simp add: seg_def)

lemma length_wr [simp]: "length (wr m p bs) = length m"
  by (induction m p bs rule: wr.induct) simp_all

lemma seg_append: "seg m p (a + b) = seg m p a @ seg m (p + a) b"
  by (rule nth_equalityI) (auto simp: seg_def nth_append add.assoc)

lemma take_seg: "take n (seg m p k) = seg m p (min n k)"
  by (rule nth_equalityI) (auto simp: seg_def)

lemma drop_seg: "drop n (seg m p k) = seg m (p + n) (k - n)"
  by (rule nth_equalityI) (auto simp: seg_def add.assoc)

lemma seg_mod: "seg m (p mod length m) n = seg m p n"
  by (simp add: seg_def mod_add_left_eq)

lemma wr_cong: "p mod length m = q mod length m \<Longrightarrow> wr m p bs = wr m q bs"
proof (induction bs arbitrary: m p q)
  case (Cons b bs)
  have "Suc p mod length m = Suc q mod length m"
    using Cons.prems mod_Suc_eq [of p "length m"] mod_Suc_eq [of q "length m"] by simp
  then have "wr (m[q mod length m := b]) (Suc p) bs = wr (m[q mod length m := b]) (Suc q) bs"
    by (intro Cons.IH) simp
  then show ?case
    by (simp add: Cons.prems)
qed simp

lemma mod_shift_neq:
  assumes "0 < d" "d < (L :: nat)"
  shows "(p + d) mod L \<noteq> p mod L"
proof
  assume "(p + d) mod L = p mod L"
  then have "L dvd d"
    using mod_eq_dvd_iff_nat [of p "p + d" L] by simp
  with assms show False by (auto dest: dvd_imp_le)
qed

lemma nth_wr:
  "length bs \<le> length m \<Longrightarrow> j < length m \<Longrightarrow>
   wr m p bs ! ((p + j) mod length m) =
     (if j < length bs then bs ! j else m ! ((p + j) mod length m))"
proof (induction bs arbitrary: m p j)
  case (Cons b bs)
  let ?L = "length m" and ?m = "m[p mod length m := b]"
  have L: "0 < ?L" using Cons.prems by auto
  show ?case
  proof (cases j)
    case 0
    have "Suc p + (?L - 1) = p + ?L" using L by simp
    then have idx: "(Suc p + (?L - 1)) mod ?L = p mod ?L" by (simp only: mod_add_self2)
    have nb: "\<not> ?L - 1 < length bs" using Cons.prems by (cases "length m") auto
    have "length bs \<le> length ?m" "?L - 1 < length ?m" using Cons.prems L by simp_all
    from Cons.IH [OF this, of "Suc p"]
    have "wr ?m (Suc p) bs ! (p mod ?L) = ?m ! (p mod ?L)"
      unfolding if_not_P [OF nb] length_list_update idx .
    then show ?thesis using 0 L by simp
  next
    case (Suc i)
    have "(p + Suc i) mod ?L \<noteq> p mod ?L"
      using Suc Cons.prems by (intro mod_shift_neq) auto
    then show ?thesis
      using Cons.IH [of ?m i "Suc p"] Cons.prems Suc by simp
  qed
qed simp

lemma seg_wr:
  assumes "a + length bs \<le> n" "n \<le> length m"
  shows "seg (wr m (p + a) bs) p n = take a (seg m p n) @ bs @ drop (a + length bs) (seg m p n)"
proof (rule nth_equalityI)
  show "length (seg (wr m (p + a) bs) p n) =
      length (take a (seg m p n) @ bs @ drop (a + length bs) (seg m p n))"
    using assms by simp
next
  fix k assume "k < length (seg (wr m (p + a) bs) p n)"
  then have k: "k < n" by simp
  let ?L = "length m"
  define j where "j = (if a \<le> k then k - a else k + (?L - a))"
  have "p + a + j = p + k + (if a \<le> k then 0 else ?L)"
    using k assms by (auto simp: j_def)
  then have "(p + a + j) mod ?L = (p + k) mod ?L"
    by (cases "a \<le> k") (simp_all only: add.assoc [symmetric] if_True if_False mod_add_self2 add_0_right)
  then have j: "j < ?L" "(p + a + j) mod ?L = (p + k) mod ?L"
    using k assms by (auto simp: j_def)
  have "wr m (p + a) bs ! ((p + k) mod ?L) =
      (if j < length bs then bs ! j else m ! ((p + k) mod ?L))"
    using nth_wr [of bs m j "p + a"] j assms by simp
  then show "seg (wr m (p + a) bs) p n ! k =
      (take a (seg m p n) @ bs @ drop (a + length bs) (seg m p n)) ! k"
    using k assms by (auto simp: seg_def nth_append j_def)
qed

section \<open>The ring buffer\<close>

record aring =
  a_mem :: "byte list"
  a_pos :: nat
  a_len :: nat
  a_got :: nat
  a_held :: nat

definition a_put :: "aring \<Rightarrow> byte list \<Rightarrow> nat \<times> aring" where
  "a_put r bs =
    (let k = min (length bs) (length (a_mem r) - a_len r - a_held r)
     in (k, r\<lparr>a_mem := wr (a_mem r) (a_pos r + a_len r) (take k bs), a_len := a_len r + k\<rparr>))"

definition a_get :: "aring \<Rightarrow> nat \<Rightarrow> byte list \<times> aring" where
  "a_get r n =
    (let k = min n (a_len r - a_got r)
     in (seg (a_mem r) (a_pos r) k,
         r\<lparr>a_pos := (a_pos r + k) mod length (a_mem r), a_len := a_len r - k\<rparr>))"

definition a_put_claim :: "aring \<Rightarrow> nat \<Rightarrow> (nat \<times> nat) \<times> aring" where
  "a_put_claim r n =
    (let used = a_len r + a_held r; L = length (a_mem r);
         k = min n (min (L - used) (L - (a_pos r + used) mod L))
     in ((k, (a_pos r + used) mod L), r\<lparr>a_held := a_held r + k\<rparr>))"

definition a_put_finish :: "aring \<Rightarrow> nat \<Rightarrow> int \<times> aring" where
  "a_put_finish r n =
    (if n \<le> a_held r then (0, r\<lparr>a_len := a_len r + n, a_held := 0\<rparr>) else (-22, r))"

definition a_get_claim :: "aring \<Rightarrow> nat \<Rightarrow> (nat \<times> nat) \<times> aring" where
  "a_get_claim r n =
    (let L = length (a_mem r); p = (a_pos r + a_got r) mod L;
         k = min n (min (a_len r - a_got r) (L - p))
     in ((k, p), r\<lparr>a_got := a_got r + k\<rparr>))"

definition a_get_finish :: "aring \<Rightarrow> nat \<Rightarrow> int \<times> aring" where
  "a_get_finish r n =
    (if n \<le> a_got r
     then (0, r\<lparr>a_pos := (a_pos r + n) mod length (a_mem r), a_len := a_len r - n, a_got := 0\<rparr>)
     else (-22, r))"

definition a_store :: "aring \<Rightarrow> nat \<Rightarrow> byte list \<Rightarrow> aring" where
  "a_store r ptr bs = r\<lparr>a_mem := wr (a_mem r) ptr bs\<rparr>"

definition a_reset :: "aring \<Rightarrow> aring" where
  "a_reset r = r\<lparr>a_pos := 0, a_len := 0, a_got := 0, a_held := 0\<rparr>"

definition array_platform :: "(hist \<Rightarrow> hw_call \<Rightarrow> answer) \<Rightarrow> nat \<Rightarrow> aring platform" where
  "array_platform E fuel = \<lparr>p_put = a_put, p_get = a_get, p_put_claim = a_put_claim,
     p_put_finish = a_put_finish, p_get_claim = a_get_claim, p_get_finish = a_get_finish,
     p_load = (\<lambda>r ptr n. seg (a_mem r) ptr n), p_store = a_store, p_reset = a_reset,
     p_size = (\<lambda>r. a_len r - a_got r), p_space = (\<lambda>r. length (a_mem r) - a_len r - a_held r),
     p_hw = E, p_fuel = fuel\<rparr>"

definition a_view :: "aring \<Rightarrow> rview" where
  "a_view r = \<lparr>r_cap = length (a_mem r), r_pos = a_pos r, r_data = seg (a_mem r) (a_pos r) (a_len r),
     r_got = a_got r, r_held = seg (a_mem r) (a_pos r + a_len r) (a_held r)\<rparr>"

definition a_ok :: "aring \<Rightarrow> bool" where
  "a_ok r \<longleftrightarrow> a_pos r < length (a_mem r) \<and> a_got r \<le> a_len r
     \<and> a_len r + a_held r \<le> length (a_mem r)"

definition a_new :: "nat \<Rightarrow> aring" where
  "a_new n = \<lparr>a_mem = replicate n 0, a_pos = 0, a_len = 0, a_got = 0, a_held = 0\<rparr>"

lemma a_view_sel [simp]:
  "r_cap (a_view r) = length (a_mem r)" "r_pos (a_view r) = a_pos r"
  "r_data (a_view r) = seg (a_mem r) (a_pos r) (a_len r)" "r_got (a_view r) = a_got r"
  "r_held (a_view r) = seg (a_mem r) (a_pos r + a_len r) (a_held r)"
  by (simp_all add: a_view_def)

lemma a_all: "seg (a_mem r) (a_pos r) (a_len r) @ seg (a_mem r) (a_pos r + a_len r) (a_held r)
    = seg (a_mem r) (a_pos r) (a_len r + a_held r)"
  by (simp add: seg_append)

lemma a_store_view:
  assumes "a_ok r" "i + length bs \<le> a_len r + a_held r" "ptr = (a_pos r + i) mod length (a_mem r)"
  shows "a_ok (a_store r ptr bs) \<and> a_view (a_store r ptr bs) = r_write (a_view r) i bs"
proof -
  let ?m = "a_mem r" and ?p = "a_pos r" and ?n = "a_len r + a_held r"
  have wr: "wr ?m ptr bs = wr ?m (?p + i) bs"
    using assms(3) by (intro wr_cong) simp
  have n: "?n \<le> length ?m" using assms(1) by (simp add: a_ok_def)
  let ?new = "take i (seg ?m ?p ?n) @ bs @ drop (i + length bs) (seg ?m ?p ?n)"
  have new: "seg (wr ?m ptr bs) ?p ?n = ?new"
    using seg_wr [OF assms(2) n] wr by simp
  have "seg (wr ?m ptr bs) ?p (a_len r) = take (a_len r) (seg (wr ?m ptr bs) ?p ?n)"
    by (simp add: take_seg)
  then have t: "seg (wr ?m ptr bs) ?p (a_len r) = take (a_len r) ?new"
    by (simp only: new)
  have "seg (wr ?m ptr bs) (?p + a_len r) (a_held r) = drop (a_len r) (seg (wr ?m ptr bs) ?p ?n)"
    by (simp add: drop_seg)
  then have d: "seg (wr ?m ptr bs) (?p + a_len r) (a_held r) = drop (a_len r) ?new"
    by (simp only: new)
  have "r_write (a_view r) i bs =
      (a_view r)\<lparr>r_data := take (a_len r) ?new, r_held := drop (a_len r) ?new\<rparr>"
    by (simp only: r_write_def Let_def a_view_sel a_all length_seg)
  then have "a_view (a_store r ptr bs) = r_write (a_view r) i bs"
    by (simp only: t [symmetric] d [symmetric]) (simp add: a_store_def a_view_def)
  then show ?thesis
    using assms(1) by (simp add: a_store_def a_ok_def)
qed

lemma a_put_view:
  assumes "a_len r + length bs \<le> length (a_mem r)"
  shows "seg (wr (a_mem r) (a_pos r + a_len r) bs) (a_pos r) (a_len r + length bs)
    = seg (a_mem r) (a_pos r) (a_len r) @ bs"
  using seg_wr [of "a_len r" bs "a_len r + length bs" "a_mem r" "a_pos r"] assms
  by (simp add: take_seg drop_seg)

lemma a_put_full:
  assumes "a_ok r" "a_held r = 0"
  shows "a_view (snd (a_put r bs)) =
    (a_view r)\<lparr>r_data := r_data (a_view r) @ take (length (a_mem r) - a_len r) bs\<rparr>"
proof -
  define bs' where "bs' = take (length (a_mem r) - a_len r) bs"
  have k: "min (length bs) (length (a_mem r) - a_len r) = length bs'"
    by (simp add: bs'_def)
  have t: "take (length bs') bs = bs'"
    by (cases "length bs \<le> length (a_mem r) - a_len r") (auto simp: bs'_def min_def)
  have "a_len r + length bs' \<le> length (a_mem r)"
    using assms by (auto simp: a_ok_def bs'_def min_def)
  note v = a_put_view [OF this]
  have "snd (a_put r bs) = r\<lparr>a_mem := wr (a_mem r) (a_pos r + a_len r) bs', a_len := a_len r + length bs'\<rparr>"
    using assms(2) by (simp add: a_put_def Let_def k t)
  then show ?thesis
    using assms(2) v by (simp add: a_view_def bs'_def [symmetric])
qed

lemma a_seg_shift: "seg m ((p + n) mod length m) k = seg m (p + n) k"
    "seg m ((p + n) mod length m + j) k = seg m (p + n + j) k"
  by (simp_all add: seg_def add.assoc mod_add_left_eq)

lemma a_get_full:
  assumes "a_got r = 0"
  shows "a_view (snd (a_get r n)) = (a_view r)\<lparr>r_data := drop n (seg (a_mem r) (a_pos r) (a_len r)),
    r_pos := (a_pos r + min n (a_len r)) mod length (a_mem r)\<rparr>"
proof (cases "n \<le> a_len r")
  case True
  have "seg (a_mem r) ((a_pos r + n) mod length (a_mem r) + (a_len r - n)) (a_held r)
      = seg (a_mem r) (a_pos r + a_len r) (a_held r)"
    using True by (simp only: a_seg_shift add.assoc le_add_diff_inverse)
  then show ?thesis
    using True assms by (simp add: a_get_def a_view_def Let_def drop_seg a_seg_shift)
next
  case False
  then show ?thesis
    using assms by (simp add: a_get_def a_view_def Let_def drop_seg a_seg_shift)
qed

interpretation arr: ring_buffer "array_platform E fuel" a_view a_ok for E fuel
proof unfold_locales
  fix r :: aring and bs n i ptr
  assume ok: "a_ok r"
  have pos: "0 < length (a_mem r)" using ok by (auto simp: a_ok_def)
  show "r_wf (a_view r)"
    using ok by (auto simp: r_wf_def a_ok_def)
  show "a_ok (snd (p_put (array_platform E fuel) r bs))"
    using ok by (auto simp: array_platform_def a_put_def a_ok_def Let_def)
  show "a_ok (snd (p_get (array_platform E fuel) r n))"
    using ok pos by (auto simp: array_platform_def a_get_def a_ok_def Let_def)
  show "a_ok (snd (p_put_claim (array_platform E fuel) r n))"
    using ok by (auto simp: array_platform_def a_put_claim_def a_ok_def Let_def)
  show "a_ok (snd (p_put_finish (array_platform E fuel) r n))"
    using ok by (auto simp: array_platform_def a_put_finish_def a_ok_def)
  show "a_ok (snd (p_get_claim (array_platform E fuel) r n))"
    using ok by (auto simp: array_platform_def a_get_claim_def a_ok_def Let_def)
  show "a_ok (snd (p_get_finish (array_platform E fuel) r n))"
    using ok pos by (auto simp: array_platform_def a_get_finish_def a_ok_def)
  show "a_ok (p_reset (array_platform E fuel) r)"
    using ok by (auto simp: array_platform_def a_reset_def a_ok_def)
  show "\<exists>junk. length junk = min n (r_put_room (a_view r)) \<and>
      a_view (snd (p_put_claim (array_platform E fuel) r n))
        = (a_view r)\<lparr>r_held := r_held (a_view r) @ junk\<rparr>"
    by (rule exI [of _ "seg (a_mem r) (a_pos r + a_len r + a_held r) (min n (r_put_room (a_view r)))"])
       (simp add: array_platform_def a_put_claim_def a_view_def Let_def r_put_room_def seg_append add.assoc)
next
  fix r :: aring and bs n
  assume ok: "a_ok r" and held: "r_held (a_view r) = []"
  then have h: "a_held r = 0" by (metis a_view_sel(5) length_seg list.size(3))
  show "fst (p_put (array_platform E fuel) r bs)
      = min (length bs) (r_cap (a_view r) - length (r_data (a_view r)))"
    using h by (simp add: array_platform_def a_put_def Let_def)
  show "a_view (snd (p_put (array_platform E fuel) r bs)) = (a_view r)\<lparr>r_data :=
      r_data (a_view r) @ take (r_cap (a_view r) - length (r_data (a_view r))) bs\<rparr>"
    using a_put_full [OF ok h] by (simp add: array_platform_def)
  show "p_space (array_platform E fuel) r = r_cap (a_view r) - length (r_data (a_view r))"
    using h by (simp add: array_platform_def)
next
  fix r :: aring and n
  assume ok: "a_ok r" and got: "r_got (a_view r) = 0"
  show "fst (p_get (array_platform E fuel) r n) = take n (r_data (a_view r))"
    using got by (simp add: array_platform_def a_get_def Let_def take_seg)
  show "a_view (snd (p_get (array_platform E fuel) r n)) = (a_view r)\<lparr>r_data := drop n (r_data (a_view r)),
      r_pos := (r_pos (a_view r) + min n (length (r_data (a_view r)))) mod r_cap (a_view r)\<rparr>"
    using got a_get_full [of r n] by (simp add: array_platform_def)
next
  fix r :: aring and n
  assume ok: "a_ok r"
  show "fst (p_put_claim (array_platform E fuel) r n) = (min n (r_put_room (a_view r)),
      (r_pos (a_view r) + length (r_data (a_view r)) + length (r_held (a_view r))) mod r_cap (a_view r))"
    by (simp add: array_platform_def a_put_claim_def r_put_room_def Let_def add.assoc)
  show "fst (p_get_claim (array_platform E fuel) r n) =
      (min n (r_get_room (a_view r)), (r_pos (a_view r) + r_got (a_view r)) mod r_cap (a_view r))"
    by (simp add: array_platform_def a_get_claim_def r_get_room_def Let_def)
  show "a_view (snd (p_get_claim (array_platform E fuel) r n)) =
      (a_view r)\<lparr>r_got := r_got (a_view r) + min n (r_get_room (a_view r))\<rparr>"
    by (simp add: array_platform_def a_get_claim_def r_get_room_def Let_def a_view_def)
  show "a_view (p_reset (array_platform E fuel) r) =
      \<lparr>r_cap = r_cap (a_view r), r_pos = 0, r_data = [], r_got = 0, r_held = []\<rparr>"
    by (simp add: array_platform_def a_reset_def a_view_def)
next
  fix r :: aring and n
  assume ok: "a_ok r" and n: "n \<le> length (r_held (a_view r))"
  show "fst (p_put_finish (array_platform E fuel) r n) = 0 \<and>
      a_view (snd (p_put_finish (array_platform E fuel) r n)) =
        (a_view r)\<lparr>r_data := r_data (a_view r) @ take n (r_held (a_view r)), r_held := []\<rparr>"
    using n by (simp add: array_platform_def a_put_finish_def a_view_def seg_append take_seg min_def)
next
  fix r :: aring and n
  assume ok: "a_ok r" and n: "length (r_held (a_view r)) < n"
  show "fst (p_put_finish (array_platform E fuel) r n) < 0 \<and>
      a_view (snd (p_put_finish (array_platform E fuel) r n)) = a_view r"
    using n by (simp add: array_platform_def a_put_finish_def)
next
  fix r :: aring and n
  assume ok: "a_ok r" and n: "n \<le> r_got (a_view r)"
  have "n \<le> a_len r" using ok n by (simp add: a_ok_def)
  then have "seg (a_mem r) ((a_pos r + n) mod length (a_mem r) + (a_len r - n)) (a_held r)
      = seg (a_mem r) (a_pos r + a_len r) (a_held r)"
    by (simp only: a_seg_shift add.assoc le_add_diff_inverse)
  then show "fst (p_get_finish (array_platform E fuel) r n) = 0 \<and>
      a_view (snd (p_get_finish (array_platform E fuel) r n)) =
        (a_view r)\<lparr>r_data := drop n (r_data (a_view r)),
           r_pos := (r_pos (a_view r) + n) mod r_cap (a_view r), r_got := 0\<rparr>"
    using n \<open>n \<le> a_len r\<close> a_seg_shift [of "a_mem r" "a_pos r" n]
    by (simp add: array_platform_def a_get_finish_def a_view_def drop_seg)
next
  fix r :: aring and n
  assume ok: "a_ok r" and n: "r_got (a_view r) < n"
  show "fst (p_get_finish (array_platform E fuel) r n) < 0 \<and>
      a_view (snd (p_get_finish (array_platform E fuel) r n)) = a_view r"
    using n by (simp add: array_platform_def a_get_finish_def)
next
  fix r :: aring and i n ptr
  assume ok: "a_ok r" and n: "i + n \<le> length (r_data (a_view r) @ r_held (a_view r))"
    and ptr: "ptr = (r_pos (a_view r) + i) mod r_cap (a_view r)"
  show "p_load (array_platform E fuel) r ptr n = take n (drop i (r_data (a_view r) @ r_held (a_view r)))"
    using n by (auto simp: array_platform_def ptr a_all seg_mod drop_seg take_seg min_def)
next
  fix r :: aring and i :: nat and bs :: "byte list" and ptr :: nat
  assume ok: "a_ok r" and n: "i + length bs \<le> length (r_data (a_view r) @ r_held (a_view r))"
    and ptr: "ptr = (r_pos (a_view r) + i) mod r_cap (a_view r)"
  show "a_ok (p_store (array_platform E fuel) r ptr bs) \<and>
      a_view (p_store (array_platform E fuel) r ptr bs) = r_write (a_view r) i bs"
    using a_store_view [OF ok, of i bs ptr] n ptr by (simp add: array_platform_def)
next
  fix r :: aring
  assume ok: "a_ok r" and got: "r_got (a_view r) = 0"
  show "p_size (array_platform E fuel) r = length (r_data (a_view r))"
    using got by (simp add: array_platform_def)
qed

lemma a_new_ok [simp]: "0 < n \<Longrightarrow> a_ok (a_new n)"
  by (simp add: a_ok_def a_new_def)

lemma a_new_view [simp]:
  "a_view (a_new n) = \<lparr>r_cap = n, r_pos = 0, r_data = [], r_got = 0, r_held = []\<rparr>"
  by (simp add: a_view_def a_new_def)

end
