(* ===== verification/Util.thy ===== *)
theory Util
  imports Ring_Array
begin

text \<open>
  The helpers of \<open>util.h\<close>: the busy wait every clock edge is timed with, and the ring buffer
  helpers every handler decodes its request and encodes its response with.

  Little-endian loads and stores (\<open>sys_get_le16\<close>, \<open>sys_put_le32\<close>, ...) are functions of byte
  lists here; the lemmas show that they are inverse to each other.  The busy wait is a loop on
  the stream of readings of the cycle counter, which is a parameter.
\<close>

section \<open>Busy waiting\<close>

definition nsec_per_sec :: "64 word" where
  "nsec_per_sec = 1000000000"

text \<open>The poll loop: the result is the index of the reading that ends it.\<close>

partial_function (option) busy_wait_loop :: "(nat \<Rightarrow> u32) \<Rightarrow> u32 \<Rightarrow> u32 \<Rightarrow> nat \<Rightarrow> nat option" where
  "busy_wait_loop cycle start wait k =
     (let current = cycle k
      in if wait \<le> current - start then Some k else busy_wait_loop cycle start wait (Suc k))"

definition wait_cycles :: "u32 \<Rightarrow> u32 \<Rightarrow> u32" where
  "wait_cycles hz nanos = ucast ((ucast nanos * ucast hz :: 64 word) div nsec_per_sec)"

definition busy_wait_nanos :: "(nat \<Rightarrow> u32) \<Rightarrow> u32 \<Rightarrow> u32 \<Rightarrow> nat option" where
  "busy_wait_nanos cycle hz nanos =
     (let start = cycle 0 in busy_wait_loop cycle start (wait_cycles hz nanos) 1)"

text \<open>
  The number of cycles is exact: the product of two 32-bit values fits in 64 bits, and up to a
  clock of 1 GHz the quotient fits in 32 bits.
\<close>

lemma unat_mult_64:
  "unat (ucast (x :: u32) * ucast (y :: u32) :: 64 word) = unat x * unat y"
proof -
  have "unat x * unat y < 2 ^ 32 * 2 ^ 32"
    using unsigned_less [of x] unsigned_less [of y] by (intro mult_strict_mono) simp_all
  moreover have "unat (ucast x :: 64 word) = unat x" for x :: u32
    by (simp add: unsigned_ucast_eq take_bit_nat_eq_self_iff) (rule less_trans [OF unsigned_less], simp)
  ultimately show ?thesis
    by (simp add: unat_word_ariths mod_less)
qed

lemma unat_wait_cycles:
  "unat (wait_cycles hz nanos) = unat nanos * unat hz div 10 ^ 9 mod 2 ^ 32"
  by (simp add: wait_cycles_def nsec_per_sec_def unsigned_ucast_eq unat_div unat_mult_64
    take_bit_eq_mod)

lemma unat_wait_cycles_exact:
  assumes "unat hz \<le> 10 ^ 9"
  shows "unat (wait_cycles hz nanos) = unat nanos * unat hz div 10 ^ 9"
proof -
  have "unat nanos * unat hz div 10 ^ 9 \<le> unat nanos * 10 ^ 9 div 10 ^ 9"
    using assms by (intro div_le_mono mult_le_mono2)
  also have "\<dots> = unat nanos" by simp
  also have "\<dots> < 2 ^ 32" using unsigned_less [of nanos] by simp
  finally show ?thesis
    by (simp add: unat_wait_cycles)
qed

lemma busy_wait_loop_first:
  assumes "\<And>i. k \<le> i \<Longrightarrow> i < n \<Longrightarrow> \<not> wait \<le> cycle i - start" "wait \<le> cycle n - start" "k \<le> n"
  shows "busy_wait_loop cycle start wait k = Some n"
  using assms
proof (induction "n - k" arbitrary: k)
  case 0
  then show ?case by (subst busy_wait_loop.simps) simp
next
  case (Suc d)
  then have "busy_wait_loop cycle start wait (Suc k) = Some n"
    by (intro Suc.hyps(1)) auto
  with Suc show ?case by (subst busy_wait_loop.simps) simp
qed

text \<open>
  A 32-bit counter that wraps around: \<open>time i\<close> is the true number of cycles at reading \<open>i\<close>.
  The unsigned difference is the elapsed time as long as less than \<open>2 ^ 32\<close> cycles went by.
\<close>

lemma unat_cycle_diff:
  assumes "t0 \<le> t1" "t1 - t0 < 2 ^ 32"
  shows "unat (of_nat t1 - of_nat t0 :: u32) = t1 - t0"
proof -
  have "(of_nat t1 - of_nat t0 :: u32) = of_nat (t1 - t0)"
    using assms(1) by (simp add: of_nat_diff)
  then show ?thesis using assms(2) by (simp add: unat_of_nat)
qed

section \<open>Little-endian integers\<close>

definition sys_get_le16 :: "byte list \<Rightarrow> u16" where
  "sys_get_le16 bs = ucast (bs ! 0) OR push_bit 8 (ucast (bs ! 1))"

definition sys_get_le32 :: "byte list \<Rightarrow> u32" where
  "sys_get_le32 bs = ucast (bs ! 0) OR push_bit 8 (ucast (bs ! 1))
     OR push_bit 16 (ucast (bs ! 2)) OR push_bit 24 (ucast (bs ! 3))"

definition sys_put_le16 :: "u16 \<Rightarrow> byte list" where
  "sys_put_le16 w = [ucast w, ucast (drop_bit 8 w)]"

definition sys_put_le32 :: "u32 \<Rightarrow> byte list" where
  "sys_put_le32 w = [ucast w, ucast (drop_bit 8 w), ucast (drop_bit 16 w), ucast (drop_bit 24 w)]"

lemma length_sys_put_le [simp]: "length (sys_put_le16 v) = 2" "length (sys_put_le32 w) = 4"
  by (simp_all add: sys_put_le16_def sys_put_le32_def)

lemma le16_of_put [simp]: "sys_get_le16 (sys_put_le16 w) = w"
  by (rule bit_word_eqI) (auto simp: sys_get_le16_def sys_put_le16_def bit_simps)

lemma le32_of_put [simp]: "sys_get_le32 (sys_put_le32 w) = w"
proof (rule bit_word_eqI)
  fix n assume "n < LENGTH(32)"
  then show "bit (sys_get_le32 (sys_put_le32 w)) n = bit w n"
    by (cases "n < 16"; cases "n < 8"; cases "n < 24")
       (auto simp: sys_get_le32_def sys_put_le32_def bit_simps)
qed

lemma length2E:
  assumes "length xs = 2" obtains a b where "xs = [a, b]"
  using assms by (auto simp: numeral_eq_Suc length_Suc_conv)

lemma length4E:
  assumes "length xs = 4" obtains a b c d where "xs = [a, b, c, d]"
  using assms by (auto simp: numeral_eq_Suc length_Suc_conv)

lemma put_of_le16 [simp]: "length bs = 2 \<Longrightarrow> sys_put_le16 (sys_get_le16 bs) = bs"
  by (erule length2E, auto simp: sys_get_le16_def sys_put_le16_def bit_simps
    byte_bit_high intro!: bit_word_eqI)

lemma put_of_le32 [simp]: "length bs = 4 \<Longrightarrow> sys_put_le32 (sys_get_le32 bs) = bs"
  by (erule length4E, auto simp: sys_get_le32_def sys_put_le32_def bit_simps
    byte_bit_high intro!: bit_word_eqI)

section \<open>Ring buffer helpers\<close>

text \<open>The result of \<open>ring_buf_get_finish\<close> and \<open>ring_buf_put_finish\<close>: zero, or a negative code.\<close>

definition check_finish :: "int \<Rightarrow> 'a \<Rightarrow> ('s, 'a) cmd" where
  "check_finish c a = (if c < 0 then fail (DriverError c) else ret a)"

definition ring_buf_get_skip :: "'rb platform \<Rightarrow> nat \<Rightarrow> ('rb, unit) cmd" where
  "ring_buf_get_skip P len = bindC (rb_get_claim P len) (\<lambda>(n, ptr).
     if n \<noteq> len then fail EMSGSIZE
     else bindC (rb_get_finish P len) (\<lambda>c. check_finish c ()))"

definition ring_buf_get_le16 :: "'rb platform \<Rightarrow> ('rb, u16) cmd" where
  "ring_buf_get_le16 P = bindC (rb_get_claim P 2) (\<lambda>(n, ptr).
     if n \<noteq> 2 then fail EMSGSIZE
     else bindC (rb_load P ptr 2) (\<lambda>bs.
       bindC (rb_get_finish P 2) (\<lambda>c. check_finish c (sys_get_le16 bs))))"

definition ring_buf_get_le32 :: "'rb platform \<Rightarrow> ('rb, u32) cmd" where
  "ring_buf_get_le32 P = bindC (rb_get_claim P 4) (\<lambda>(n, ptr).
     if n \<noteq> 4 then fail EMSGSIZE
     else bindC (rb_load P ptr 4) (\<lambda>bs.
       bindC (rb_get_finish P 4) (\<lambda>c. check_finish c (sys_get_le32 bs))))"

definition ring_buf_put_le32 :: "'rb platform \<Rightarrow> u32 \<Rightarrow> ('rb, unit) cmd" where
  "ring_buf_put_le32 P value = bindC (rb_put_claim P 4) (\<lambda>(n, ptr).
     if n \<noteq> 4 then fail ENOBUFS
     else bindC (rb_store P ptr (sys_put_le32 value)) (\<lambda>_.
       bindC (rb_put_finish P 4) (\<lambda>c. check_finish c ())))"

text \<open>The helpers as the handlers call them, on the request and the response buffer.\<close>

definition get_le16 :: "'rb platform \<Rightarrow> (('rb, 'z) bufs_scheme, u16) cmd" where
  "get_le16 P = on_request (fail_as EMSGSIZE (ring_buf_get_le16 P))"

definition get_le32 :: "'rb platform \<Rightarrow> (('rb, 'z) bufs_scheme, u32) cmd" where
  "get_le32 P = on_request (fail_as EMSGSIZE (ring_buf_get_le32 P))"

definition get_skip :: "'rb platform \<Rightarrow> nat \<Rightarrow> (('rb, 'z) bufs_scheme, unit) cmd" where
  "get_skip P n = on_request (fail_as EMSGSIZE (ring_buf_get_skip P n))"

definition put_le32 :: "'rb platform \<Rightarrow> u32 \<Rightarrow> (('rb, 'z) bufs_scheme, unit) cmd" where
  "put_le32 P v = on_response (fail_as ENOBUFS (ring_buf_put_le32 P v))"

text \<open>
  Space for \<open>n\<close> bytes that a handler fills in later: the claim is finished at once and the
  pointer is kept.
\<close>

definition put_later :: "'rb platform \<Rightarrow> nat \<Rightarrow> (('rb, 'z) bufs_scheme, nat) cmd" where
  "put_later P n = on_response (bindC (rb_put_claim P n) (\<lambda>(k, ptr).
     if k \<noteq> n then fail ENOBUFS
     else bindC (rb_put_finish P n) (\<lambda>c. if c < 0 then fail ENOBUFS else ret ptr)))"

definition store_response :: "'rb platform \<Rightarrow> nat \<Rightarrow> byte list \<Rightarrow> (('rb, 'z) bufs_scheme, unit) cmd" where
  "store_response P ptr bs = on_response (rb_store P ptr bs)"

lemma safe_check_finish [safe_intros]: "safe sp I (check_finish c a)"
  by (simp add: check_finish_def)

lemma safe_ring_helpers [safe_intros]:
  "safe sp (\<lambda>_. True) (ring_buf_get_skip P n)" "safe sp (\<lambda>_. True) (ring_buf_get_le16 P)"
  "safe sp (\<lambda>_. True) (ring_buf_get_le32 P)" "safe sp (\<lambda>_. True) (ring_buf_put_le32 P v)"
  unfolding ring_buf_get_skip_def ring_buf_get_le16_def ring_buf_get_le32_def ring_buf_put_le32_def
  by (rule safe_intros)+

lemma safe_handler_helpers [safe_intros]:
  "(\<And>r s. I s \<Longrightarrow> I (s\<lparr>request := r\<rparr>)) \<Longrightarrow> safe sp I (get_le16 P)"
  "(\<And>r s. I s \<Longrightarrow> I (s\<lparr>request := r\<rparr>)) \<Longrightarrow> safe sp I (get_le32 P)"
  "(\<And>r s. I s \<Longrightarrow> I (s\<lparr>request := r\<rparr>)) \<Longrightarrow> safe sp I (get_skip P n)"
  "(\<And>r s. I s \<Longrightarrow> I (s\<lparr>response := r\<rparr>)) \<Longrightarrow> safe sp I (put_le32 P v)"
  "(\<And>r s. I s \<Longrightarrow> I (s\<lparr>response := r\<rparr>)) \<Longrightarrow> safe sp I (put_later P n)"
  "(\<And>r s. I s \<Longrightarrow> I (s\<lparr>response := r\<rparr>)) \<Longrightarrow> safe sp I (store_response P n bs)"
  unfolding get_le16_def get_le32_def get_skip_def put_le32_def put_later_def store_response_def
  by (rule safe_intros | assumption)+

section \<open>Helpers on buffers in use\<close>

context ring_buffer
begin

lemma reads_get:
  assumes "rb_reads view ok r bs"
  obtains r' where "rb_get P n r = (Ok (take n bs), r')" "rb_reads view ok r' (drop n bs)"
proof
  show "rb_get P n r = (Ok (take n bs), snd (p_get P r n))"
    using assms get_bytes [of r n] by (simp add: rb_get_def rb_reads_def r_idle_def)
  have "length bs \<le> n \<or> r_pos (view r) + min n (length bs) < r_cap (view r)"
    using assms by (auto simp: rb_reads_def r_linear_def r_idle_def)
  then show "rb_reads view ok (snd (p_get P r n)) (drop n bs)"
    using assms get_view [of r n] r_wfD [of "snd (p_get P r n)"]
    by (auto simp: rb_reads_def r_linear_def r_idle_def)
qed

lemma reads_claim:
  assumes "rb_reads view ok r bs"
  obtains r1 ptr where "rb_get_claim P n r = (Ok (min n (length bs), ptr), r1)"
    "rb_load P ptr (min n (length bs)) r1 = (Ok (take n bs), r1)"
    "\<And>k. k \<le> min n (length bs) \<Longrightarrow>
      \<exists>r2. rb_get_finish P k r1 = (Ok 0, r2) \<and> rb_reads view ok r2 (drop k bs)"
proof
  let ?m = "min n (length bs)" and ?r1 = "snd (p_get_claim P r n)"
  have ok: "ok r" "ok ?r1" and idle: "r_got (view r) = 0" "r_held (view r) = []"
    and lin: "r_pos (view r) + length bs \<le> r_cap (view r)" and data: "r_data (view r) = bs"
    and room: "r_get_room (view r) = length bs"
    using assms get_room_linear [of r] by (auto simp: rb_reads_def r_idle_def r_linear_def)
  show "rb_get_claim P n r = (Ok (?m, r_pos (view r)), ?r1)"
    using get_claim_grant [OF ok(1)] room idle r_wfD(2) [OF ok(1)] by (simp add: rb_get_claim_def)
  have v1: "view ?r1 = (view r)\<lparr>r_got := ?m\<rparr>"
    using get_claim_view [OF ok(1)] room idle by simp
  show "rb_load P (r_pos (view r)) ?m ?r1 = (Ok (take n bs), ?r1)"
    using load [OF ok(2), of 0 ?m "r_pos (view r)"] v1 data lin idle r_wfD(2) [OF ok(1)]
    by (auto simp: rb_load_def min_def)
  fix k assume k: "k \<le> ?m"
  have "length bs \<le> k \<or> r_pos (view r) + k < r_cap (view r)"
    using lin by linarith
  then show "\<exists>r2. rb_get_finish P k ?r1 = (Ok 0, r2) \<and> rb_reads view ok r2 (drop k bs)"
    using get_finish [OF ok(2), of k] k v1 ok_ops(6) [OF ok(2), of k] idle data lin
      r_wfD [of "snd (p_get_finish P ?r1 k)"] r_wfD(1) [OF ok(1)]
    by (auto simp: rb_get_finish_def rb_reads_def r_linear_def r_idle_def)
qed

lemma fills_put:
  assumes "rb_fills view ok c r bs" "length bs + length xs \<le> c"
  obtains r' where "rb_put P xs r = (Ok (length xs), r')" "rb_fills view ok c r' (bs @ xs)"
proof
  show "rb_put P xs r = (Ok (length xs), snd (p_put P r xs))"
    using assms put_count [of r xs] by (simp add: rb_put_def rb_fills_def r_idle_def)
  show "rb_fills view ok c (snd (p_put P r xs)) (bs @ xs)"
    using assms put_view [of r xs] by (auto simp: rb_fills_def r_idle_def)
qed

text \<open>Claim, fill in and finish.\<close>

lemma fills_claim:
  assumes "rb_fills view ok c r bs" "length bs + n \<le> c"
  obtains r1 ptr where "rb_put_claim P n r = (Ok (n, ptr), r1)" "ptr = length bs mod c"
    "ok r1" "\<exists>junk. length junk = n \<and> view r1 = (view r)\<lparr>r_held := junk\<rparr>"
    "\<And>k. k \<le> n \<Longrightarrow> \<exists>junk r2. rb_put_finish P k r1 = (Ok 0, r2) \<and> length junk = k
       \<and> rb_fills view ok c r2 (bs @ junk)"
    "\<And>k xs. length xs = k \<Longrightarrow> k \<le> n \<Longrightarrow> \<exists>r2 r3. rb_store P ptr xs r1 = (Ok (), r2)
       \<and> rb_put_finish P k r2 = (Ok 0, r3) \<and> rb_fills view ok c r3 (bs @ xs)"
proof
  let ?r1 = "snd (p_put_claim P r n)"
  have ok: "ok r" "ok ?r1" and idle: "r_got (view r) = 0" "r_held (view r) = []"
    and v: "r_pos (view r) = 0" "r_cap (view r) = c" "r_data (view r) = bs"
    using assms by (auto simp: rb_fills_def r_idle_def)
  have room: "min n (r_put_room (view r)) = n"
    using put_room_linear [OF ok(1) v(1)] v idle assms(2) by simp
  show "rb_put_claim P n r = (Ok (n, length bs mod c), ?r1)"
    using put_claim_grant [OF ok(1), of n] room v idle by (simp add: rb_put_claim_def)
  show "length bs mod c = length bs mod c" by simp
  show "ok ?r1" by (rule ok)
  obtain junk where junk: "length junk = n" "view ?r1 = (view r)\<lparr>r_held := junk\<rparr>"
    using put_claim_view [OF ok(1), of n] room idle by auto
  then show "\<exists>junk. length junk = n \<and> view ?r1 = (view r)\<lparr>r_held := junk\<rparr>" by blast
  fix k assume k: "k \<le> n"
  have "rb_put_finish P k ?r1 = (Ok 0, snd (p_put_finish P ?r1 k)) \<and> length (take k junk) = k
       \<and> rb_fills view ok c (snd (p_put_finish P ?r1 k)) (bs @ take k junk)"
    using put_finish [OF ok(2), of k] junk k v idle ok(2)
    by (auto simp: rb_put_finish_def rb_fills_def r_idle_def)
  then show "\<exists>junk r2. rb_put_finish P k ?r1 = (Ok 0, r2) \<and> length junk = k
       \<and> rb_fills view ok c r2 (bs @ junk)"
    by blast
next
  let ?r1 = "snd (p_put_claim P r n)" and ?ptr = "length bs mod c"
  fix k and xs :: "byte list" assume xs: "length xs = k" and k: "k \<le> n"
  have ok: "ok r" "ok ?r1" and idle: "r_got (view r) = 0" "r_held (view r) = []"
    and v: "r_pos (view r) = 0" "r_cap (view r) = c" "r_data (view r) = bs"
    using assms by (auto simp: rb_fills_def r_idle_def)
  have c: "0 < c" using r_wfD(1) [OF ok(1)] v by simp
  have room: "min n (r_put_room (view r)) = n"
    using put_room_linear [OF ok(1) v(1)] v idle assms(2) by simp
  obtain junk where junk: "length junk = n" "view ?r1 = (view r)\<lparr>r_held := junk\<rparr>"
    using put_claim_view [OF ok(1), of n] room idle by auto
  have ptr: "?ptr + length xs \<le> c"
    using assms(2) xs k c by (cases "length bs = c") auto
  let ?r2 = "p_store P ?r1 ?ptr xs"
  have st: "ok ?r2" "view ?r2 = r_write (view ?r1) (length bs) xs"
    using store [OF ok(2), of "length bs" xs ?ptr] junk v xs k ptr by simp_all
  then have v2: "view ?r2 = (view r)\<lparr>r_held := xs @ drop k junk\<rparr>"
    using junk v xs by (simp add: r_write_def Let_def)
  let ?r3 = "snd (p_put_finish P ?r2 k)"
  have "rb_put_finish P k ?r2 = (Ok 0, ?r3)" "rb_fills view ok c ?r3 (bs @ xs)"
    using put_finish [OF st(1), of k] v2 v xs idle ok_ops(4) [OF st(1), of k]
    by (auto simp: rb_put_finish_def rb_fills_def r_idle_def)
  then show "\<exists>r2 r3. rb_store P ?ptr xs ?r1 = (Ok (), r2)
       \<and> rb_put_finish P k r2 = (Ok 0, r3) \<and> rb_fills view ok c r3 (bs @ xs)"
    by (auto simp: rb_store_def)
qed

section \<open>The helpers step by step\<close>

text \<open>
  Each rule states what a helper does to a request that starts with the bytes it reads, or to a
  response that has room for the bytes it appends; the remaining fields are untouched.
\<close>

lemma runs_get_bytes:
  assumes "rb_reads view ok (request s) bs"
    and "\<And>r. n \<le> length bs \<Longrightarrow> rb_reads view ok r (drop n bs) \<Longrightarrow> Q (Ok (take n bs)) (s\<lparr>request := r\<rparr>)"
    and "\<And>r. length bs < n \<Longrightarrow> rb_reads view ok r [] \<Longrightarrow> Q (Fail EMSGSIZE) (s\<lparr>request := r\<rparr>)"
  shows "runs (Platform.get_bytes P n) s Q"
proof -
  obtain r where "rb_get P n (request s) = (Ok (take n bs), r)" "rb_reads view ok r (drop n bs)"
    using reads_get [OF assms(1)] .
  then show ?thesis
    using assms(2,3) by (cases "n \<le> length bs") (auto simp: runs_def Platform.get_bytes_def on_request_def bindC_simps)
qed

lemma runs_get_u8:
  assumes "rb_reads view ok (request s) (b # bs)"
    and "\<And>r. rb_reads view ok r bs \<Longrightarrow> Q (Ok b) (s\<lparr>request := r\<rparr>)"
  shows "runs (get_u8 P) s Q"
  unfolding get_u8_def
  by (rule runs_bindI, rule runs_get_bytes [OF assms(1)]) (auto intro: assms(2))

lemma runs_get_u8_short:
  assumes "rb_reads view ok (request s) []"
    and "\<And>r. rb_reads view ok r [] \<Longrightarrow> Q (Fail EMSGSIZE) (s\<lparr>request := r\<rparr>)"
  shows "runs (get_u8 P) s Q"
  unfolding get_u8_def
  by (rule runs_bindI, rule runs_get_bytes [OF assms(1)]) (auto intro: assms(2))

lemma reads_le:
  assumes "rb_reads view ok r bs"
  shows "2 \<le> length bs \<Longrightarrow> \<exists>r'. ring_buf_get_le16 P r = (Ok (sys_get_le16 (take 2 bs)), r')
      \<and> rb_reads view ok r' (drop 2 bs)"
    and "length bs < 2 \<Longrightarrow> fst (ring_buf_get_le16 P r) = Fail EMSGSIZE"
    and "4 \<le> length bs \<Longrightarrow> \<exists>r'. ring_buf_get_le32 P r = (Ok (sys_get_le32 (take 4 bs)), r')
      \<and> rb_reads view ok r' (drop 4 bs)"
    and "length bs < 4 \<Longrightarrow> fst (ring_buf_get_le32 P r) = Fail EMSGSIZE"
    and "n \<le> length bs \<Longrightarrow> \<exists>r'. ring_buf_get_skip P n r = (Ok (), r')
      \<and> rb_reads view ok r' (drop n bs)"
    and "length bs < n \<Longrightarrow> fst (ring_buf_get_skip P n r) = Fail EMSGSIZE"
proof -
  assume n: "2 \<le> length bs"
  obtain r1 ptr where "rb_get_claim P 2 r = (Ok (min 2 (length bs), ptr), r1)"
    "rb_load P ptr (min 2 (length bs)) r1 = (Ok (take 2 bs), r1)"
    "\<exists>r2. rb_get_finish P 2 r1 = (Ok 0, r2) \<and> rb_reads view ok r2 (drop 2 bs)"
    using reads_claim [OF assms, of 2] n by (metis min.absorb1 le_refl)
  then show "\<exists>r'. ring_buf_get_le16 P r = (Ok (sys_get_le16 (take 2 bs)), r')
      \<and> rb_reads view ok r' (drop 2 bs)"
    using n by (auto simp: ring_buf_get_le16_def check_finish_def bindC_simps)
next
  assume n: "length bs < 2"
  obtain r1 ptr where "rb_get_claim P 2 r = (Ok (min 2 (length bs), ptr), r1)"
    using reads_claim [OF assms, of 2] by metis
  then show "fst (ring_buf_get_le16 P r) = Fail EMSGSIZE"
    using n by (simp add: ring_buf_get_le16_def bindC_simps)
next
  assume n: "4 \<le> length bs"
  obtain r1 ptr where "rb_get_claim P 4 r = (Ok (min 4 (length bs), ptr), r1)"
    "rb_load P ptr (min 4 (length bs)) r1 = (Ok (take 4 bs), r1)"
    "\<exists>r2. rb_get_finish P 4 r1 = (Ok 0, r2) \<and> rb_reads view ok r2 (drop 4 bs)"
    using reads_claim [OF assms, of 4] n by (metis min.absorb1 le_refl)
  then show "\<exists>r'. ring_buf_get_le32 P r = (Ok (sys_get_le32 (take 4 bs)), r')
      \<and> rb_reads view ok r' (drop 4 bs)"
    using n by (auto simp: ring_buf_get_le32_def check_finish_def bindC_simps)
next
  assume n: "length bs < 4"
  obtain r1 ptr where "rb_get_claim P 4 r = (Ok (min 4 (length bs), ptr), r1)"
    using reads_claim [OF assms, of 4] by metis
  then show "fst (ring_buf_get_le32 P r) = Fail EMSGSIZE"
    using n by (simp add: ring_buf_get_le32_def bindC_simps)
next
  assume n: "n \<le> length bs"
  obtain r1 ptr where "rb_get_claim P n r = (Ok (min n (length bs), ptr), r1)"
    "\<exists>r2. rb_get_finish P n r1 = (Ok 0, r2) \<and> rb_reads view ok r2 (drop n bs)"
    using reads_claim [OF assms, of n] n by (metis min.absorb1 le_refl)
  then show "\<exists>r'. ring_buf_get_skip P n r = (Ok (), r') \<and> rb_reads view ok r' (drop n bs)"
    using n by (auto simp: ring_buf_get_skip_def check_finish_def bindC_simps)
next
  assume n: "length bs < n"
  obtain r1 ptr where "rb_get_claim P n r = (Ok (min n (length bs), ptr), r1)"
    using reads_claim [OF assms, of n] by metis
  then show "fst (ring_buf_get_skip P n r) = Fail EMSGSIZE"
    using n by (simp add: ring_buf_get_skip_def bindC_simps)
qed

lemma runs_get_le16:
  assumes "rb_reads view ok (request s) (a # b # bs)"
    and "\<And>r. rb_reads view ok r bs \<Longrightarrow> Q (Ok (sys_get_le16 [a, b])) (s\<lparr>request := r\<rparr>)"
  shows "runs (get_le16 P) s Q"
proof -
  obtain r' where "ring_buf_get_le16 P (request s) = (Ok (sys_get_le16 [a, b]), r')"
    "rb_reads view ok r' bs"
    using reads_le(1) [OF assms(1)] by (auto simp: numeral_2_eq_2)
  then show ?thesis
    using assms(2) by (simp add: runs_def get_le16_def on_request_def)
qed

lemma runs_get_le32:
  assumes "rb_reads view ok (request s) (a # b # c # d # bs)"
    and "\<And>r. rb_reads view ok r bs \<Longrightarrow> Q (Ok (sys_get_le32 [a, b, c, d])) (s\<lparr>request := r\<rparr>)"
  shows "runs (get_le32 P) s Q"
proof -
  obtain r' where "ring_buf_get_le32 P (request s) = (Ok (sys_get_le32 [a, b, c, d]), r')"
    "rb_reads view ok r' bs"
    using reads_le(3) [OF assms(1)] by (auto simp: numeral_eq_Suc)
  then show ?thesis
    using assms(2) by (simp add: runs_def get_le32_def on_request_def)
qed

lemma runs_get_short:
  assumes "rb_reads view ok (request s) bs"
  shows "length bs < 2 \<Longrightarrow> (\<And>r. Q (Fail EMSGSIZE) (s\<lparr>request := r\<rparr>)) \<Longrightarrow> runs (get_le16 P) s Q"
    and "length bs < 4 \<Longrightarrow> (\<And>r. R (Fail EMSGSIZE) (s\<lparr>request := r\<rparr>)) \<Longrightarrow> runs (get_le32 P) s R"
    and "length bs < n \<Longrightarrow> (\<And>r. S (Fail EMSGSIZE) (s\<lparr>request := r\<rparr>)) \<Longrightarrow> runs (get_skip P n) s S"
proof -
  assume n: "length bs < 2" and Q: "\<And>r. Q (Fail EMSGSIZE) (s\<lparr>request := r\<rparr>)"
  obtain r' where "ring_buf_get_le16 P (request s) = (Fail EMSGSIZE, r')"
    using reads_le(2) [OF assms n] by (metis prod.collapse)
  then show "runs (get_le16 P) s Q"
    using Q by (simp add: runs_def get_le16_def on_request_def)
next
  assume n: "length bs < 4" and R: "\<And>r. R (Fail EMSGSIZE) (s\<lparr>request := r\<rparr>)"
  obtain r' where "ring_buf_get_le32 P (request s) = (Fail EMSGSIZE, r')"
    using reads_le(4) [OF assms n] by (metis prod.collapse)
  then show "runs (get_le32 P) s R"
    using R by (simp add: runs_def get_le32_def on_request_def)
next
  assume n: "length bs < n" and S: "\<And>r. S (Fail EMSGSIZE) (s\<lparr>request := r\<rparr>)"
  obtain r' where "ring_buf_get_skip P n (request s) = (Fail EMSGSIZE, r')"
    using reads_le(6) [OF assms n] by (metis prod.collapse)
  then show "runs (get_skip P n) s S"
    using S by (simp add: runs_def get_skip_def on_request_def)
qed

lemma runs_get_skip:
  assumes "rb_reads view ok (request s) bs" "n \<le> length bs"
    and "\<And>r. rb_reads view ok r (drop n bs) \<Longrightarrow> Q (Ok ()) (s\<lparr>request := r\<rparr>)"
  shows "runs (get_skip P n) s Q"
  using reads_le(5) [OF assms(1,2)] assms(3)
  by (auto simp: runs_def get_skip_def on_request_def fail_as_def)

lemma runs_put_bytes:
  assumes "rb_fills view ok c (response s) out" "length out + length bs \<le> c"
    and "\<And>r. rb_fills view ok c r (out @ bs) \<Longrightarrow> Q (Ok ()) (s\<lparr>response := r\<rparr>)"
  shows "runs (put_bytes P bs) s Q"
proof -
  obtain r' where "rb_put P bs (response s) = (Ok (length bs), r')" "rb_fills view ok c r' (out @ bs)"
    using fills_put [OF assms(1,2)] .
  then show ?thesis
    using assms(3) by (simp add: runs_def put_bytes_def on_response_def bindC_simps)
qed

lemma runs_put_le32:
  assumes "rb_fills view ok c (response s) out" "length out + 4 \<le> c"
    and "\<And>r. rb_fills view ok c r (out @ sys_put_le32 v) \<Longrightarrow> Q (Ok ()) (s\<lparr>response := r\<rparr>)"
  shows "runs (put_le32 P v) s Q"
proof -
  obtain r1 ptr r2 r3 where "rb_put_claim P 4 (response s) = (Ok (4, ptr), r1)"
    "rb_store P ptr (sys_put_le32 v) r1 = (Ok (), r2)" "rb_put_finish P 4 r2 = (Ok 0, r3)"
    "rb_fills view ok c r3 (out @ sys_put_le32 v)"
    using fills_claim [OF assms(1,2)] by (metis length_sys_put_le(2) le_refl)
  then show ?thesis
    using assms(3)
    by (simp add: runs_def put_le32_def on_response_def ring_buf_put_le32_def check_finish_def bindC_simps)
qed

lemma runs_put_later:
  assumes "rb_fills view ok c (response s) out" "length out + n \<le> c" "0 < n"
    and "\<And>r junk. length junk = n \<Longrightarrow> rb_fills view ok c r (out @ junk) \<Longrightarrow>
      Q (Ok (length out)) (s\<lparr>response := r\<rparr>)"
  shows "runs (put_later P n) s Q"
proof -
  have ptr: "length out mod c = length out" using assms(2,3) by simp
  obtain r1 where c: "rb_put_claim P n (response s) = (Ok (n, length out), r1)"
    "\<exists>junk r2. rb_put_finish P n r1 = (Ok 0, r2) \<and> length junk = n
       \<and> rb_fills view ok c r2 (out @ junk)"
    using fills_claim [OF assms(1,2)] unfolding ptr by (metis le_refl)
  then obtain junk r2 where "rb_put_finish P n r1 = (Ok 0, r2)" "length junk = n"
    "rb_fills view ok c r2 (out @ junk)" by blast
  with c(1) show ?thesis
    using assms(4) by (simp add: runs_def put_later_def on_response_def bindC_simps)
qed

lemma runs_store_response:
  assumes "rb_fills view ok c (response s) (pre @ old @ post)" "length old = length bs" "bs \<noteq> []"
    and "\<And>r. rb_fills view ok c r (pre @ bs @ post) \<Longrightarrow> Q (Ok ()) (s\<lparr>response := r\<rparr>)"
  shows "runs (store_response P (length pre) bs) s Q"
proof -
  let ?v = "view (response s)"
  have f: "ok (response s)" "r_pos ?v = 0" "r_cap ?v = c" "r_data ?v = pre @ old @ post" "r_held ?v = []"
      "r_got ?v = 0"
    using assms(1) by (auto simp: rb_fills_def r_idle_def)
  have room: "length pre + length bs + length post \<le> c"
    using r_wfD(4) [OF f(1)] f assms(2) by simp
  have "ok (p_store P (response s) (length pre) bs) \<and>
      view (p_store P (response s) (length pre) bs) = r_write ?v (length pre) bs"
  proof (intro store)
    have "length pre < c" using room assms(3) by (cases bs) auto
    then show "length pre = (r_pos ?v + length pre) mod r_cap ?v" using f by simp
  qed (use f room assms(2) in auto)
  moreover have "r_write ?v (length pre) bs = ?v\<lparr>r_data := pre @ bs @ post\<rparr>"
    using f assms(2) by (simp add: r_write_def Let_def)
  ultimately have "rb_fills view ok c (p_store P (response s) (length pre) bs) (pre @ bs @ post)"
    using f by (auto simp: rb_fills_def r_idle_def)
  then show ?thesis
    using assms(4) by (simp add: runs_def store_response_def on_response_def rb_store_def)
qed

end

section \<open>Properties\<close>

text \<open>
  C28: the busy wait is a correct delay in spite of the wrap-around of the 32-bit cycle counter.
  With a clock of at most 1 GHz, a counter that does not stand still for ever and polls that are
  less than a counter period (minus the wait) apart, it ends, and it ends at the first poll at
  which \<open>nanos * hz / 10 ^ 9\<close> cycles have gone by.
\<close>

theorem busy_wait_nanos_delay:
  fixes time :: "nat \<Rightarrow> nat"
  defines "wait nanos hz \<equiv> unat nanos * unat hz div 10 ^ 9"
  assumes "unat hz \<le> 10 ^ 9" "mono time" "\<And>i. cycle i = of_nat (time i)"
    and "\<And>i. time (Suc i) - time i \<le> 2 ^ 32 - wait nanos hz"
    and "\<exists>i. wait nanos hz \<le> time i - time 0"
  shows "\<exists>k\<ge>1. busy_wait_nanos cycle hz nanos = Some k \<and> wait nanos hz \<le> time k - time 0
    \<and> (\<forall>i. 1 \<le> i \<and> i < k \<longrightarrow> time i - time 0 < wait nanos hz)"
proof -
  let ?w = "wait nanos hz"
  have w: "unat (wait_cycles hz nanos) = ?w"
    using unat_wait_cycles_exact [OF assms(2)] by (simp add: wait_def)
  moreover have "unat (wait_cycles hz nanos) < 2 ^ LENGTH(32)" by (rule unsigned_less)
  ultimately have w32: "?w < 2 ^ 32" by simp
  obtain i where "?w \<le> time i - time 0" using assms(6) by blast
  then have ex: "1 \<le> Suc i \<and> ?w \<le> time (Suc i) - time 0"
    using monoD [OF assms(3), of i "Suc i"] by simp
  define k where "k = (LEAST i. 1 \<le> i \<and> ?w \<le> time i - time 0)"
  have k: "1 \<le> k" "?w \<le> time k - time 0"
    using LeastI [of "\<lambda>i. 1 \<le> i \<and> ?w \<le> time i - time 0", OF ex] by (auto simp: k_def)
  have before: "time i - time 0 < ?w" if "1 \<le> i" "i < k" for i
    using not_less_Least [of i "\<lambda>i. 1 \<le> i \<and> ?w \<le> time i - time 0"] that by (auto simp: k_def)
  have mono0: "time 0 \<le> time i" for i using monoD [OF assms(3), of 0 i] by simp
  have poll: "wait_cycles hz nanos \<le> cycle i - cycle 0 \<longleftrightarrow> ?w \<le> time i - time 0"
    if "time i - time 0 < 2 ^ 32" for i
    using unat_cycle_diff [OF mono0 that] by (simp add: word_le_nat_alt w assms(4))
  have "time k - time 0 < 2 ^ 32 \<or> ?w = 0"
  proof (cases k)
    case (Suc j)
    have "time j - time 0 < ?w \<or> j = 0" using before [of j] Suc by auto
    then show ?thesis
      using assms(5) [of j] w32 Suc mono0 [of j] by auto
  qed (use k in simp)
  then have "wait_cycles hz nanos \<le> cycle k - cycle 0"
    using poll [of k] k w by (auto simp: word_le_nat_alt)
  moreover have "\<not> wait_cycles hz nanos \<le> cycle i - cycle 0" if "1 \<le> i" "i < k" for i
    using poll [of i] before [OF that] w32 by simp
  ultimately have "busy_wait_loop cycle (cycle 0) (wait_cycles hz nanos) 1 = Some k"
    using k(1) by (intro busy_wait_loop_first)
  then show ?thesis
    using k before by (auto simp: busy_wait_nanos_def)
qed

lemma busy_wait_nanos_delay_witness:
  "\<exists>k\<ge>1. busy_wait_nanos (\<lambda>i. of_nat (4294967290 + 3 * i)) 1000000000 10 = Some k
    \<and> unat (10 :: u32) * unat (1000000000 :: u32) div 10 ^ 9
        \<le> (4294967290 + 3 * k) - (4294967290 + 3 * 0)
    \<and> (\<forall>i. 1 \<le> i \<and> i < k \<longrightarrow> (4294967290 + 3 * i) - (4294967290 + 3 * 0)
        < unat (10 :: u32) * unat (1000000000 :: u32) div 10 ^ 9)"
proof (rule busy_wait_nanos_delay)
  show "\<exists>i. unat (10 :: u32) * unat (1000000000 :: u32) div 10 ^ 9
      \<le> (4294967290 + 3 * i) - (4294967290 + 3 * 0)"
    by (rule exI [of _ 10]) simp
qed (auto intro: monoI)

end
