(* ===== verification/Utf8.thy ===== *)
theory Utf8
  imports Util
begin

text \<open>
  The UTF-8 codec of \<open>utf8.c\<close>, which carries the command and pin numbers of the io protocol.

  A pointer argument is an optional value (\<open>None\<close> is NULL) and a buffer is its bytes, so
  \<open>buf_len\<close> is the length of the list.  The result of a function is its return code together
  with what it left behind its pointer.
\<close>

section \<open>Encoding\<close>

definition utf8_len :: "u32 \<Rightarrow> nat option" where
  "utf8_len val = (if val \<le> 0x7f then Some 1 else if val \<le> 0x7ff then Some 2
     else if val \<le> 0xffff then Some 3 else if val \<le> 0x10ffff then Some 4 else None)"

text \<open>The first byte and the continuation byte that carries the bits from \<open>k\<close> on.\<close>

definition utf8_head :: "u32 \<Rightarrow> nat \<Rightarrow> byte" where
  "utf8_head val nbytes = ucast (push_bit (8 - nbytes) 0xff OR drop_bit ((nbytes - 1) * 6) val)"

definition utf8_tail :: "u32 \<Rightarrow> nat \<Rightarrow> byte" where
  "utf8_tail val k = ucast (0x80 OR (drop_bit k val AND 0x3f))"

definition utf8_bytes :: "u32 \<Rightarrow> nat \<Rightarrow> byte list" where
  "utf8_bytes val nbytes =
     (if nbytes = 1 then [ucast val]
      else let shift = (nbytes - 1) * 6
           in utf8_head val nbytes # map (\<lambda>i. utf8_tail val (shift - 6 * i)) [1..<nbytes])"

definition utf8_encode :: "u32 \<Rightarrow> byte list option \<Rightarrow> (errno + nat) \<times> byte list option" where
  "utf8_encode val buf = (case utf8_len val of
     None \<Rightarrow> (Inl EINVAL, buf)
   | Some nbytes \<Rightarrow> (case buf of
       None \<Rightarrow> (Inl ENOBUFS, None)
     | Some bs \<Rightarrow>
         if length bs < nbytes then (Inl ENOBUFS, Some bs)
         else (Inr nbytes, Some (utf8_bytes val nbytes @ drop nbytes bs))))"

section \<open>Decoding\<close>

definition utf8_lead :: "byte \<Rightarrow> (nat \<times> u32) option" where
  "utf8_lead b = (if b \<le> 0x7f then Some (1, ucast b)
     else if b AND 0xe0 = 0xc0 then Some (2, ucast (b AND 0x1f))
     else if b AND 0xf0 = 0xe0 then Some (3, ucast (b AND 0x0f))
     else if b AND 0xf8 = 0xf0 then Some (4, ucast (b AND 0x07))
     else None)"

text \<open>The loop over the continuation bytes; the accumulator is \<open>*result\<close>.\<close>

fun utf8_cont :: "byte list \<Rightarrow> u32 \<Rightarrow> (errno + unit) \<times> u32" where
  "utf8_cont [] acc = (Inr (), acc)"
| "utf8_cont (b # bs) acc =
     (if b AND 0xc0 \<noteq> 0x80 then (Inl EINVAL, acc)
      else utf8_cont bs (push_bit 6 acc OR ucast (b AND 0x3f)))"

definition utf8_decode :: "byte list option \<Rightarrow> u32 option \<Rightarrow> (errno + nat) \<times> u32 option" where
  "utf8_decode buf result = (case (buf, result) of
     (Some (b # bs), Some r) \<Rightarrow> (case utf8_lead b of
         None \<Rightarrow> (Inl EINVAL, Some r)
       | Some (nbytes, start) \<Rightarrow>
           if length (b # bs) < nbytes then (Inl ENODATA, Some r)
           else (case utf8_cont (take (nbytes - 1) bs) start of
               (Inl e, acc) \<Rightarrow> (Inl e, Some acc)
             | (Inr _, acc) \<Rightarrow> (Inr nbytes, Some acc)))
   | _ \<Rightarrow> (Inl ENODATA, result))"

section \<open>Ring buffers\<close>

definition utf8_rbuf_put :: "'rb platform \<Rightarrow> u32 \<Rightarrow> ('rb, nat) cmd" where
  "utf8_rbuf_put P val = bindC (rb_put_claim P 4) (\<lambda>(put_len, put).
     bindC (rb_load P put put_len) (\<lambda>mem.
     case utf8_encode val (Some mem) of
       (Inl e, _) \<Rightarrow> bindC (rb_put_finish P 0) (\<lambda>_. fail e)
     | (Inr n, mem') \<Rightarrow> bindC (rb_store P put (the mem')) (\<lambda>_.
         bindC (rb_put_finish P n) (\<lambda>_. ret n))))"

text \<open>The second component is the value left in \<open>*result\<close>; callers read it only on success.\<close>

definition utf8_rbuf_get :: "'rb platform \<Rightarrow> u32 \<Rightarrow> ('rb, nat \<times> u32) cmd" where
  "utf8_rbuf_get P result = bindC (rb_get_claim P 4) (\<lambda>(get_len, get).
     bindC (rb_load P get get_len) (\<lambda>mem.
     case utf8_decode (Some mem) (Some result) of
       (Inl e, _) \<Rightarrow> bindC (rb_get_finish P 0) (\<lambda>_. fail e)
     | (Inr n, r) \<Rightarrow> bindC (rb_get_finish P n) (\<lambda>_. ret (n, the r))))"

section \<open>The codec is a round trip\<close>

lemma ascii_bit: "(b :: byte) \<le> 0x7f \<longleftrightarrow> \<not> bit b 7"
proof
  assume "b \<le> 0x7f"
  then have "unat b < 2 ^ 7" by (simp add: word_le_nat_alt)
  then show "\<not> bit b 7" by (rule bit_above) simp
next
  assume b: "\<not> bit b 7"
  have "b = take_bit 7 b"
    using b by (intro byte_eqI) (simp only: all_less_8, simp add: bit_simps)
  then have "unat b = take_bit 7 (unat b)" by (metis unsigned_take_bit_eq)
  then show "b \<le> 0x7f"
    by (simp add: word_le_nat_alt take_bit_eq_mod)
qed

lemma bit_head:
  "bit (16320 :: int) n \<longleftrightarrow> 6 \<le> n \<and> n < 14" "bit (8160 :: int) n \<longleftrightarrow> 5 \<le> n \<and> n < 13"
  "bit (4080 :: int) n \<longleftrightarrow> 4 \<le> n \<and> n < 12"
proof -
  have b: "bit (255 :: int) m \<longleftrightarrow> m < 8" for m
    using bit_mask_iff [of 8 m, where 'a = int] by (simp add: mask_eq_exp_minus_1)
  show "bit (16320 :: int) n \<longleftrightarrow> 6 \<le> n \<and> n < 14"
    using bit_push_bit_iff [of 6 "255 :: int" n] b [of "n - 6"] by auto
  show "bit (8160 :: int) n \<longleftrightarrow> 5 \<le> n \<and> n < 13"
    using bit_push_bit_iff [of 5 "255 :: int" n] b [of "n - 5"] by auto
  show "bit (4080 :: int) n \<longleftrightarrow> 4 \<le> n \<and> n < 12"
    using bit_push_bit_iff [of 4 "255 :: int" n] b [of "n - 4"] by auto
qed

lemma bit_128: "bit (128 :: int) n \<longleftrightarrow> n = 7"
  using bit_exp_iff [where 'a = int, of 7 n] by simp

lemma utf8_cont_byte:
  "utf8_tail val k AND 0xc0 = 0x80"
  "ucast (utf8_tail val k AND 0x3f) = drop_bit k val AND (0x3f :: u32)"
  unfolding utf8_tail_def
proof -
  show "ucast (0x80 OR (drop_bit k val AND 0x3f)) AND 0xc0 = (0x80 :: byte)"
    by (intro byte_eqI) (simp only: all_less_8, simp add: bit_simps)
  show "ucast (ucast (0x80 OR (drop_bit k val AND 0x3f)) AND (0x3f :: byte))
      = drop_bit k val AND (0x3f :: u32)"
    by (rule bit_word_eqI) (auto simp: bit_simps bit_numeral_mask bit_128)
qed

lemma utf8_join: "push_bit 6 (drop_bit (k + 6) val) OR (drop_bit k val AND 0x3f) = drop_bit k (val :: u32)"
  by (rule bit_word_eqI) (auto simp: bit_simps bit_numeral_mask not_less add.commute add.left_commute)

lemma utf8_cont_tail:
  "utf8_cont (utf8_tail val k # bs) (drop_bit (k + 6) val) = utf8_cont bs (drop_bit k val)"
  by (simp only: utf8_cont.simps utf8_cont_byte utf8_join if_False simp_thms)

lemma utf8_lead_byte2:
  assumes "unat (val :: u32) < 2 ^ 11"
  shows "utf8_lead (utf8_head val 2) = Some (2, drop_bit 6 val)"
proof -
  note high = bit_above [OF assms]
  let ?b = "ucast (push_bit 6 0xff OR drop_bit 6 val) :: byte"
  have b: "utf8_head val 2 = ?b" by (simp add: utf8_head_def)
  have "?b AND 0xe0 = 0xc0"
    using high by (intro byte_eqI) (simp only: all_less_8, simp add: bit_simps)
  moreover have "ucast (?b AND 0x1f) = drop_bit 6 val"
  proof (rule bit_word_eqI)
    fix n assume "n < LENGTH(32)"
    show "bit (ucast (?b AND 0x1f) :: u32) n = bit (drop_bit 6 val) n"
      by (cases "n < 5") (auto simp: bit_simps bit_numeral_mask bit_head high)
  qed
  moreover have "\<not> ?b \<le> 0x7f"
    by (simp add: ascii_bit bit_simps)
  ultimately show ?thesis
    unfolding b by (simp only: utf8_lead_def if_False if_True simp_thms)
qed
lemma utf8_lead_byte3:
  assumes "unat (val :: u32) < 2 ^ 16"
  shows "utf8_lead (utf8_head val 3) = Some (3, drop_bit 12 val)"
proof -
  note high = bit_above [OF assms]
  let ?b = "ucast (push_bit 5 0xff OR drop_bit 12 val) :: byte"
  have b: "utf8_head val 3 = ?b" by (simp add: utf8_head_def)
  have "?b AND 0xf0 = 0xe0"
    using high by (intro byte_eqI) (simp only: all_less_8, simp add: bit_simps)
  moreover have "?b AND 0xe0 \<noteq> 0xc0"
  proof
    assume "?b AND 0xe0 = 0xc0"
    then have "bit (?b AND 0xe0) 5 = bit (0xc0 :: byte) 5" by simp
    then show False by (simp add: bit_simps)
  qed
  moreover have "ucast (?b AND 0x0f) = drop_bit 12 val"
  proof (rule bit_word_eqI)
    fix n assume "n < LENGTH(32)"
    show "bit (ucast (?b AND 0x0f) :: u32) n = bit (drop_bit 12 val) n"
      by (cases "n < 4") (auto simp: bit_simps bit_numeral_mask bit_head high)
  qed
  moreover have "\<not> ?b \<le> 0x7f"
    by (simp add: ascii_bit bit_simps)
  ultimately show ?thesis
    unfolding b by (simp only: utf8_lead_def if_False if_True simp_thms)
qed

lemma utf8_lead_byte4:
  assumes "unat (val :: u32) < 2 ^ 21"
  shows "utf8_lead (utf8_head val 4) = Some (4, drop_bit 18 val)"
proof -
  note high = bit_above [OF assms]
  let ?b = "ucast (push_bit 4 0xff OR drop_bit 18 val) :: byte"
  have b: "utf8_head val 4 = ?b" by (simp add: utf8_head_def)
  have "?b AND 0xf8 = 0xf0"
    using high by (intro byte_eqI) (simp only: all_less_8, simp add: bit_simps)
  moreover have "?b AND 0xe0 \<noteq> 0xc0" "?b AND 0xf0 \<noteq> 0xe0"
  proof -
    have "bit (?b AND 0xe0) 5 \<noteq> bit (0xc0 :: byte) 5" by (simp add: bit_simps)
    then show "?b AND 0xe0 \<noteq> 0xc0" by auto
    have "bit (?b AND 0xf0) 4 \<noteq> bit (0xe0 :: byte) 4" by (simp add: bit_simps)
    then show "?b AND 0xf0 \<noteq> 0xe0" by auto
  qed
  moreover have "ucast (?b AND 0x07) = drop_bit 18 val"
  proof (rule bit_word_eqI)
    fix n assume "n < LENGTH(32)"
    show "bit (ucast (?b AND 0x07) :: u32) n = bit (drop_bit 18 val) n"
      by (cases "n < 3") (auto simp: bit_simps bit_numeral_mask bit_head high)
  qed
  moreover have "\<not> ?b \<le> 0x7f"
    by (simp add: ascii_bit bit_simps)
  ultimately show ?thesis
    unfolding b by (simp only: utf8_lead_def if_False if_True simp_thms)
qed

lemma utf8_lead_ascii:
  assumes "unat (val :: u32) < 2 ^ 7"
  shows "utf8_lead (ucast val) = Some (1, val)"
proof -
  have "(ucast val :: byte) \<le> 0x7f"
    using bit_above [OF assms] by (simp add: ascii_bit bit_simps)
  moreover have "ucast (ucast val :: byte) = val"
  proof (rule bit_word_eqI)
    fix n assume "n < LENGTH(32)"
    show "bit (ucast (ucast val :: byte) :: u32) n = bit val n"
      by (cases "n < 7") (auto simp: bit_simps bit_above [OF assms])
  qed
  ultimately show ?thesis
    by (simp add: utf8_lead_def)
qed

lemma utf8_len_bounds:
  "utf8_len val = Some n \<Longrightarrow> 1 \<le> n \<and> n \<le> 4"
  "utf8_len val = None \<longleftrightarrow> 0x10ffff < val"
  by (auto simp: utf8_len_def word_le_nat_alt word_less_nat_alt split: if_splits)

lemma length_utf8_bytes: "utf8_len val = Some n \<Longrightarrow> length (utf8_bytes val n) = n"
  using utf8_len_bounds(1) [of val n] by (auto simp: utf8_bytes_def Let_def)

lemma utf8_bytes_cases:
  assumes "utf8_len val = Some n"
  obtains "n = 1" "unat val < 2 ^ 7" "utf8_bytes val n = [ucast val]"
  | "n = 2" "unat val < 2 ^ 11" "utf8_bytes val n =
      [utf8_head val 2, utf8_tail val 0]"
  | "n = 3" "unat val < 2 ^ 16" "utf8_bytes val n =
      [utf8_head val 3, utf8_tail val 6,
       utf8_tail val 0]"
  | "n = 4" "unat val < 2 ^ 21" "utf8_bytes val n =
      [utf8_head val 4, utf8_tail val 12,
       utf8_tail val 6, utf8_tail val 0]"
proof -
  have u: "[Suc 0..<2] = [1]" "[Suc 0..<3] = [1, 2]" "[Suc 0..<4] = [1, 2, 3]"
    by (simp_all add: upt_conv_Cons)
  show thesis
    using assms that unfolding utf8_len_def utf8_bytes_def
    by (auto simp: Let_def u word_le_nat_alt split: if_splits)
qed

lemma utf8_decode_bytes:
  assumes "utf8_len val = Some n"
  shows "utf8_decode (Some (utf8_bytes val n @ rest)) (Some r) = (Inr n, Some val)"
  using assms
proof (cases rule: utf8_bytes_cases)
  case 1
  then show ?thesis
    by (simp add: utf8_decode_def utf8_lead_ascii)
next
  case 2
  then show ?thesis
    using utf8_cont_tail [of val 0]
    by (simp add: utf8_decode_def utf8_lead_byte2 del: utf8_cont.simps(2))
next
  case 3
  then show ?thesis
    using utf8_cont_tail [of val 0] utf8_cont_tail [of val 6]
    by (simp add: utf8_decode_def utf8_lead_byte3 numeral_2_eq_2 del: utf8_cont.simps(2))
next
  case 4
  then show ?thesis
    using utf8_cont_tail [of val 0] utf8_cont_tail [of val 6] utf8_cont_tail [of val 12]
    by (simp add: utf8_decode_def utf8_lead_byte4 numeral_3_eq_3 del: utf8_cont.simps(2))
qed

section \<open>The codec on ring buffers\<close>

context ring_buffer
begin

lemma utf8_rbuf_put_fills:
  assumes "rb_fills view ok c r bs" "length bs + 4 \<le> c" "utf8_len val = Some n"
  shows "\<exists>r'. utf8_rbuf_put P val r = (Ok n, r') \<and> rb_fills view ok c r' (bs @ utf8_bytes val n)"
proof -
  have n: "n \<le> 4" "length (utf8_bytes val n) = n"
    using utf8_len_bounds(1) [OF assms(3)] length_utf8_bytes [OF assms(3)] by auto
  obtain r1 ptr junk where c: "rb_put_claim P 4 r = (Ok (4, ptr), r1)" "ptr = length bs mod c" "ok r1"
    "length junk = 4" "view r1 = (view r)\<lparr>r_held := junk\<rparr>"
    using fills_claim [OF assms(1,2)] by metis
  have v: "r_pos (view r) = 0" "r_cap (view r) = c" "r_data (view r) = bs" "r_got (view r) = 0" "ok r"
    using assms(1) by (auto simp: rb_fills_def r_idle_def)
  have ptr: "ptr = length bs" using c(2) assms(2) by simp
  have mem: "p_load P r1 ptr 4 = junk"
    using load [OF c(3), of "length bs" 4 ptr] c v ptr assms(2) by simp
  let ?out = "utf8_bytes val n @ drop n junk"
  have len: "length ?out = 4" using n c(4) by simp
  have st: "ok (p_store P r1 ptr ?out)" "view (p_store P r1 ptr ?out) = (view r)\<lparr>r_held := ?out\<rparr>"
    using store [OF c(3), of "length bs" ?out ptr] c v ptr assms(2) len n
    by (auto simp: r_write_def Let_def)
  let ?r2 = "p_store P r1 ptr ?out" and ?r3 = "snd (p_put_finish P (p_store P r1 ptr ?out) n)"
  have "rb_fills view ok c ?r3 (bs @ utf8_bytes val n)"
    using put_finish [OF st(1), of n] ok_ops(4) [OF st(1), of n] st(2) v n len
    by (auto simp: rb_fills_def r_idle_def)
  moreover have "utf8_rbuf_put P val r = (Ok n, ?r3)"
    using c(1) n c(4)
    by (simp add: utf8_rbuf_put_def rb_load_def mem utf8_encode_def assms(3) rb_store_def rb_put_finish_def
      bindC_simps)
  ultimately show ?thesis by blast
qed

lemma utf8_rbuf_get_reads:
  assumes "rb_reads view ok r (utf8_bytes val n @ rest)" "utf8_len val = Some n"
  shows "\<exists>r'. utf8_rbuf_get P x r = (Ok (n, val), r') \<and> rb_reads view ok r' rest"
proof -
  have n: "n \<le> 4" "length (utf8_bytes val n) = n"
    using utf8_len_bounds(1) [OF assms(2)] length_utf8_bytes [OF assms(2)] by auto
  obtain r1 ptr r2 where
    c: "rb_get_claim P 4 r = (Ok (min 4 (length (utf8_bytes val n @ rest)), ptr), r1)"
    "rb_load P ptr (min 4 (length (utf8_bytes val n @ rest))) r1
      = (Ok (take 4 (utf8_bytes val n @ rest)), r1)"
    "rb_get_finish P n r1 = (Ok 0, r2)" "rb_reads view ok r2 (drop n (utf8_bytes val n @ rest))"
    using reads_claim [OF assms(1), of 4] n
    by (metis length_append le_add1 min.bounded_iff)
  have "take 4 (utf8_bytes val n @ rest) = utf8_bytes val n @ take (4 - n) rest"
    using n by simp
  then have "utf8_decode (Some (take 4 (utf8_bytes val n @ rest))) (Some x) = (Inr n, Some val)"
    by (simp add: utf8_decode_bytes [OF assms(2)])
  then show ?thesis
    using c n by (auto simp: utf8_rbuf_get_def bindC_simps)
qed

lemma fills_reads: "rb_fills view ok c r bs \<Longrightarrow> rb_reads view ok r bs"
  using r_wfD(4) [of r] by (auto simp: rb_fills_def rb_reads_def r_linear_def)

end

section \<open>Properties\<close>

text \<open>
  C26: every Unicode code point survives the codec.  Encoding it into a buffer of at least four
  bytes succeeds with 1 to 4 bytes, keeps the rest of the buffer, and decoding the buffer gives
  the same length and the same code point.
\<close>

theorem utf8_round_trip:
  assumes "val \<le> 0x10ffff" "4 \<le> length buf"
  shows "\<exists>n out. utf8_encode val (Some buf) = (Inr n, Some out) \<and> 1 \<le> n \<and> n \<le> 4
    \<and> length out = length buf \<and> drop n out = drop n buf
    \<and> utf8_decode (Some out) (Some r) = (Inr n, Some val)"
proof -
  obtain n where n: "utf8_len val = Some n"
    using assms(1) utf8_len_bounds(2) [of val] by (metis linorder_not_less option.exhaust)
  then show ?thesis
    using utf8_len_bounds(1) [OF n] length_utf8_bytes [OF n] assms(2)
    by (simp add: utf8_encode_def utf8_decode_bytes)
qed

lemma utf8_round_trip_witness:
  "\<exists>n out. utf8_encode 0x1f600 (Some [0, 0, 0, 0, 7]) = (Inr n, Some out) \<and> 1 \<le> n \<and> n \<le> 4
    \<and> length out = length [0, 0, 0, 0, 7 :: byte] \<and> drop n out = drop n [0, 0, 0, 0, 7]
    \<and> utf8_decode (Some out) (Some 0) = (Inr n, Some 0x1f600)"
  by (rule utf8_round_trip) simp_all

text \<open>
  C27: a code point put on the response ring buffer, after any bytes it already holds and with
  four bytes of room, is appended as 1 to 4 bytes; a request buffer that starts with these bytes
  gives back the code point and exactly the bytes after it.
\<close>

theorem utf8_rbuf_round_trip:
  assumes "ring_buffer P view ok" "rb_fills view ok c r bs" "length bs + 4 \<le> c" "val \<le> 0x10ffff"
  shows "\<exists>n r' enc. utf8_rbuf_put P val r = (Ok n, r') \<and> length enc = n \<and> 1 \<le> n \<and> n \<le> 4
    \<and> rb_fills view ok c r' (bs @ enc)
    \<and> (\<forall>q x rest. rb_reads view ok q (enc @ rest) \<longrightarrow>
        (\<exists>q'. utf8_rbuf_get P x q = (Ok (n, val), q') \<and> rb_reads view ok q' rest))"
proof -
  obtain n where n: "utf8_len val = Some n"
    using assms(4) utf8_len_bounds(2) [of val] by (metis linorder_not_less option.exhaust)
  obtain r' where "utf8_rbuf_put P val r = (Ok n, r')"
    "rb_fills view ok c r' (bs @ utf8_bytes val n)"
    using ring_buffer.utf8_rbuf_put_fills [OF assms(1-3) n] by blast
  then show ?thesis
    using ring_buffer.utf8_rbuf_get_reads [OF assms(1) _ n] utf8_len_bounds(1) [OF n]
      length_utf8_bytes [OF n] by blast
qed

lemma utf8_rbuf_round_trip_witness:
  "\<exists>n r' enc. utf8_rbuf_put (array_platform (\<lambda>_ _. (0, [])) 0) 0x20ac (a_new 8) = (Ok n, r')
    \<and> length enc = n \<and> 1 \<le> n \<and> n \<le> 4 \<and> rb_fills a_view a_ok 8 r' ([] @ enc)
    \<and> (\<forall>q x rest. rb_reads a_view a_ok q (enc @ rest) \<longrightarrow>
        (\<exists>q'. utf8_rbuf_get (array_platform (\<lambda>_ _. (0, [])) 0) x q = (Ok (n, 0x20ac), q')
          \<and> rb_reads a_view a_ok q' rest))"
  by (rule utf8_rbuf_round_trip [OF arr.ring_buffer_axioms]) (simp_all add: rb_fills_def r_idle_def)

text \<open>
  The decoder does not reject overlong forms: the two bytes \<open>0xc0 0x80\<close> decode to zero, whose
  encoding is one byte; and it decodes four-byte forms above the last code point.
\<close>

lemma utf8_decode_overlong:
  "utf8_decode (Some [0xc0, 0x80]) (Some r) = (Inr 2, Some 0)"
  "utf8_encode 0 (Some [0xc0, 0x80]) = (Inr 1, Some [0, 0x80])"
  "utf8_decode (Some [0xf7, 0xbf, 0xbf, 0xbf]) (Some r) = (Inr 4, Some 0x1fffff)"
  by (simp_all add: utf8_decode_def utf8_lead_def utf8_encode_def utf8_len_def utf8_bytes_def)

end
