(* ===== verification/Dap_State.thy ===== *)
theory Dap_State
  imports Utf8
begin

text \<open>
  The state of the debug access port driver (\<open>struct dap_driver\<close> of dap.h), its constants, and
  the pin helpers shared by all command handlers.

  The request and response ring buffers and the trace of platform calls are the fields of
  \<open>bufs\<close>, which the record extends.  The gpio and pinctrl specifications of the C structure are
  the constructors of the type \<open>pin\<close> and \<open>pin_state\<close>.
\<close>

record 'rb dap_driver = "'rb bufs" +
  swo_buf :: 'rb
  swj_port :: byte
  swj_clock :: u32
  swj_delay_ns :: u32
  jtag_count :: byte
  jtag_index :: byte
  jtag_ir_length :: "byte list"
  jtag_ir_before :: "u16 list"
  jtag_ir_after :: "u16 list"
  swd_turnaround_cycles :: byte
  swd_data_phase :: bool
  swo_transport :: byte
  swo_mode :: byte
  swo_baudrate :: u32
  swo_capture :: bool
  swo_error :: bool
  swo_overrun :: bool
  transfer_idle_cycles :: byte
  transfer_wait_retries :: u16
  transfer_match_retries :: u16
  transfer_match_mask :: u32
  led_combined :: bool
  led_connected :: bool
  led_running :: bool
  transport :: "nat option"

type_synonym ('rb, 'a) dap_cmd = "('rb dap_driver, 'a) cmd"

section \<open>Constants\<close>

definition DAP_RING_BUF_SIZE :: nat where "DAP_RING_BUF_SIZE = 2048"
definition DAP_SWO_RING_BUF_SIZE :: nat where "DAP_SWO_RING_BUF_SIZE = 2048"
definition DAP_MAX_PACKET_SIZE :: nat where "DAP_MAX_PACKET_SIZE = 512"
definition DAP_JTAG_MAX_DEVICE_COUNT :: nat where "DAP_JTAG_MAX_DEVICE_COUNT = 4"

definition dap_default_swj_clock_rate :: u32 where "dap_default_swj_clock_rate = 1000000"

definition dap_port_disabled :: byte where "dap_port_disabled = 0"
definition dap_port_jtag :: byte where "dap_port_jtag = 1"
definition dap_port_swd :: byte where "dap_port_swd = 2"

definition dap_cmd_response_ok :: byte where "dap_cmd_response_ok = 0x00"
definition dap_cmd_response_error :: byte where "dap_cmd_response_error = 0xff"

definition dap_cmd_info :: byte where "dap_cmd_info = 0x00"
definition dap_cmd_host_status :: byte where "dap_cmd_host_status = 0x01"
definition dap_cmd_connect :: byte where "dap_cmd_connect = 0x02"
definition dap_cmd_disconnect :: byte where "dap_cmd_disconnect = 0x03"
definition dap_cmd_transfer_configure :: byte where "dap_cmd_transfer_configure = 0x04"
definition dap_cmd_transfer :: byte where "dap_cmd_transfer = 0x05"
definition dap_cmd_transfer_block :: byte where "dap_cmd_transfer_block = 0x06"
definition dap_cmd_transfer_abort :: byte where "dap_cmd_transfer_abort = 0x07"
definition dap_cmd_write_abort :: byte where "dap_cmd_write_abort = 0x08"
definition dap_cmd_delay :: byte where "dap_cmd_delay = 0x09"
definition dap_cmd_reset_target :: byte where "dap_cmd_reset_target = 0x0a"
definition dap_cmd_swj_pins :: byte where "dap_cmd_swj_pins = 0x10"
definition dap_cmd_swj_clock :: byte where "dap_cmd_swj_clock = 0x11"
definition dap_cmd_swj_sequence :: byte where "dap_cmd_swj_sequence = 0x12"
definition dap_cmd_swd_configure :: byte where "dap_cmd_swd_configure = 0x13"
definition dap_cmd_jtag_sequence :: byte where "dap_cmd_jtag_sequence = 0x14"
definition dap_cmd_jtag_configure :: byte where "dap_cmd_jtag_configure = 0x15"
definition dap_cmd_jtag_idcode :: byte where "dap_cmd_jtag_idcode = 0x16"
definition dap_cmd_swo_transport :: byte where "dap_cmd_swo_transport = 0x17"
definition dap_cmd_swo_mode :: byte where "dap_cmd_swo_mode = 0x18"
definition dap_cmd_swo_baudrate :: byte where "dap_cmd_swo_baudrate = 0x19"
definition dap_cmd_swo_control :: byte where "dap_cmd_swo_control = 0x1a"
definition dap_cmd_swo_status :: byte where "dap_cmd_swo_status = 0x1b"
definition dap_cmd_swo_data :: byte where "dap_cmd_swo_data = 0x1c"
definition dap_cmd_swd_sequence :: byte where "dap_cmd_swd_sequence = 0x1d"
definition dap_cmd_swo_extended_status :: byte where "dap_cmd_swo_extended_status = 0x1e"
definition dap_cmd_queue_commands :: byte where "dap_cmd_queue_commands = 0x7e"
definition dap_cmd_execute_commands :: byte where "dap_cmd_execute_commands = 0x7f"

lemmas dap_consts = DAP_RING_BUF_SIZE_def DAP_SWO_RING_BUF_SIZE_def DAP_MAX_PACKET_SIZE_def
  DAP_JTAG_MAX_DEVICE_COUNT_def dap_default_swj_clock_rate_def
  dap_port_disabled_def dap_port_jtag_def dap_port_swd_def
  dap_cmd_response_ok_def dap_cmd_response_error_def

lemmas dap_cmd_ids = dap_cmd_info_def dap_cmd_host_status_def dap_cmd_connect_def
  dap_cmd_disconnect_def dap_cmd_transfer_configure_def dap_cmd_transfer_def
  dap_cmd_transfer_block_def dap_cmd_transfer_abort_def dap_cmd_write_abort_def
  dap_cmd_delay_def dap_cmd_reset_target_def dap_cmd_swj_pins_def dap_cmd_swj_clock_def
  dap_cmd_swj_sequence_def dap_cmd_swd_configure_def dap_cmd_jtag_sequence_def
  dap_cmd_jtag_configure_def dap_cmd_jtag_idcode_def dap_cmd_swo_transport_def
  dap_cmd_swo_mode_def dap_cmd_swo_baudrate_def dap_cmd_swo_control_def dap_cmd_swo_status_def
  dap_cmd_swo_data_def dap_cmd_swd_sequence_def dap_cmd_swo_extended_status_def
  dap_cmd_queue_commands_def dap_cmd_execute_commands_def

section \<open>Pins and the SWO buffer\<close>

definition set_pin :: "'rb platform \<Rightarrow> pin \<Rightarrow> int \<Rightarrow> (('rb, 'z) bufs_scheme, unit) cmd" where
  "set_pin P p v = hwv P (GpioSet p v)"

text \<open>\<open>uint8_t x = gpio_pin_get_dt(...)\<close>: the answer is truncated to a byte.\<close>

definition get_pin :: "'rb platform \<Rightarrow> pin \<Rightarrow> (('rb, 'z) bufs_scheme, byte) cmd" where
  "get_pin P p = bindC (hw P (GpioGet p)) (\<lambda>x. ret (of_int x))"

text \<open>\<open>FATAL_CHECK(gpio_pin_configure_dt(pin, flags) >= 0, ...)\<close>\<close>

definition config_pin :: "'rb platform \<Rightarrow> pin \<Rightarrow> gpio_flag list \<Rightarrow> (('rb, 'z) bufs_scheme, unit) cmd" where
  "config_pin P p flags = bindC (hw P (GpioConfigure p flags)) (\<lambda>r. fatal_check (0 \<le> r))"

definition dap_configure_pin :: "'rb platform \<Rightarrow> pin_state \<Rightarrow> (('rb, 'z) bufs_scheme, int) cmd" where
  "dap_configure_pin P st = hw P (PinctrlConfigure st)"

definition wait_nanos :: "'rb platform \<Rightarrow> ('rb, unit) dap_cmd" where
  "wait_nanos P = bindC (gets swj_delay_ns) (\<lambda>d. hwv P (BusyWaitNanos d))"

definition on_swo :: "('rb, 'a) cmd \<Rightarrow> ('rb, 'a) dap_cmd" where
  "on_swo m = (\<lambda>s. (fst (m (swo_buf s)), s\<lparr>swo_buf := snd (m (swo_buf s))\<rparr>))"

lemma safe_pins [safe_intros]:
  "(\<And>h s. I s \<Longrightarrow> I (s\<lparr>trace := h\<rparr>)) \<Longrightarrow> safe sp I (set_pin P p v)"
  "(\<And>h s. I s \<Longrightarrow> I (s\<lparr>trace := h\<rparr>)) \<Longrightarrow> safe sp I (get_pin P p)"
  "(\<And>h s. I s \<Longrightarrow> I (s\<lparr>trace := h\<rparr>)) \<Longrightarrow> safe sp I (config_pin P p fs)"
  "(\<And>h s. I s \<Longrightarrow> I (s\<lparr>trace := h\<rparr>)) \<Longrightarrow> safe sp I (dap_configure_pin P st)"
  unfolding set_pin_def get_pin_def config_pin_def dap_configure_pin_def
  by (rule safe_intros | assumption)+

lemma safe_wait_nanos [safe_intros]:
  "(\<And>h s. I s \<Longrightarrow> I (s\<lparr>trace := h\<rparr>)) \<Longrightarrow> safe sp I (wait_nanos P)"
  unfolding wait_nanos_def by (rule safe_intros | assumption)+

lemma safe_on_swo [safe_intros]:
  "(\<And>r s. I s \<Longrightarrow> I (s\<lparr>swo_buf := r\<rparr>)) \<Longrightarrow> safe sp (\<lambda>_. True) m \<Longrightarrow> safe sp I (on_swo m)"
  by (auto simp: safe_def on_swo_def)

section \<open>The invariant of the driver\<close>

text \<open>
  What every handler relies on: the port is one of three values, the chain tables have their
  array length and are indexed inside it, the half period is the one of the clock rate, the
  turnaround is 1 to 4 cycles, and SWO capture is only active in UART mode on an SWD port.
\<close>

definition dap_inv :: "'rb dap_driver \<Rightarrow> bool" where
  "dap_inv s \<longleftrightarrow> swj_port s \<in> {dap_port_disabled, dap_port_jtag, dap_port_swd}
     \<and> swj_clock s \<noteq> 0 \<and> swj_delay_ns s = 1000000000 div swj_clock s div 2
     \<and> unat (jtag_count s) \<le> DAP_JTAG_MAX_DEVICE_COUNT
     \<and> unat (jtag_index s) < DAP_JTAG_MAX_DEVICE_COUNT
     \<and> length (jtag_ir_length s) = DAP_JTAG_MAX_DEVICE_COUNT
     \<and> length (jtag_ir_before s) = DAP_JTAG_MAX_DEVICE_COUNT
     \<and> length (jtag_ir_after s) = DAP_JTAG_MAX_DEVICE_COUNT
     \<and> 1 \<le> unat (swd_turnaround_cycles s) \<and> unat (swd_turnaround_cycles s) \<le> 4
     \<and> (swo_capture s \<longrightarrow> swj_port s = dap_port_swd \<and> swo_mode s = 1)"

lemma dap_inv_updates [simp]:
  "dap_inv (s\<lparr>request := r\<rparr>) = dap_inv s" "dap_inv (s\<lparr>response := r\<rparr>) = dap_inv s"
  "dap_inv (s\<lparr>trace := h\<rparr>) = dap_inv s" "dap_inv (s\<lparr>swo_buf := r\<rparr>) = dap_inv s"
  "dap_inv (s\<lparr>swo_error := b\<rparr>) = dap_inv s" "dap_inv (s\<lparr>swo_overrun := b\<rparr>) = dap_inv s"
  "dap_inv (s\<lparr>swo_baudrate := w\<rparr>) = dap_inv s" "dap_inv (s\<lparr>swo_transport := x\<rparr>) = dap_inv s"
  "dap_inv (s\<lparr>transfer_idle_cycles := x\<rparr>) = dap_inv s"
  "dap_inv (s\<lparr>transfer_wait_retries := y\<rparr>) = dap_inv s"
  "dap_inv (s\<lparr>transfer_match_retries := y\<rparr>) = dap_inv s"
  "dap_inv (s\<lparr>transfer_match_mask := w\<rparr>) = dap_inv s"
  "dap_inv (s\<lparr>led_connected := b\<rparr>) = dap_inv s" "dap_inv (s\<lparr>led_running := b\<rparr>) = dap_inv s"
  "dap_inv (s\<lparr>transport := n\<rparr>) = dap_inv s"
  by (simp_all add: dap_inv_def)

lemma dap_inv_tables:
  assumes "dap_inv s"
  shows "unat (jtag_index s) < length (jtag_ir_before s)"
    "unat (jtag_index s) < length (jtag_ir_length s)" "unat (jtag_index s) < length (jtag_ir_after s)"
    "x < jtag_count s \<Longrightarrow> unat x < length (jtag_ir_before s)"
    "x < jtag_count s \<Longrightarrow> unat x < length (jtag_ir_length s)"
    "x < jtag_count s \<Longrightarrow> unat x < length (jtag_ir_after s)"
    "x < jtag_count s \<Longrightarrow> unat x < 4"
  using assms by (auto simp: dap_inv_def word_less_nat_alt DAP_JTAG_MAX_DEVICE_COUNT_def)

text \<open>
  A concrete driver on the circular arrays, for examples: a chain of two devices with instruction
  registers of 4 and 5 bits, SWO in UART mode.
\<close>

definition dap_sample :: "byte \<Rightarrow> aring \<Rightarrow> aring dap_driver" where
  "dap_sample port req = \<lparr>trace = [], request = req, response = a_new 64, swo_buf = a_new 16,
     swj_port = port, swj_clock = 1000000, swj_delay_ns = 500,
     jtag_count = 2, jtag_index = 0, jtag_ir_length = [4, 5, 0, 0],
     jtag_ir_before = [0, 4, 0, 0], jtag_ir_after = [5, 0, 0, 0],
     swd_turnaround_cycles = 1, swd_data_phase = False,
     swo_transport = 0, swo_mode = 1, swo_baudrate = 1000000, swo_capture = False,
     swo_error = False, swo_overrun = False,
     transfer_idle_cycles = 0, transfer_wait_retries = 2, transfer_match_retries = 0,
     transfer_match_mask = 0, led_combined = False, led_connected = False, led_running = False,
     transport = None\<rparr>"

definition a_of :: "byte list \<Rightarrow> aring" where
  "a_of bs = \<lparr>a_mem = bs @ [0, 0, 0, 0], a_pos = 0, a_len = length bs, a_got = 0, a_held = 0\<rparr>"

lemma dap_sample_inv [simp]: "port \<in> {0, 1, 2} \<Longrightarrow> dap_inv (dap_sample port req)"
  by (auto simp: dap_inv_def dap_sample_def dap_consts)

lemma dap_sample_fields [simp]:
  "request (dap_sample port req) = req" "response (dap_sample port req) = a_new 64"
  "swo_buf (dap_sample port req) = a_new 16" "swj_port (dap_sample port req) = port"
  "swj_delay_ns (dap_sample port req) = 500"
  "jtag_count (dap_sample port req) = 2" "jtag_index (dap_sample port req) = 0"
  "jtag_ir_length (dap_sample port req) = [4, 5, 0, 0]"
  "jtag_ir_before (dap_sample port req) = [0, 4, 0, 0]"
  "jtag_ir_after (dap_sample port req) = [5, 0, 0, 0]"
  "swd_turnaround_cycles (dap_sample port req) = 1" "swd_data_phase (dap_sample port req) = False"
  "swo_mode (dap_sample port req) = 1" "swo_capture (dap_sample port req) = False"
  "transfer_idle_cycles (dap_sample port req) = 0" "transfer_wait_retries (dap_sample port req) = 2"
  "transfer_match_retries (dap_sample port req) = 0"
  by (simp_all add: dap_sample_def)

lemma a_of_reads [simp]: "rb_reads a_view a_ok (a_of bs) bs"
proof -
  have "seg (bs @ [0, 0, 0, 0]) 0 (length bs) = bs"
    by (rule nth_equalityI) (auto simp: seg_def nth_append)
  then show ?thesis
    by (simp add: rb_reads_def a_of_def a_ok_def r_idle_def r_linear_def)
qed

lemma a_new_fills [simp]: "0 < n \<Longrightarrow> rb_fills a_view a_ok n (a_new n) []"
  by (simp add: rb_fills_def r_idle_def)

end
