(* ===== verification/Wire.thy ===== *)
theory Wire
  imports Dap_State
begin

text \<open>
  The abstract side of the bit-banged ports: what a target sees.

  The trace of platform calls is read as the levels of the clock, TMS/SWDIO and TDI lines.  Every
  rising clock edge is one \<open>edge\<close>: the levels at that moment, whether the probe drives the data
  line, the value the probe sampled while the clock was low, and how long the clock was low.  A
  JTAG target is the TAP controller of IEEE 1149.1 run over the edges.
\<close>

section \<open>Lines and edges\<close>

datatype edge = Edge (e_tms: bool) (e_tdi: bool) (e_out: bool) (e_in: "(pin \<times> bool) option")
  (e_low: nat)

record wire =
  w_tck :: bool
  w_tms :: bool
  w_tdi :: bool
  w_out :: bool
  w_in :: "(pin \<times> bool) option"
  w_low :: nat

definition drives :: "gpio_flag list \<Rightarrow> bool" where
  "drives fs \<longleftrightarrow> GPIO_OUTPUT \<in> set fs \<or> GPIO_OUTPUT_ACTIVE \<in> set fs \<or> GPIO_OUTPUT_INACTIVE \<in> set fs"

text \<open>The clock is high and nothing is pending: the state between two clock cycles.\<close>

definition hi :: "wire \<Rightarrow> wire" where
  "hi w = w\<lparr>w_tck := True, w_in := None, w_low := 0\<rparr>"

fun wire_step :: "hw_call \<Rightarrow> answer \<Rightarrow> wire \<Rightarrow> wire \<times> edge list" where
  "wire_step (GpioSet TCK_SWCLK v) a w =
     (if v = 0 then (w\<lparr>w_tck := False, w_in := None, w_low := 0\<rparr>, [])
      else (hi w, if w_tck w then []
        else [Edge (w_tms w) (w_tdi w) (w_out w) (w_in w) (w_low w)]))"
| "wire_step (GpioSet TMS_SWDIO v) a w = (w\<lparr>w_tms := v \<noteq> 0\<rparr>, [])"
| "wire_step (GpioSet TDI v) a w = (w\<lparr>w_tdi := v \<noteq> 0\<rparr>, [])"
| "wire_step (GpioGet p) a w =
     (if w_tck w then w else w\<lparr>w_in := Some (p, odd (fst a))\<rparr>, [])"
| "wire_step (BusyWaitNanos d) a w =
     (if w_tck w then w else w\<lparr>w_low := w_low w + unat d\<rparr>, [])"
| "wire_step (GpioConfigure TMS_SWDIO fs) a w =
     (if fst a < 0 then w
      else w\<lparr>w_out := drives fs, w_tms := (w_tms w \<or> GPIO_OUTPUT_ACTIVE \<in> set fs)\<rparr>, [])"
| "wire_step _ a w = (w, [])"

definition wire0 :: wire where
  "wire0 = \<lparr>w_tck = False, w_tms = False, w_tdi = False, w_out = False, w_in = None, w_low = 0\<rparr>"

definition obs :: "hist \<Rightarrow> wire \<times> edge list" where
  "obs h = foldl (\<lambda>(w, es) (c, a). (fst (wire_step c a w), es @ snd (wire_step c a w))) (wire0, []) h"

definition bus :: "('rb, 'z) bufs_scheme \<Rightarrow> wire" where
  "bus s = fst (obs (trace s))"

definition edges :: "('rb, 'z) bufs_scheme \<Rightarrow> edge list" where
  "edges s = snd (obs (trace s))"

lemma bus_updates [simp]:
  "bus (s\<lparr>request := r\<rparr>) = bus s" "bus (s\<lparr>response := r\<rparr>) = bus s"
  "edges (s\<lparr>request := r\<rparr>) = edges s" "edges (s\<lparr>response := r\<rparr>) = edges s"
  by (simp_all add: bus_def edges_def)

lemma bus_dap_updates [simp]:
  "bus (d\<lparr>jtag_index := i\<rparr>) = bus d" "edges (d\<lparr>jtag_index := i\<rparr>) = edges d"
  "bus (d\<lparr>jtag_count := i\<rparr>) = bus d" "edges (d\<lparr>jtag_count := i\<rparr>) = edges d"
  "bus (d\<lparr>transfer_match_mask := m\<rparr>) = bus d" "edges (d\<lparr>transfer_match_mask := m\<rparr>) = edges d"
  by (simp_all add: bus_def edges_def)

text \<open>\<open>t\<close> is \<open>s\<close> after driver calls that made the edges \<open>es\<close> and left the lines as \<open>w\<close>.\<close>

definition moves :: "('rb, 'z) bufs_scheme \<Rightarrow> edge list \<Rightarrow> wire \<Rightarrow> ('rb, 'z) bufs_scheme \<Rightarrow> bool" where
  "moves s es w t \<longleftrightarrow> t = s\<lparr>trace := trace t\<rparr> \<and> edges t = edges s @ es \<and> bus t = w"

lemma wire_update_order [simp]: "w\<lparr>w_tdi := a, w_tms := b\<rparr> = w\<lparr>w_tms := b, w_tdi := a\<rparr>"
  by simp

text \<open>
  The TAP controller of IEEE 1149.1: its sixteen states, the transition on a rising edge of TCK,
  the state after a list of edges, and what happened in the edges taken in one state.
\<close>

datatype tap = TLR | RTI | SelDR | CapDR | ShDR | Ex1DR | PauDR | Ex2DR | UpdDR
  | SelIR | CapIR | ShIR | Ex1IR | PauIR | Ex2IR | UpdIR

fun tap_next :: "tap \<Rightarrow> bool \<Rightarrow> tap" where
  "tap_next TLR tms = (if tms then TLR else RTI)"
| "tap_next RTI tms = (if tms then SelDR else RTI)"
| "tap_next SelDR tms = (if tms then SelIR else CapDR)"
| "tap_next CapDR tms = (if tms then Ex1DR else ShDR)"
| "tap_next ShDR tms = (if tms then Ex1DR else ShDR)"
| "tap_next Ex1DR tms = (if tms then UpdDR else PauDR)"
| "tap_next PauDR tms = (if tms then Ex2DR else PauDR)"
| "tap_next Ex2DR tms = (if tms then UpdDR else ShDR)"
| "tap_next UpdDR tms = (if tms then SelDR else RTI)"
| "tap_next SelIR tms = (if tms then TLR else CapIR)"
| "tap_next CapIR tms = (if tms then Ex1IR else ShIR)"
| "tap_next ShIR tms = (if tms then Ex1IR else ShIR)"
| "tap_next Ex1IR tms = (if tms then UpdIR else PauIR)"
| "tap_next PauIR tms = (if tms then Ex2IR else PauIR)"
| "tap_next Ex2IR tms = (if tms then UpdIR else ShIR)"
| "tap_next UpdIR tms = (if tms then SelDR else RTI)"

fun tap_run :: "tap \<Rightarrow> edge list \<Rightarrow> tap" where
  "tap_run t [] = t"
| "tap_run t (e # es) = tap_run (tap_next t (e_tms e)) es"

fun scan :: "tap \<Rightarrow> (edge \<Rightarrow> 'a) \<Rightarrow> tap \<Rightarrow> edge list \<Rightarrow> 'a list" where
  "scan st f t [] = []"
| "scan st f t (e # es) = (if t = st then [f e] else []) @ scan st f (tap_next t (e_tms e)) es"

lemma tap_run_append [simp]: "tap_run t (xs @ ys) = tap_run (tap_run t xs) ys"
  by (induction t xs rule: tap_run.induct) simp_all

lemma scan_append [simp]: "scan st f t (xs @ ys) = scan st f t xs @ scan st f (tap_run t xs) ys"
  by (induction t xs rule: tap_run.induct) simp_all

lemma scan_stay:
  "tap_next t False = t \<Longrightarrow> \<forall>e\<in>set es. \<not> e_tms e \<Longrightarrow>
   tap_run t es = t \<and> scan st f t es = (if t = st then map f es else [])"
  by (induction es) auto

lemma tap_stay [simp]:
  assumes "tap_next t False = t"
  shows "tap_run t (map (\<lambda>b. Edge False (h b) (g b) (k b) (l b)) bs) = t"
    "tap_run t (replicate n (Edge False x y z v)) = t"
    "scan st f t (map (\<lambda>b. Edge False (h b) (g b) (k b) (l b)) bs) =
      (if t = st then map (\<lambda>b. f (Edge False (h b) (g b) (k b) (l b))) bs else [])"
    "scan st f t (replicate n (Edge False x y z v)) =
      (if t = st then replicate n (f (Edge False x y z v)) else [])"
  using scan_stay [OF assms, of "map (\<lambda>b. Edge False (h b) (g b) (k b) (l b)) bs" st f]
    scan_stay [OF assms, of "replicate n (Edge False x y z v)" st f]
  by (auto simp: comp_def)

lemma hi_simps [simp]:
  "hi (hi w) = hi w" "w_tck (hi w)" "w_tms (hi w) = w_tms w" "w_tdi (hi w) = w_tdi w"
  "w_out (hi w) = w_out w" "w_in (hi w) = None" "w_low (hi w) = 0"
  "hi (w\<lparr>w_tms := b\<rparr>) = (hi w)\<lparr>w_tms := b\<rparr>" "hi (w\<lparr>w_tdi := b\<rparr>) = (hi w)\<lparr>w_tdi := b\<rparr>"
  "hi (w\<lparr>w_out := b\<rparr>) = (hi w)\<lparr>w_out := b\<rparr>"
  "hi (w\<lparr>w_tck := b\<rparr>) = hi w" "hi (w\<lparr>w_in := i\<rparr>) = hi w" "hi (w\<lparr>w_low := n\<rparr>) = hi w"
  by (simp_all add: hi_def)

lemma moves_refl [simp]: "moves s [] w s \<longleftrightarrow> w = bus s"
  by (auto simp: moves_def)

lemma traced_trans: "t = s\<lparr>trace := h\<rparr> \<Longrightarrow> u = t\<lparr>trace := k\<rparr> \<Longrightarrow> u = s\<lparr>trace := k\<rparr>"
  by simp

lemma moves_trans: "moves s es w t \<Longrightarrow> moves t fs v u \<Longrightarrow> moves s (es @ fs) v u"
  unfolding moves_def by (metis append.assoc traced_trans)

lemma moves_bus: "moves s es w t \<Longrightarrow> bus t = w"
  by (simp add: moves_def)

lemma moves_call:
  "moves s (snd (wire_step c a (bus s))) (fst (wire_step c a (bus s)))
     (s\<lparr>trace := trace s @ [(c, a)]\<rparr>)"
  by (simp add: moves_def bus_def edges_def obs_def split: prod.splits)

lemma moves_edges: "moves s es w t \<Longrightarrow> edges t = edges s @ es"
  by (simp add: moves_def)

text \<open>The rest of the driver state is untouched.\<close>

lemma bufs_trace:
  "request (s\<lparr>trace := h\<rparr>) = request s" "response (s\<lparr>trace := h\<rparr>) = response s"
  "bufs.more (s\<lparr>trace := h\<rparr>) = bufs.more s"
  by (cases s; simp)+

lemma moves_frame:
  assumes "moves s es w t"
  shows "request t = request s" "response t = response s" "bufs.more t = bufs.more s"
proof -
  obtain h where t: "t = s\<lparr>trace := h\<rparr>" using assms unfolding moves_def by blast
  show "request t = request s" "response t = response s" "bufs.more t = bufs.more s"
    unfolding t by (rule bufs_trace)+
qed

lemma moves_fields:
  assumes "moves (s :: 'rb dap_driver) es w t"
  shows "swj_port t = swj_port s" "swj_delay_ns t = swj_delay_ns s" "jtag_count t = jtag_count s"
    "jtag_index t = jtag_index s" "jtag_ir_length t = jtag_ir_length s"
    "jtag_ir_before t = jtag_ir_before s" "jtag_ir_after t = jtag_ir_after s"
    "swd_turnaround_cycles t = swd_turnaround_cycles s" "swd_data_phase t = swd_data_phase s"
    "transfer_idle_cycles t = transfer_idle_cycles s"
    "transfer_wait_retries t = transfer_wait_retries s"
    "transfer_match_retries t = transfer_match_retries s"
    "transfer_match_mask t = transfer_match_mask s" "dap_inv t = dap_inv s"
proof -
  have t: "t = s\<lparr>trace := trace t\<rparr>" using assms by (simp add: moves_def)
  show "swj_port t = swj_port s" "swj_delay_ns t = swj_delay_ns s" "jtag_count t = jtag_count s"
    "jtag_index t = jtag_index s" "jtag_ir_length t = jtag_ir_length s"
    "jtag_ir_before t = jtag_ir_before s" "jtag_ir_after t = jtag_ir_after s"
    "swd_turnaround_cycles t = swd_turnaround_cycles s" "swd_data_phase t = swd_data_phase s"
    "transfer_idle_cycles t = transfer_idle_cycles s"
    "transfer_wait_retries t = transfer_wait_retries s"
    "transfer_match_retries t = transfer_match_retries s"
    "transfer_match_mask t = transfer_match_mask s" "dap_inv t = dap_inv s"
    by (subst t, simp)+
qed

section \<open>Commands that only move the lines\<close>

text \<open>
  \<open>drv m s R\<close>: from \<open>s\<close>, \<open>m\<close> returns a value \<open>v\<close>, makes edges \<open>es\<close>, leaves the lines \<open>w\<close>, changes
  nothing but the trace, and \<open>R v es w\<close>.
\<close>

definition drv :: "(('rb, 'z) bufs_scheme, 'a) cmd \<Rightarrow> ('rb, 'z) bufs_scheme
    \<Rightarrow> ('a \<Rightarrow> edge list \<Rightarrow> wire \<Rightarrow> bool) \<Rightarrow> bool" where
  "drv m s R \<longleftrightarrow> (\<exists>v t es w. m s = (Ok v, t) \<and> moves s es w t \<and> R v es w)"

lemma drv_ret [simp]: "drv (ret a) s R \<longleftrightarrow> R a [] (bus s)"
  by (auto simp: drv_def moves_def)

lemma drv_gets [simp]: "drv (gets f) s R \<longleftrightarrow> R (f s) [] (bus s)"
  by (auto simp: drv_def moves_def)

lemma drv_bindC:
  assumes "drv m s S"
    and "\<And>v es w t. S v es w \<Longrightarrow> moves s es w t \<Longrightarrow> bus t = w \<Longrightarrow>
      drv (k v) t (\<lambda>v' fs w'. R v' (es @ fs) w')"
  shows "drv (bindC m k) s R"
proof -
  obtain v t es w where m: "m s = (Ok v, t)" "moves s es w t" "S v es w"
    using assms(1) by (auto simp: drv_def)
  then have "drv (k v) t (\<lambda>v' fs w'. R v' (es @ fs) w')"
    by (intro assms(2)) (auto simp: moves_bus)
  then obtain v' u fs w' where "k v t = (Ok v', u)" "moves t fs w' u" "R v' (es @ fs) w'"
    by (auto simp: drv_def)
  with m show ?thesis
    unfolding drv_def by (metis bindC_simps(1) moves_trans)
qed

lemma drv_mono: "drv m s R \<Longrightarrow> (\<And>v es w. R v es w \<Longrightarrow> S v es w) \<Longrightarrow> drv m s S"
  by (force simp: drv_def)

lemma drv_hw_full:
  "drv (hw_full P c) s (\<lambda>a es w. a = p_hw P (trace s) c
     \<and> w = fst (wire_step c a (bus s)) \<and> es = snd (wire_step c a (bus s)))"
  using moves_call [of s c "p_hw P (trace s) c"] by (auto simp: drv_def hw_full_def)

lemma drv_hwv:
  "(\<And>a. R () (snd (wire_step c a (bus s))) (fst (wire_step c a (bus s)))) \<Longrightarrow> drv (hwv P c) s R"
  unfolding hwv_def by (rule drv_bindC [OF drv_hw_full]) simp

text \<open>What the port drivers do to the lines, call by call.\<close>

lemma drv_tck_low:
  "drv (set_pin P TCK_SWCLK 0) s
     (\<lambda>_ es w. es = [] \<and> w = (bus s)\<lparr>w_tck := False, w_in := None, w_low := 0\<rparr>)"
  unfolding set_pin_def by (rule drv_hwv) simp

lemma drv_tck_high:
  "\<not> w_tck (bus s) \<Longrightarrow> drv (set_pin P TCK_SWCLK 1) s
     (\<lambda>_ es w. w = hi (bus s) \<and> es = [Edge (w_tms (bus s)) (w_tdi (bus s)) (w_out (bus s))
        (w_in (bus s)) (w_low (bus s))])"
  unfolding set_pin_def by (rule drv_hwv) simp

lemma drv_data:
  "drv (set_pin P TMS_SWDIO v) s (\<lambda>_ es w. es = [] \<and> w = (bus s)\<lparr>w_tms := v \<noteq> 0\<rparr>)"
  "drv (set_pin P TDI v) s (\<lambda>_ es w. es = [] \<and> w = (bus s)\<lparr>w_tdi := v \<noteq> 0\<rparr>)"
  unfolding set_pin_def by (rule drv_hwv, simp)+

lemma drv_get_pin:
  "drv (get_pin P p) s (\<lambda>b es w. es = [] \<and>
     w = (if w_tck (bus s) then bus s else (bus s)\<lparr>w_in := Some (p, odd b)\<rparr>))"
proof -
  have "odd (of_int x :: byte) \<longleftrightarrow> odd x" for x :: int
    using bit_word_of_int_iff [of x 0, where 'a = 8] by (simp add: bit_0)
  note this [simp]
  show ?thesis
    unfolding get_pin_def hw_def bindC_assoc
    by (rule drv_bindC [OF drv_hw_full]) simp
qed

lemma drv_wait:
  "drv (wait_nanos P) s (\<lambda>_ es w. es = [] \<and> w = (if w_tck (bus s) then bus s
     else (bus s)\<lparr>w_low := w_low (bus s) + unat (swj_delay_ns s)\<rparr>))"
  unfolding wait_nanos_def
  by (rule drv_bindC [where S = "\<lambda>d es w. d = swj_delay_ns s \<and> es = [] \<and> w = bus s"], simp)
     (rule drv_hwv, auto)

section \<open>Stepping through the lines\<close>

text \<open>
  \<open>line d m w R\<close>: in every state that is \<open>d\<close> up to the trace and whose lines are \<open>w\<close>, the command
  \<open>m\<close> does \<open>R\<close>.  The driver state \<open>d\<close> and the lines are values here, so a long sequence of cycles
  is gone through one call at a time by rewriting.
\<close>

definition line :: "'rb dap_driver \<Rightarrow> ('rb, 'a) dap_cmd \<Rightarrow> wire
    \<Rightarrow> ('a \<Rightarrow> edge list \<Rightarrow> wire \<Rightarrow> bool) \<Rightarrow> bool" where
  "line d m w R \<longleftrightarrow> (\<forall>s. s = d\<lparr>trace := trace s\<rparr> \<longrightarrow> bus s = w \<longrightarrow> drv m s R)"

named_theorems line_intros \<open>what a command does to the lines\<close>

lemma same_fields:
  assumes "s = (d :: 'rb dap_driver)\<lparr>trace := trace s\<rparr>"
  shows "swj_delay_ns s = swj_delay_ns d"
  by (subst assms) simp

lemma lineI:
  "(\<And>s. s = d\<lparr>trace := trace s\<rparr> \<Longrightarrow> bus s = w \<Longrightarrow> swj_delay_ns s = swj_delay_ns d \<Longrightarrow> drv m s R) \<Longrightarrow>
   line d m w R"
  unfolding line_def using same_fields by blast

lemma lineD: "line s m (bus s) R \<Longrightarrow> drv m s R"
  by (simp add: line_def)

lemma line_ret [line_intros]: "R a [] w \<Longrightarrow> line d (ret a) w R"
  by (rule lineI) simp

lemma line_gets [line_intros]:
  assumes "\<And>h. f (d\<lparr>trace := h\<rparr>) = f d" "R (f d) [] w"
  shows "line d (gets f) w R"
proof (rule lineI)
  fix s assume s: "s = d\<lparr>trace := trace s\<rparr>" "bus s = w"
  have "f s = f d" by (subst s(1)) (rule assms(1))
  then show "drv (gets f) s R" using assms(2) s(2) by simp
qed

lemma line_bindC:
  assumes "line d m w (\<lambda>v es w'. line d (k v) w' (\<lambda>v' fs w''. R v' (es @ fs) w''))"
  shows "line d (bindC m k) w R"
proof (rule lineI)
  let ?S = "\<lambda>v es w'. line d (k v) w' (\<lambda>v' fs w''. R v' (es @ fs) w'')"
  fix s assume s: "s = d\<lparr>trace := trace s\<rparr>" "bus s = w"
  have "drv m s ?S" using assms(1) s unfolding line_def by blast
  then show "drv (bindC m k) s R"
  proof (rule drv_bindC)
    fix v es w' t assume t: "?S v es w'" "moves s es w' t" "bus t = w'"
    have "t = s\<lparr>trace := trace t\<rparr>" using t(2) by (simp add: moves_def)
    then have "t = d\<lparr>trace := trace t\<rparr>" by (subst (asm) s(1)) simp
    then show "drv (k v) t (\<lambda>v' fs w''. R v' (es @ fs) w'')"
      using t(1,3) unfolding line_def by blast
  qed
qed

lemma line_mono: "line d m w S \<Longrightarrow> (\<And>v es w'. S v es w' \<Longrightarrow> R v es w') \<Longrightarrow> line d m w R"
  unfolding line_def using drv_mono by metis

lemma line_if: "(b \<Longrightarrow> line d m w R) \<Longrightarrow> (\<not> b \<Longrightarrow> line d n w R) \<Longrightarrow> line d (if b then m else n) w R"
  by simp

lemma line_array_get: "i < length xs \<Longrightarrow> R (xs ! i) [] w \<Longrightarrow> line d (array_get xs i) w R"
  by (simp add: array_get_def line_ret)

lemma line_data:
  "R () [] (w\<lparr>w_tms := v \<noteq> 0\<rparr>) \<Longrightarrow> line d (set_pin P TMS_SWDIO v) w R"
  "R () [] (w\<lparr>w_tdi := v \<noteq> 0\<rparr>) \<Longrightarrow> line d (set_pin P TDI v) w R"
  by (rule lineI, rule drv_mono, rule drv_data, simp)+

lemma line_tck_low:
  "R () [] (w\<lparr>w_tck := False, w_in := None, w_low := 0\<rparr>) \<Longrightarrow> line d (set_pin P TCK_SWCLK 0) w R"
  by (rule lineI, rule drv_mono, rule drv_tck_low) simp

lemma line_tck_high:
  "\<not> w_tck w \<Longrightarrow> R () [Edge (w_tms w) (w_tdi w) (w_out w) (w_in w) (w_low w)] (hi w) \<Longrightarrow>
   line d (set_pin P TCK_SWCLK 1) w R"
  by (rule lineI, rule drv_mono, rule drv_tck_high) auto

lemma line_get_pin:
  "(\<And>x. R x [] (if w_tck w then w else w\<lparr>w_in := Some (p, odd x)\<rparr>)) \<Longrightarrow> line d (get_pin P p) w R"
  by (rule lineI, rule drv_mono, rule drv_get_pin) auto

lemma line_wait:
  "R () [] (if w_tck w then w else w\<lparr>w_low := w_low w + unat (swj_delay_ns d)\<rparr>) \<Longrightarrow>
   line d (wait_nanos P) w R"
  by (rule lineI, rule drv_mono, rule drv_wait) (simp split: if_splits)

text \<open>A line command inside a handler.\<close>

lemma runs_line:
  assumes "line s m (bus s) (\<lambda>v es w. \<forall>t. moves s es w t \<longrightarrow> Q (Ok v) t)"
  shows "runs m s Q"
  using lineD [OF assms] by (auto simp: drv_def runs_def)

text \<open>
  A handler that only reads its request, appends to its response and moves the lines.
\<close>

definition io_frame :: "'rb dap_driver \<Rightarrow> 'rb dap_driver \<Rightarrow> bool" where
  "io_frame s t \<longleftrightarrow> t = s\<lparr>request := request t, response := response t, trace := trace t\<rparr>"

lemma io_frame_refl [simp]: "io_frame s s"
  by (simp add: io_frame_def)

lemma io_frame_more: "io_frame s t \<longleftrightarrow> bufs.more t = bufs.more s"
  by (cases s; cases t) (auto simp: io_frame_def)

lemma io_frame_trans: "io_frame s t \<Longrightarrow> io_frame t u \<Longrightarrow> io_frame s u"
  by (simp add: io_frame_more)

lemma io_frame_updates [simp]:
  "io_frame s (t\<lparr>request := r\<rparr>) = io_frame s t" "io_frame s (t\<lparr>response := r\<rparr>) = io_frame s t"
  "io_frame (s\<lparr>request := r\<rparr>) t = io_frame s t" "io_frame (s\<lparr>response := r\<rparr>) t = io_frame s t"
  by (simp_all add: io_frame_more)

lemma moves_io_frame: "moves s es w t \<Longrightarrow> io_frame s t"
  by (simp add: io_frame_more moves_frame)

lemma io_frame_fields:
  assumes "io_frame s t"
  shows "swj_port t = swj_port s" "swj_delay_ns t = swj_delay_ns s" "jtag_count t = jtag_count s"
    "jtag_index t = jtag_index s" "transfer_wait_retries t = transfer_wait_retries s"
    "dap_inv t = dap_inv s"
proof -
  have t: "t = s\<lparr>request := request t, response := response t, trace := trace t\<rparr>"
    using assms by (simp add: io_frame_def)
  show "swj_port t = swj_port s" "swj_delay_ns t = swj_delay_ns s" "jtag_count t = jtag_count s"
    "jtag_index t = jtag_index s" "transfer_wait_retries t = transfer_wait_retries s"
    "dap_inv t = dap_inv s"
    by (subst t, simp)+
qed

end
