(* ===== verification/Jtag.thy ===== *)
theory Jtag
  imports Wire
begin

text \<open>
  The JTAG port (commands_jtag.c): single clock cycles, the instruction register scan, and the
  handlers of the JTAG commands.
\<close>

section \<open>Clock cycles\<close>

definition jtag_tck_cycle :: "'rb platform \<Rightarrow> ('rb, unit) dap_cmd" where
  "jtag_tck_cycle P =
     bindC (set_pin P TCK_SWCLK 0) (\<lambda>_.
     bindC (wait_nanos P) (\<lambda>_.
     bindC (set_pin P TCK_SWCLK 1) (\<lambda>_.
     wait_nanos P)))"

definition jtag_tdi_cycle :: "'rb platform \<Rightarrow> byte \<Rightarrow> ('rb, unit) dap_cmd" where
  "jtag_tdi_cycle P tdi =
     bindC (set_pin P TDI (uint (tdi AND 0x01))) (\<lambda>_.
     bindC (set_pin P TCK_SWCLK 0) (\<lambda>_.
     bindC (wait_nanos P) (\<lambda>_.
     bindC (set_pin P TCK_SWCLK 1) (\<lambda>_.
     wait_nanos P))))"

definition jtag_tdo_cycle :: "'rb platform \<Rightarrow> ('rb, byte) dap_cmd" where
  "jtag_tdo_cycle P =
     bindC (set_pin P TCK_SWCLK 0) (\<lambda>_.
     bindC (wait_nanos P) (\<lambda>_.
     bindC (get_pin P TDO) (\<lambda>tdo.
     bindC (set_pin P TCK_SWCLK 1) (\<lambda>_.
     bindC (wait_nanos P) (\<lambda>_.
     ret (tdo AND 0x01))))))"

definition jtag_tdio_cycle :: "'rb platform \<Rightarrow> byte \<Rightarrow> ('rb, byte) dap_cmd" where
  "jtag_tdio_cycle P tdi =
     bindC (set_pin P TDI (uint (tdi AND 0x01))) (\<lambda>_.
     bindC (set_pin P TCK_SWCLK 0) (\<lambda>_.
     bindC (wait_nanos P) (\<lambda>_.
     bindC (get_pin P TDO) (\<lambda>tdo.
     bindC (set_pin P TCK_SWCLK 1) (\<lambda>_.
     bindC (wait_nanos P) (\<lambda>_.
     ret (tdo AND 0x01)))))))"

text \<open>
  The loops that shift bits out (\<open>jtag_tdi_cycle(dap, ir); ir >>= 1\<close>) and in
  (\<open>dr |= jtag_tdo_cycle(dap) << i\<close>).
\<close>

fun jtag_shift_out :: "'rb platform \<Rightarrow> nat \<Rightarrow> u32 \<Rightarrow> ('rb, u32) dap_cmd" where
  "jtag_shift_out P 0 ir = ret ir"
| "jtag_shift_out P (Suc n) ir =
     bindC (jtag_tdi_cycle P (ucast ir)) (\<lambda>_. jtag_shift_out P n (drop_bit 1 ir))"

fun jtag_shift_in :: "'rb platform \<Rightarrow> nat \<Rightarrow> nat \<Rightarrow> u32 \<Rightarrow> ('rb, u32) dap_cmd" where
  "jtag_shift_in P i 0 dr = ret dr"
| "jtag_shift_in P i (Suc n) dr =
     bindC (jtag_tdo_cycle P) (\<lambda>b. jtag_shift_in P (Suc i) n (dr OR push_bit i (ucast b)))"

section \<open>Instruction register scan\<close>

definition jtag_set_ir :: "'rb platform \<Rightarrow> u32 \<Rightarrow> ('rb, unit) dap_cmd" where
  "jtag_set_ir P ir =
     bindC (set_pin P TMS_SWDIO 1) (\<lambda>_.
     bindC (jtag_tck_cycle P) (\<lambda>_.
     bindC (jtag_tck_cycle P) (\<lambda>_.
     bindC (set_pin P TMS_SWDIO 0) (\<lambda>_.
     bindC (jtag_tck_cycle P) (\<lambda>_.
     bindC (jtag_tck_cycle P) (\<lambda>_.
     bindC (set_pin P TDI 1) (\<lambda>_.
     bindC (gets jtag_index) (\<lambda>index.
     bindC (gets jtag_ir_before) (\<lambda>ir_before.
     bindC (array_get ir_before (unat index)) (\<lambda>before.
     bindC (repeat (unat before) (jtag_tck_cycle P)) (\<lambda>_.
     bindC (gets jtag_ir_length) (\<lambda>ir_length.
     bindC (array_get ir_length (unat index)) (\<lambda>len.
     bindC (jtag_shift_out P (unat len - 1) ir) (\<lambda>ir.
     bindC (gets jtag_ir_after) (\<lambda>ir_after.
     bindC (array_get ir_after (unat index)) (\<lambda>after.
     bindC (if after = 0
            then bindC (set_pin P TMS_SWDIO 1) (\<lambda>_. jtag_tdi_cycle P (ucast ir))
            else bindC (jtag_tdi_cycle P (ucast ir)) (\<lambda>_.
                 bindC (set_pin P TDI 1) (\<lambda>_.
                 bindC (repeat (unat after - 1) (jtag_tck_cycle P)) (\<lambda>_.
                 bindC (set_pin P TMS_SWDIO 1) (\<lambda>_.
                 jtag_tck_cycle P))))) (\<lambda>_.
     bindC (jtag_tck_cycle P) (\<lambda>_.
     bindC (set_pin P TMS_SWDIO 0) (\<lambda>_.
     bindC (jtag_tck_cycle P) (\<lambda>_.
     set_pin P TDI 1))))))))))))))))))))"

section \<open>The cycles on the wire\<close>

text \<open>An edge in which the probe does not sample TDO, and one in which it does.\<close>

abbreviation tck :: "wire \<Rightarrow> nat \<Rightarrow> bool \<Rightarrow> bool \<Rightarrow> edge" where
  "tck w d tms tdi \<equiv> Edge tms tdi (w_out w) None d"

abbreviation tck_in :: "wire \<Rightarrow> nat \<Rightarrow> bool \<Rightarrow> bool \<Rightarrow> bool \<Rightarrow> edge" where
  "tck_in w d tms tdi b \<equiv> Edge tms tdi (w_out w) (Some (TDO, b)) d"

abbreviation half :: "'rb dap_driver \<Rightarrow> nat" where
  "half s \<equiv> unat (swj_delay_ns s)"

lemma line_jtag_tck_cycle:
  "R () [tck w (half d) (w_tms w) (w_tdi w)] (hi w) \<Longrightarrow> line d (jtag_tck_cycle P) w R"
  unfolding jtag_tck_cycle_def
  by (rule line_bindC line_tck_low line_tck_high line_wait | simp)+

lemma and_1_of_bool: "(b :: byte) AND 1 = of_bool (odd b)"
  by (simp add: and_one_eq odd_iff_mod_2_eq_one)

lemma odd_and_1: "(uint ((b :: byte) AND 1) \<noteq> 0) = odd b"
  unfolding and_1_of_bool by simp

lemma line_jtag_tdi_cycle:
  "R () [tck w (half d) (w_tms w) (odd b)] (hi w\<lparr>w_tdi := odd b\<rparr>) \<Longrightarrow>
   line d (jtag_tdi_cycle P b) w R"
  unfolding jtag_tdi_cycle_def
  by (rule line_bindC line_data line_tck_low line_tck_high line_wait | simp add: odd_and_1)+

lemma line_jtag_tdo_cycle:
  "(\<And>b. R (of_bool b) [tck_in w (half d) (w_tms w) (w_tdi w) b] (hi w)) \<Longrightarrow>
   line d (jtag_tdo_cycle P) w R"
  unfolding jtag_tdo_cycle_def
  by (rule line_bindC line_tck_low line_tck_high line_wait line_get_pin line_ret
    | simp add: and_1_of_bool)+

lemma line_jtag_tdio_cycle:
  "(\<And>b. R (of_bool b) [tck_in w (half d) (w_tms w) (odd x) b] (hi w\<lparr>w_tdi := odd x\<rparr>)) \<Longrightarrow>
   line d (jtag_tdio_cycle P x) w R"
  unfolding jtag_tdio_cycle_def jtag_tdo_cycle_def [symmetric]
  by (rule line_bindC, rule line_data, rule line_jtag_tdo_cycle) (simp add: odd_and_1)

text \<open>The loops run between clock cycles, when the clock is high: \<open>hi w = w\<close>.\<close>

lemma line_repeat_tck:
  "hi w = w \<Longrightarrow> R () (replicate n (tck w (half d) (w_tms w) (w_tdi w))) w \<Longrightarrow>
   line d (repeat n (jtag_tck_cycle P)) w R"
proof (induction n arbitrary: R)
  case (Suc n)
  show ?case
    unfolding repeat.simps
    by (rule line_bindC, rule line_jtag_tck_cycle, unfold Suc.prems(1), rule Suc.IH)
       (use Suc.prems in simp_all)
qed (simp add: line_ret)

lemma odd_ucast: "odd (ucast (w :: u32) :: byte) = odd w"
  by (simp add: bit_simps flip: bit_0)

lemma hi_update: "hi w = w \<Longrightarrow> hi (w\<lparr>w_tdi := b\<rparr>) = w\<lparr>w_tdi := b\<rparr>"
  by simp

lemma line_jtag_shift_out:
  "hi w = w \<Longrightarrow> R (drop_bit n x) (map (tck w (half d) (w_tms w)) (bits_lsb n x))
     (w\<lparr>w_tdi := if n = 0 then w_tdi w else bit x (n - 1)\<rparr>) \<Longrightarrow>
   line d (jtag_shift_out P n x) w R"
proof (induction n arbitrary: x w R)
  case (Suc n)
  show ?case
    unfolding jtag_shift_out.simps
    by (rule line_bindC, rule line_jtag_tdi_cycle, rule Suc.IH, simp add: Suc.prems, cases n)
       (use Suc.prems in \<open>simp_all add: bits_lsb_Suc odd_ucast bit_0 drop_bit_drop_bit bit_simps\<close>)
qed (simp add: line_ret)

lemma line_jtag_shift_in:
  "hi w = w \<Longrightarrow> (\<And>bs. length bs = n \<Longrightarrow> R (x OR push_bit i (word_of_bits bs))
     (map (tck_in w (half d) (w_tms w) (w_tdi w)) bs) w) \<Longrightarrow>
   line d (jtag_shift_in P i n x) w R"
proof (induction n arbitrary: i x R)
  case (Suc n)
  show ?case
    unfolding jtag_shift_in.simps
  proof (rule line_bindC, rule line_jtag_tdo_cycle, unfold Suc.prems(1), rule Suc.IH, goal_cases)
    case (2 b bs)
    have "push_bit i (word_of_bits (b # bs) :: u32)
        = push_bit i (ucast (of_bool b :: byte)) OR push_bit (Suc i) (word_of_bits bs)"
      by (rule bit_word_eqI) (auto simp: bit_simps word_of_bits_Cons)
    then show ?case
      using Suc.prems(2) [of "b # bs"] 2 by (auto simp: or.assoc)
  qed (rule Suc.prems(1))
qed (simp add: line_ret)

lemmas line_jtag = line_bindC line_jtag_tck_cycle line_repeat_tck line_jtag_tdi_cycle
  line_jtag_shift_out line_data

section \<open>The instruction register scan on the wire\<close>

definition ir_edges :: "wire \<Rightarrow> nat \<Rightarrow> nat \<Rightarrow> nat \<Rightarrow> nat \<Rightarrow> u32 \<Rightarrow> edge list" where
  "ir_edges w d before len after ir =
     (let e = tck w d; x = w_tdi w; y = (if after = 0 then bit ir (len - 1) else True)
      in [e True x, e True x, e False x, e False x]
         @ replicate before (e False True)
         @ map (e False) (bits_lsb (len - 1) ir)
         @ (if after = 0 then [e True (bit ir (len - 1))]
            else e False (bit ir (len - 1)) # replicate (after - 1) (e False True) @ [e True True])
         @ [e True y, e False y])"

lemma line_jtag_set_ir:
  fixes d :: "'rb dap_driver"
  defines "i \<equiv> unat (jtag_index d)"
  assumes "i < length (jtag_ir_before d)" "i < length (jtag_ir_length d)" "i < length (jtag_ir_after d)"
    and "R () (ir_edges w (half d) (unat (jtag_ir_before d ! i)) (unat (jtag_ir_length d ! i))
      (unat (jtag_ir_after d ! i)) ir) (hi w\<lparr>w_tms := False, w_tdi := True\<rparr>)"
  shows "line d (jtag_set_ir P ir) w R"
proof -
  note i = assms(2-4) [unfolded i_def]
  note fin = ir_edges_def i_def Let_def odd_ucast bit_iff_odd_drop_bit unsigned_eq_0_iff
  note R = assms(5)
  show ?thesis
  proof (cases "jtag_ir_after d ! i = 0")
    case True
    note c = True [unfolded i_def]
    from R True show ?thesis
      unfolding jtag_set_ir_def
      by - (rule line_jtag line_gets line_array_get line_if
        | (simp add: i c; fail) | simp add: fin i)+
  next
    case False
    note c = False [unfolded i_def]
    from R False show ?thesis
      unfolding jtag_set_ir_def
      by - (rule line_jtag line_gets line_array_get line_if
        | (simp add: i c; fail) | simp add: fin i)+
  qed
qed

text \<open>The same edges as the TAP controllers see them.\<close>

lemma ir_edges_tap:
  fixes n :: byte
  assumes "n \<noteq> 0"
  shows "tap_run RTI (ir_edges w d b (unat n) a x) = RTI"
    "scan ShDR f RTI (ir_edges w d b (unat n) a x) = []"
    "scan ShIR e_tdi RTI (ir_edges w d b (unat n) a x) =
       replicate b True @ bits_lsb (unat n) x @ replicate a True"
    "length (scan UpdIR f RTI (ir_edges w d b (unat n) a x)) = 1"
    "\<forall>e\<in>set (ir_edges w d b (unat n) a x). e_low e = d"
proof -
  obtain m where m: "unat n = Suc m"
    using assms by (metis unsigned_eq_0_iff not0_implies_Suc)
  have last: "bits_lsb (Suc m) x = bits_lsb m x @ [bit x m]"
    by (simp add: bits_lsb_def)
  show "tap_run RTI (ir_edges w d b (unat n) a x) = RTI"
    "scan ShDR f RTI (ir_edges w d b (unat n) a x) = []"
    "scan ShIR e_tdi RTI (ir_edges w d b (unat n) a x) =
       replicate b True @ bits_lsb (unat n) x @ replicate a True"
    "length (scan UpdIR f RTI (ir_edges w d b (unat n) a x)) = 1"
    "\<forall>e\<in>set (ir_edges w d b (unat n) a x). e_low e = d"
    unfolding m last by (cases a; auto simp: ir_edges_def Let_def replicate_append_same)+
qed

section \<open>Command handlers\<close>

text \<open>
  \<open>for (i = 0; i < count; i++)\<close> of \<open>jtag_configure\<close>: the chain tables are filled in while the sum of
  the instruction register lengths is carried along.
\<close>

fun jtag_configure_lengths :: "'rb platform \<Rightarrow> nat \<Rightarrow> nat \<Rightarrow> u16 \<Rightarrow> ('rb, u16) dap_cmd" where
  "jtag_configure_lengths P i 0 ir_length_sum = ret ir_length_sum"
| "jtag_configure_lengths P i (Suc n) ir_length_sum =
     bindC (get_u8 P) (\<lambda>len.
     bindC (array_set jtag_ir_before jtag_ir_before_update i ir_length_sum) (\<lambda>_.
     bindC (array_set jtag_ir_length jtag_ir_length_update i len) (\<lambda>_.
     jtag_configure_lengths P (Suc i) n (ir_length_sum + ucast len))))"

fun jtag_configure_after :: "nat \<Rightarrow> nat \<Rightarrow> u16 \<Rightarrow> ('rb, u16) dap_cmd" where
  "jtag_configure_after i 0 ir_length_sum = ret ir_length_sum"
| "jtag_configure_after i (Suc n) ir_length_sum =
     bindC (gets jtag_ir_length) (\<lambda>ir_length.
     bindC (array_get ir_length i) (\<lambda>len.
     bindC (array_set jtag_ir_after jtag_ir_after_update i (ir_length_sum - ucast len)) (\<lambda>_.
     jtag_configure_after (Suc i) n (ir_length_sum - ucast len))))"

definition drain_request :: "'rb platform \<Rightarrow> nat \<Rightarrow> (('rb, 'z) bufs_scheme, unit) cmd" where
  "drain_request P n = on_request (bindC (rb_get_claim P n) (\<lambda>(k, ptr).
     if k \<noteq> n then fail EMSGSIZE
     else bindC (rb_get_finish P n) (\<lambda>c. if c \<noteq> 0 then fail EMSGSIZE else ret ())))"

definition dap_handle_cmd_jtag_configure :: "'rb platform \<Rightarrow> ('rb, unit) dap_cmd" where
  "dap_handle_cmd_jtag_configure P =
     bindC (get_u8 P) (\<lambda>count.
     bindC (if DAP_JTAG_MAX_DEVICE_COUNT < unat count
            then bindC (drain_request P (unat count)) (\<lambda>_. ret dap_cmd_response_error)
            else bindC (modify (jtag_count_update (\<lambda>_. count))) (\<lambda>_.
                 bindC (jtag_configure_lengths P 0 (unat count) 0) (\<lambda>ir_length_sum.
                 bindC (jtag_configure_after 0 (unat count) ir_length_sum) (\<lambda>_.
                 ret dap_cmd_response_ok)))) (\<lambda>status.
     put_bytes P [dap_cmd_jtag_configure, status]))"

text \<open>
  \<open>jtag_sequence\<close>: up to 8 cycles per request byte.  \<open>jtag_sequence_bits\<close> is the innermost loop, which
  runs \<open>MIN(8, tck_cycles)\<close> times and then moves a short last byte to its final position.
\<close>

fun jtag_sequence_bits :: "'rb platform \<Rightarrow> nat \<Rightarrow> byte \<Rightarrow> byte \<Rightarrow> ('rb, byte) dap_cmd" where
  "jtag_sequence_bits P 0 tdi tdo = ret tdo"
| "jtag_sequence_bits P (Suc n) tdi tdo =
     bindC (jtag_tdio_cycle P tdi) (\<lambda>tdo_bit.
     jtag_sequence_bits P n (drop_bit 1 tdi) (drop_bit 1 tdo OR push_bit 7 tdo_bit))"

function jtag_sequence_bytes :: "'rb platform \<Rightarrow> byte \<Rightarrow> nat \<Rightarrow> ('rb, unit) dap_cmd" where
  "jtag_sequence_bytes P info tck_cycles =
     (if tck_cycles = 0 then ret ()
      else let n = min 8 tck_cycles in
        bindC (get_u8 P) (\<lambda>tdi.
        bindC (jtag_sequence_bits P n tdi 0) (\<lambda>tdo.
        bindC (whenC (info AND 0x80 \<noteq> 0) (put_bytes P [drop_bit (8 - n) tdo])) (\<lambda>_.
        jtag_sequence_bytes P info (tck_cycles - n)))))"
  by pat_completeness auto
termination by (relation "measure (\<lambda>(P, info, n). n)") auto

function jtag_sequence_skip :: "'rb platform \<Rightarrow> nat \<Rightarrow> ('rb, unit) dap_cmd" where
  "jtag_sequence_skip P tck_cycles =
     (if tck_cycles = 0 then ret ()
      else bindC (get_u8 P) (\<lambda>_. jtag_sequence_skip P (tck_cycles - min tck_cycles 8)))"
  by pat_completeness auto
termination by (relation "measure (\<lambda>(P, n). n)") auto

declare jtag_sequence_bytes.simps [simp del] jtag_sequence_skip.simps [simp del]

definition tck_cycles_of :: "byte \<Rightarrow> nat" where
  "tck_cycles_of info = (if info AND 0x3f = 0 then 64 else unat (info AND 0x3f))"

fun jtag_sequence_loop :: "'rb platform \<Rightarrow> nat \<Rightarrow> byte \<Rightarrow> ('rb, byte) dap_cmd" where
  "jtag_sequence_loop P 0 status = ret status"
| "jtag_sequence_loop P (Suc n) status =
     bindC (get_u8 P) (\<lambda>info.
     bindC (gets swj_port) (\<lambda>port.
     if port \<noteq> dap_port_jtag
     then bindC (jtag_sequence_skip P (tck_cycles_of info)) (\<lambda>_.
          jtag_sequence_loop P n dap_cmd_response_error)
     else bindC (set_pin P TMS_SWDIO (uint (drop_bit 6 (info AND 0x40)))) (\<lambda>_.
          bindC (jtag_sequence_bytes P info (tck_cycles_of info)) (\<lambda>_.
          jtag_sequence_loop P n status))))"

definition dap_handle_cmd_jtag_sequence :: "'rb platform \<Rightarrow> ('rb, unit) dap_cmd" where
  "dap_handle_cmd_jtag_sequence P =
     bindC (fail_as EMSGSIZE (put_bytes P [dap_cmd_jtag_sequence])) (\<lambda>_.
     bindC (put_later P 1) (\<lambda>response_status.
     bindC (get_u8 P) (\<lambda>seq_count.
     bindC (jtag_sequence_loop P (unat seq_count) dap_cmd_response_ok) (\<lambda>status.
     store_response P response_status [status]))))"

definition jtag_read_idcode :: "'rb platform \<Rightarrow> ('rb, u32) dap_cmd" where
  "jtag_read_idcode P =
     bindC (jtag_set_ir P 0x0e) (\<lambda>_.
     bindC (set_pin P TMS_SWDIO 1) (\<lambda>_.
     bindC (jtag_tck_cycle P) (\<lambda>_.
     bindC (set_pin P TMS_SWDIO 0) (\<lambda>_.
     bindC (jtag_tck_cycle P) (\<lambda>_.
     bindC (jtag_tck_cycle P) (\<lambda>_.
     bindC (gets jtag_index) (\<lambda>index.
     bindC (repeat (unat index) (jtag_tck_cycle P)) (\<lambda>_.
     bindC (jtag_shift_in P 0 31 0) (\<lambda>idcode.
     bindC (set_pin P TMS_SWDIO 1) (\<lambda>_.
     bindC (jtag_shift_in P 31 1 idcode) (\<lambda>idcode.
     bindC (jtag_tck_cycle P) (\<lambda>_.
     bindC (set_pin P TMS_SWDIO 0) (\<lambda>_.
     bindC (jtag_tck_cycle P) (\<lambda>_.
     ret idcode))))))))))))))"

definition dap_handle_cmd_jtag_idcode :: "'rb platform \<Rightarrow> ('rb, unit) dap_cmd" where
  "dap_handle_cmd_jtag_idcode P =
     bindC (get_u8 P) (\<lambda>index.
     bindC (gets swj_port) (\<lambda>port.
     bindC (gets jtag_count) (\<lambda>count.
     bindC (if port \<noteq> dap_port_jtag \<or> count \<le> index then ret (dap_cmd_response_error, 0)
            else bindC (modify (jtag_index_update (\<lambda>_. index))) (\<lambda>_.
                 bindC (jtag_read_idcode P) (\<lambda>idcode.
                 ret (dap_cmd_response_ok, idcode)))) (\<lambda>(status, idcode).
     put_bytes P ([dap_cmd_jtag_idcode, status] @ sys_put_le32 idcode)))))"

section \<open>The IDCODE scan on the wire\<close>

definition idcode_edges :: "wire \<Rightarrow> nat \<Rightarrow> nat \<Rightarrow> bool list \<Rightarrow> edge list" where
  "idcode_edges w d index bs =
     [tck w d True True, tck w d False True, tck w d False True]
     @ replicate index (tck w d False True)
     @ map (tck_in w d False True) (take 31 bs) @ [tck_in w d True True (bs ! 31)]
     @ [tck w d True True, tck w d False True]"

lemma bits_32:
  assumes "length bs = 31" "length cs = 1"
  shows "word_of_bits bs OR push_bit 31 (word_of_bits cs) = (word_of_bits (bs @ cs) :: u32)"
    "take 31 (bs @ cs) = bs" "[(bs @ cs) ! 31] = cs"
proof -
  obtain c where c: "cs = [c]" using assms(2) by (auto simp: length_Suc_conv)
  show "word_of_bits bs OR push_bit 31 (word_of_bits cs) = (word_of_bits (bs @ cs) :: u32)"
    using word_of_bits_snoc [of bs c, where 'a = 32] assms(1)
    by (simp add: c word_of_bits_Cons)
  show "take 31 (bs @ cs) = bs" "[(bs @ cs) ! 31] = cs" using assms(1) c by (simp_all add: nth_append)
qed

lemma line_jtag_read_idcode:
  fixes d :: "'rb dap_driver"
  defines "i \<equiv> unat (jtag_index d)"
  assumes "i < length (jtag_ir_before d)" "i < length (jtag_ir_length d)" "i < length (jtag_ir_after d)"
    and "\<And>bs. length bs = 32 \<Longrightarrow> R (word_of_bits bs)
      (ir_edges w (half d) (unat (jtag_ir_before d ! i)) (unat (jtag_ir_length d ! i))
        (unat (jtag_ir_after d ! i)) 0x0e @ idcode_edges w (half d) i bs)
      (hi w\<lparr>w_tms := False, w_tdi := True\<rparr>)"
  shows "line d (jtag_read_idcode P) w R"
proof -
  note i = assms(2-4) [unfolded i_def]
  have R: "R (word_of_bits bs OR push_bit 31 (word_of_bits cs))
      (ir_edges w (half d) (unat (jtag_ir_before d ! i)) (unat (jtag_ir_length d ! i))
        (unat (jtag_ir_after d ! i)) 0x0e @
       [tck w (half d) True True, tck w (half d) False True, tck w (half d) False True]
       @ replicate i (tck w (half d) False True)
       @ map (tck_in w (half d) False True) bs @ map (tck_in w (half d) True True) cs
       @ [tck w (half d) True True, tck w (half d) False True])
      (hi w\<lparr>w_tms := False, w_tdi := True\<rparr>)"
    if n: "length bs = 31" "length cs = 1" for bs cs
  proof -
    obtain c where c: "cs = [c]" using n(2) by (auto simp: length_Suc_conv)
    show ?thesis
      using assms(5) [of "bs @ cs"] n unfolding bits_32(1) [OF n]
      by (simp add: c idcode_edges_def nth_append)
  qed
  show ?thesis
    unfolding jtag_read_idcode_def
    by (rule line_bindC line_jtag_set_ir line_jtag_tck_cycle line_repeat_tck line_jtag_shift_in
        line_data line_gets line_ret | (simp add: i; fail)
        | simp add: R [unfolded i_def, simplified])+
qed

section \<open>The chain tables\<close>

definition ir_total :: "byte list \<Rightarrow> u16" where
  "ir_total ls = sum_list (map ucast ls)"

fun sums :: "u16 \<Rightarrow> byte list \<Rightarrow> u16 list" where
  "sums a [] = []"
| "sums a (l # ls) = a # sums (a + ucast l) ls"

fun rests :: "u16 \<Rightarrow> byte list \<Rightarrow> u16 list" where
  "rests a [] = []"
| "rests a (l # ls) = (a - ucast l) # rests (a - ucast l) ls"

definition overwrite :: "nat \<Rightarrow> 'a list \<Rightarrow> 'a list \<Rightarrow> 'a list" where
  "overwrite i new old = take i old @ new @ drop (i + length new) old"

lemma ir_total_simps [simp]: "ir_total [] = 0" "ir_total (l # ls) = ucast l + ir_total ls"
  by (simp_all add: ir_total_def)

lemma length_sums [simp]: "length (sums a ls) = length ls" "length (rests a ls) = length ls"
  by (induction ls arbitrary: a) simp_all

lemma nth_sums:
  "j < length ls \<Longrightarrow> sums a ls ! j = a + ir_total (take j ls)"
  "j < length ls \<Longrightarrow> rests a ls ! j = a - ir_total (take (Suc j) ls)"
  by (induction ls arbitrary: a j) (auto simp: nth_Cons algebra_simps split: nat.splits)

lemma ir_total_drop: "ir_total ls - ir_total (take j ls) = ir_total (drop j ls)"
proof -
  have "ir_total ls = ir_total (take j ls) + ir_total (drop j ls)"
    by (simp add: ir_total_def flip: sum_list_append map_append)
  then show ?thesis by simp
qed

lemma unat_ir_total: "length ls \<le> 257 \<Longrightarrow> unat (ir_total ls) = sum_list (map unat ls)"
proof (induction ls)
  case (Cons l ls)
  have "sum_list (map unat ls) \<le> length ls * 255"
    by (induction ls) (auto simp: add_mono)
  then have "unat l + sum_list (map unat ls) < 65536"
  proof -
    have "unat l \<le> 255" by (rule unat_byte_le)
    moreover have "length ls * 255 \<le> 65280" using Cons.prems by simp
    ultimately show ?thesis using \<open>sum_list (map unat ls) \<le> length ls * 255\<close> by linarith
  qed
  moreover have "unat (ucast l :: u16) = unat l"
    by (simp add: unsigned_ucast_eq take_bit_nat_eq_self_iff less_trans [OF unat_byte_less])
  ultimately show ?case
    using Cons by (simp add: unat_word_ariths)
qed simp

lemma overwrite_step:
  "i < length old \<Longrightarrow> overwrite (Suc i) new (old[i := v]) = overwrite i (v # new) old"
  by (simp add: overwrite_def take_Suc_conv_app_nth)

lemma overwrite_Nil [simp]: "overwrite i [] old = old"
  by (simp add: overwrite_def)

lemma nth_overwrite:
  "j < length new \<Longrightarrow> length new \<le> length old \<Longrightarrow> overwrite 0 new old ! j = new ! j"
  "length new \<le> length old \<Longrightarrow> length (overwrite 0 new old) = length old"
  by (simp_all add: overwrite_def nth_append)

lemma runs_jtag_configure_after:
  assumes "take n (drop i (jtag_ir_length s)) = ls" "length ls = n" "i + n \<le> length (jtag_ir_after s)"
    "i + n \<le> length (jtag_ir_length s)"
    and "Q (Ok (a - ir_total ls)) (s\<lparr>jtag_ir_after := overwrite i (rests a ls) (jtag_ir_after s)\<rparr>)"
  shows "runs (jtag_configure_after i n a) s Q"
  using assms
proof (induction n arbitrary: i a s ls)
  case (Suc n)
  obtain l ls' where ls: "ls = l # ls'" using Suc.prems(2) by (cases ls) auto
  have l: "jtag_ir_length s ! i = l" "take n (drop (Suc i) (jtag_ir_length s)) = ls'"
    using Suc.prems(1,3,4) ls by (auto simp: Cons_nth_drop_Suc [symmetric])
  show ?case
    using Suc.prems l ls
    apply (simp add: runs_bindC array_get_def)
    apply (rule Suc.IH [of _ _ ls'])
    apply (simp_all add: overwrite_step algebra_simps)
    done
qed simp

context ring_buffer
begin

lemma runs_jtag_configure_lengths:
  assumes "rb_reads view ok (request s) (ls @ rest)" "i + length ls \<le> length (jtag_ir_before s)"
    "i + length ls \<le> length (jtag_ir_length s)"
    and "\<And>r. rb_reads view ok r rest \<Longrightarrow> Q (Ok (a + ir_total ls)) (s\<lparr>request := r,
      jtag_ir_before := overwrite i (sums a ls) (jtag_ir_before s),
      jtag_ir_length := overwrite i ls (jtag_ir_length s)\<rparr>)"
  shows "runs (jtag_configure_lengths P i (length ls) a) s Q"
  using assms
proof (induction ls arbitrary: i a s)
  case (Cons l ls)
  have "rb_reads view ok (request s) (l # ls @ rest)" using Cons.prems(1) by simp
  then show ?case
    unfolding list.size jtag_configure_lengths.simps add_Suc_right add_0_right
    apply (intro runs_bindI, rule runs_get_u8)
    using Cons.prems(2,3)
    apply (simp add: runs_bindC)
    apply (rule Cons.IH)
    using Cons.prems(2-4) apply (auto simp: overwrite_step algebra_simps)
    done
next
  case Nil
  then show ?case using Nil.prems(4) [of "request s"] by simp
qed

end

section \<open>The handlers on their buffers\<close>

context ring_buffer
begin

lemma runs_jtag_idcode:
  fixes s :: "'rb dap_driver" and index :: byte
  defines "i \<equiv> unat index"
  assumes "rb_reads view ok (request s) (index # rest)"
    "rb_fills view ok c (response s) out" "length out + 6 \<le> c"
    "dap_inv s" "swj_port s = dap_port_jtag" "index < jtag_count s"
  shows "runs (dap_handle_cmd_jtag_idcode P) s (\<lambda>r t. \<exists>bs es. r = Ok () \<and> length bs = 32
    \<and> rb_reads view ok (request t) rest
    \<and> rb_fills view ok c (response t) (out @ [0x16, 0] @ sys_put_le32 (word_of_bits bs))
    \<and> edges t = edges s @ es \<and> jtag_index t = index
    \<and> es = ir_edges (bus s) (half s) (unat (jtag_ir_before s ! i)) (unat (jtag_ir_length s ! i))
        (unat (jtag_ir_after s ! i)) 0x0e @ idcode_edges (bus s) (half s) i bs)"
proof -
  have i: "i < length (jtag_ir_before s)" "i < length (jtag_ir_length s)" "i < length (jtag_ir_after s)"
    "\<not> jtag_count s \<le> index"
    using dap_inv_tables(4-6) [OF assms(5,7)] assms(7) by (auto simp: i_def)
  show ?thesis
    unfolding dap_handle_cmd_jtag_idcode_def
    apply (rule runs_bindI, rule runs_get_u8 [OF assms(2)])
    apply (simp add: runs_bindC assms(6) i)
    apply (rule runs_line, rule line_jtag_read_idcode)
    using i apply (simp_all add: i_def)
    apply clarify
    apply (rule runs_put_bytes [where c = c and out = out])
    using assms(3,4) apply (simp_all add: moves_frame moves_fields)
    by (auto simp: dap_cmd_ids dap_consts dest!: moves_edges)
qed

lemma runs_drain_request:
  assumes "rb_reads view ok (request s) bs"
    and "\<And>r. n \<le> length bs \<Longrightarrow> rb_reads view ok r (drop n bs) \<Longrightarrow> Q (Ok ()) (s\<lparr>request := r\<rparr>)"
    and "\<And>r. length bs < n \<Longrightarrow> Q (Fail EMSGSIZE) (s\<lparr>request := r\<rparr>)"
  shows "runs (drain_request P n) s Q"
proof -
  obtain r1 ptr where c: "rb_get_claim P n (request s) = (Ok (min n (length bs), ptr), r1)"
    "\<And>k. k \<le> min n (length bs) \<Longrightarrow>
      \<exists>r2. rb_get_finish P k r1 = (Ok 0, r2) \<and> rb_reads view ok r2 (drop k bs)"
    using reads_claim [OF assms(1), of n] by metis
  show ?thesis
  proof (cases "n \<le> length bs")
    case True
    then show ?thesis
      using c(1) c(2) [of n] assms(2)
      by (auto simp: runs_def drain_request_def on_request_def bindC_simps min_def)
  next
    case False
    then show ?thesis
      using c(1) assms(3) by (auto simp: runs_def drain_request_def on_request_def bindC_simps min_def)
  qed
qed

lemma runs_jtag_configure:
  assumes "rb_reads view ok (request s) (of_nat (length ls) # ls @ rest)" "length ls \<le> 4"
    "rb_fills view ok c (response s) out" "length out + 2 \<le> c" "dap_inv s"
  shows "runs (dap_handle_cmd_jtag_configure P) s (\<lambda>r t. r = Ok ()
    \<and> rb_reads view ok (request t) rest \<and> rb_fills view ok c (response t) (out @ [0x15, 0])
    \<and> dap_inv t \<and> unat (jtag_count t) = length ls
    \<and> (\<forall>j<length ls. jtag_ir_length t ! j = ls ! j
        \<and> jtag_ir_before t ! j = ir_total (take j ls) \<and> jtag_ir_after t ! j = ir_total (drop (Suc j) ls)))"
proof -
  have n: "unat (of_nat (length ls) :: byte) = length ls"
    using assms(2) by (simp add: unat_of_nat)
  have len: "length (jtag_ir_before s) = 4" "length (jtag_ir_length s) = 4" "length (jtag_ir_after s) = 4"
    using assms(5) by (auto simp: dap_inv_def DAP_JTAG_MAX_DEVICE_COUNT_def)
  have tk: "take (length ls) (overwrite 0 ls (jtag_ir_length s)) = ls"
    by (simp add: overwrite_def)
  show ?thesis
    unfolding dap_handle_cmd_jtag_configure_def
    apply (rule runs_bindI, rule runs_get_u8 [OF assms(1)])
    using assms(2) apply (simp add: n runs_bindC DAP_JTAG_MAX_DEVICE_COUNT_def)
    apply (rule runs_jtag_configure_lengths [of _ ls rest])
    using assms(2) len apply simp_all
    apply (rule runs_bindI, rule runs_jtag_configure_after [where ls = ls])
    using assms(2) len apply (simp_all add: nth_overwrite tk)
    apply (rule runs_put_bytes [where c = c and out = out])
    using assms(2-5) len
    apply (auto simp: nth_overwrite nth_sums ir_total_drop dap_cmd_ids dap_consts)
    apply (simp_all add: dap_inv_def dap_consts nth_overwrite n)
    done
qed

text \<open>More devices than the tables hold: the lengths are drained and an error status is sent.\<close>

lemma runs_jtag_configure_many:
  assumes "rb_reads view ok (request s) (count # bs)" "4 < unat count"
    "rb_fills view ok c (response s) out" "length out + 2 \<le> c"
  shows "runs (dap_handle_cmd_jtag_configure P) s (\<lambda>r t.
    if unat count \<le> length bs
    then r = Ok () \<and> rb_reads view ok (request t) (drop (unat count) bs)
      \<and> rb_fills view ok c (response t) (out @ [0x15, 0xff])
      \<and> t = s\<lparr>request := request t, response := response t\<rparr>
    else r = Fail EMSGSIZE \<and> t = s\<lparr>request := request t\<rparr>)"
  unfolding dap_handle_cmd_jtag_configure_def
  apply (rule runs_bindI, rule runs_get_u8 [OF assms(1)])
  using assms(2) apply (simp add: runs_bindC DAP_JTAG_MAX_DEVICE_COUNT_def)
  apply (rule runs_drain_request [of _ bs])
  apply simp
  apply simp
  apply (rule runs_put_bytes [where c = c and out = out])
  using assms(3,4) apply (simp_all add: dap_cmd_ids dap_consts)
  done

end

section \<open>Sequences\<close>

text \<open>
  The cycles of one sequence: TDI takes the values \<open>tdi\<close>, TDO had the values \<open>tdo\<close>.
\<close>

definition seq_edges :: "wire \<Rightarrow> nat \<Rightarrow> bool list \<Rightarrow> bool list \<Rightarrow> edge list" where
  "seq_edges w d tdi tdo = map (\<lambda>(x, b). tck_in w d (w_tms w) x b) (zip tdi tdo)"

lemma seq_edges_append:
  "length xs = length bs \<Longrightarrow>
   seq_edges w d (xs @ ys) (bs @ cs) = seq_edges w d xs bs @ seq_edges w d ys cs"
  by (simp add: seq_edges_def)

lemma seq_edges_cong:
  "w_tms v = w_tms w \<Longrightarrow> w_out v = w_out w \<Longrightarrow> seq_edges v = seq_edges w"
  by (simp add: seq_edges_def fun_eq_iff)

lemma line_jtag_sequence_bits:
  "hi w = w \<or> 0 < n \<Longrightarrow> n \<le> 8 \<Longrightarrow>
   (\<And>bs x. length bs = n \<Longrightarrow> R (drop_bit n tdo OR push_bit (8 - n) (word_of_bits bs))
     (seq_edges w (half d) (bits_lsb n tdi) bs) (hi w\<lparr>w_tdi := x\<rparr>)) \<Longrightarrow>
   line d (jtag_sequence_bits P n tdi tdo) w R"
proof (induction n arbitrary: tdi tdo w R)
  case 0
  then have "R tdo [] (w\<lparr>w_tdi := w_tdi w\<rparr>)"
    using 0(3) [of "[]" "w_tdi w"] by (simp add: seq_edges_def)
  then show ?case by (simp add: line_ret)
next
  case (Suc n)
  show ?case
    unfolding jtag_sequence_bits.simps
  proof (rule line_bindC, rule line_jtag_tdio_cycle, rule Suc.IH, goal_cases)
    case (3 b bs x)
    have "drop_bit n (drop_bit 1 tdo OR push_bit 7 (of_bool b)) OR push_bit (8 - n) (word_of_bits bs)
        = drop_bit (Suc n) tdo OR push_bit (8 - Suc n) (word_of_bits (b # bs))"
      using Suc.prems(2) 3(1) by (intro shift_in_byte) simp_all
    then show ?case
      using Suc.prems(3) [of "b # bs" x] 3(1) seq_edges_cong [of "hi w\<lparr>w_tdi := odd tdi\<rparr>" w]
      by (simp add: bits_lsb_Suc bit_0 seq_edges_def)
  qed (use Suc.prems in simp_all)
qed

context ring_buffer
begin

lemma runs_jtag_sequence_bytes:
  assumes "rb_reads view ok (request s) (xs @ rest)" "length xs = (n + 7) div 8"
    "rb_fills view ok c (response s) out"
    "length out + (if info AND 0x80 \<noteq> 0 then length xs else 0) \<le> c"
    and "\<And>t bs. length bs = n \<Longrightarrow> rb_reads view ok (request t) rest \<Longrightarrow>
      rb_fills view ok c (response t) (out @ (if info AND 0x80 \<noteq> 0 then bytes_of_bits bs else [])) \<Longrightarrow>
      edges t = edges s @ seq_edges (bus s) (half s) (take n (concat (map (bits_lsb 8) xs))) bs \<Longrightarrow>
      io_frame s t \<Longrightarrow> w_tms (bus t) = w_tms (bus s) \<Longrightarrow> w_out (bus t) = w_out (bus s) \<Longrightarrow>
      Q (Ok ()) t"
  shows "runs (jtag_sequence_bytes P info n) s Q"
  using assms
proof (induction xs arbitrary: n s out)
  case Nil
  then have "n = 0" by (simp add: div_eq_0_iff)
  then show ?case
    using Nil.prems(5) [of "[]" s] Nil.prems(1,3)
    by (simp add: jtag_sequence_bytes.simps seq_edges_def)
next
  case (Cons x xs)
  define k where "k = min 8 n"
  have n: "0 < n" using Cons.prems(2) by (cases n) auto
  have k: "0 < k" "k \<le> 8" "k \<le> n" using n by (auto simp: k_def)
  have len: "length xs = (n - k + 7) div 8"
    using bytes_step_length [OF n, of "length xs"] Cons.prems(2) by (simp add: k_def)
  have tdi: "take n (concat (map (bits_lsb 8) (x # xs)))
      = bits_lsb k x @ take (n - k) (concat (map (bits_lsb 8) xs))"
    unfolding k_def by (rule take_bits_step)
  let ?cap = "info AND 0x80 \<noteq> 0"
  have step: "runs (jtag_sequence_bytes P info (n - k)) t Q"
    if t: "rb_reads view ok (request t) (xs @ rest)" "length bs = k"
      "rb_fills view ok c (response t) (out @ (if ?cap then [word_of_bits bs] else []))"
      "edges t = edges s @ seq_edges (bus s) (half s) (bits_lsb k x) bs" "io_frame s t"
      "w_tms (bus t) = w_tms (bus s)" "w_out (bus t) = w_out (bus s)" for t bs
  proof (rule Cons.IH [OF t(1) len t(3)], goal_cases)
    case 1
    then show ?case using Cons.prems(4) by (auto split: if_splits)
  next
    case (2 cs u)
    have "n - k = 0 \<or> length bs = 8" using t(2) by (auto simp: k_def min_def)
    then have "bytes_of_bits (bs @ cs) = word_of_bits bs # bytes_of_bits cs"
      using t(2) k 2(1) by (subst bytes_of_bits.simps) auto
    moreover have "seq_edges (bus t) (half t) = seq_edges (bus s) (half s)"
      using seq_edges_cong [OF t(6,7)] io_frame_fields(2) [OF t(5)] by simp
    ultimately have "edges u = edges s @ seq_edges (bus s) (half s)
        (take n (concat (map (bits_lsb 8) (x # xs)))) (bs @ cs)"
      "rb_fills view ok c (response u) (out @ (if ?cap then bytes_of_bits (bs @ cs) else []))"
      unfolding tdi using 2 t by (simp add: seq_edges_append, simp split: if_splits)
    then show ?case
      using 2 t k by (intro Cons.prems(5) [of "bs @ cs"]) (auto intro: io_frame_trans)
  qed
  have bits: "drop_bit (8 - k) (push_bit (8 - k) (word_of_bits bs)) = (word_of_bits bs :: byte)"
    if "length bs = k" for bs
    using shift_in_short [OF that k(2)] .
  have "rb_reads view ok (request s) (x # xs @ rest)" using Cons.prems(1) by simp
  then show ?case
    apply (subst jtag_sequence_bytes.simps)
    using n apply (simp add: k_def [symmetric] del: One_nat_def)
    apply (rule runs_bindI, rule runs_get_u8, assumption)
    apply (simp add: runs_bindC)
    apply (rule runs_line, rule line_jtag_sequence_bits)
    using k apply simp_all
    apply (intro allI impI)
    apply (cases "?cap")
     apply (simp_all add: runs_bindC bits)
     apply (rule runs_put_bytes [where c = c and out = out])
       apply (use Cons.prems(3,4) in \<open>simp_all add: moves_frame\<close>)
    subgoal for r bs xa t ra
      by (rule step [where bs = bs]) (auto dest: moves_edges moves_bus moves_io_frame simp: moves_frame)
    subgoal for r bs xa t
      using Cons.prems(3) by (intro step [where bs = bs])
        (auto dest: moves_edges moves_bus moves_io_frame simp: moves_frame)
    done
qed

lemma runs_jtag_sequence_skip:
  assumes "rb_reads view ok (request s) (xs @ rest)" "length xs = (n + 7) div 8"
    and "\<And>r. rb_reads view ok r rest \<Longrightarrow> Q (Ok ()) (s\<lparr>request := r\<rparr>)"
  shows "runs (jtag_sequence_skip P n) s Q"
  using assms
proof (induction xs arbitrary: n s)
  case Nil
  then have "n = 0" by (simp add: div_eq_0_iff)
  then show ?case
    using Nil.prems(3) [of "request s"] Nil.prems(1) by (simp add: jtag_sequence_skip.simps)
next
  case (Cons x xs)
  have n: "0 < n" using Cons.prems(2) by (cases n) auto
  have "Suc (length xs) = Suc ((n - 8 + 7) div 8)"
    using Cons.prems(2) div_8_step [OF n] by simp
  then have len: "length xs = (n - min n 8 + 7) div 8" by (cases "n \<le> 8") auto
  have "rb_reads view ok (request s) (x # xs @ rest)" using Cons.prems(1) by simp
  then show ?case
    apply (subst jtag_sequence_skip.simps)
    using n apply simp
    apply (rule runs_bindI, rule runs_get_u8, assumption)
    apply simp
    apply (rule Cons.IH [OF _ len])
     apply simp
    apply (simp add: Cons.prems(3))
    done
qed

end

text \<open>
  A whole \<open>jtag_sequence\<close> command: each sequence is its information byte and its TDI bytes; \<open>bss\<close>
  are the TDO bits of each sequence.
\<close>

definition seq_wf :: "byte \<times> byte list \<Rightarrow> bool" where
  "seq_wf sq \<longleftrightarrow> length (snd sq) = (tck_cycles_of (fst sq) + 7) div 8"

definition seq_bytes :: "(byte \<times> byte list) list \<Rightarrow> byte list" where
  "seq_bytes sqs = concat (map (\<lambda>(i, xs). i # xs) sqs)"

definition seqs_edges :: "wire \<Rightarrow> nat \<Rightarrow> (byte \<times> byte list) list \<Rightarrow> bool list list \<Rightarrow> edge list" where
  "seqs_edges w d sqs bss = concat (map (\<lambda>((i, xs), bs).
     seq_edges (w\<lparr>w_tms := bit i 6\<rparr>) d
       (take (tck_cycles_of i) (concat (map (bits_lsb 8) xs))) bs) (zip sqs bss))"

definition seqs_out :: "(byte \<times> byte list) list \<Rightarrow> bool list list \<Rightarrow> byte list" where
  "seqs_out sqs bss = concat (map (\<lambda>((i, xs), bs).
     if i AND 0x80 \<noteq> 0 then bytes_of_bits bs else []) (zip sqs bss))"

definition seqs_len :: "(byte \<times> byte list) list \<Rightarrow> nat" where
  "seqs_len sqs = sum_list (map (\<lambda>(i, xs). if i AND 0x80 \<noteq> 0 then length xs else 0) sqs)"

lemma seqs_simps [simp]:
  "seq_bytes [] = []" "seq_bytes ((i, xs) # sqs) = i # xs @ seq_bytes sqs"
  "seqs_edges w d [] bss = []" "seqs_edges w d ((i, xs) # sqs) (bs # bss) =
     seq_edges (w\<lparr>w_tms := bit i 6\<rparr>) d (take (tck_cycles_of i) (concat (map (bits_lsb 8) xs))) bs
     @ seqs_edges w d sqs bss"
  "seqs_out [] bss = []" "seqs_out ((i, xs) # sqs) (bs # bss) =
     (if i AND 0x80 \<noteq> 0 then bytes_of_bits bs else []) @ seqs_out sqs bss"
  "seqs_len [] = 0" "seqs_len ((i, xs) # sqs) = (if i AND 0x80 \<noteq> 0 then length xs else 0) + seqs_len sqs"
  by (simp_all add: seq_bytes_def seqs_edges_def seqs_out_def seqs_len_def)

lemma seqs_edges_cong:
  assumes "w_out v = w_out w"
  shows "seqs_edges v = seqs_edges w"
proof -
  have "seq_edges (v\<lparr>w_tms := b\<rparr>) = seq_edges (w\<lparr>w_tms := b\<rparr>)" for b
    using assms by (intro seq_edges_cong) simp_all
  then show ?thesis by (simp add: seqs_edges_def fun_eq_iff)
qed

lemma tms_of_info: "uint (drop_bit 6 i AND 1) \<noteq> 0 \<longleftrightarrow> bit (i :: byte) 6"
  unfolding odd_and_1 by (simp add: bit_iff_odd_drop_bit)

context ring_buffer
begin

lemma runs_jtag_sequence_loop:
  assumes "rb_reads view ok (request s) (seq_bytes sqs @ rest)" "list_all seq_wf sqs"
    "rb_fills view ok c (response s) out" "length out + seqs_len sqs \<le> c"
    "swj_port s = dap_port_jtag"
    and "\<And>t bss. list_all2 (\<lambda>sq bs. length bs = tck_cycles_of (fst sq)) sqs bss \<Longrightarrow>
      rb_reads view ok (request t) rest \<Longrightarrow> rb_fills view ok c (response t) (out @ seqs_out sqs bss) \<Longrightarrow>
      edges t = edges s @ seqs_edges (bus s) (half s) sqs bss \<Longrightarrow> io_frame s t \<Longrightarrow> Q (Ok status) t"
  shows "runs (jtag_sequence_loop P (length sqs) status) s Q"
  using assms
proof (induction sqs arbitrary: s out)
  case Nil
  then show ?case using Nil.prems(6) [of "[]" s] by simp
next
  case (Cons sq sqs)
  obtain i xs where sq: "sq = (i, xs)" by (cases sq)
  let ?n = "tck_cycles_of i"
  have wf: "length xs = (?n + 7) div 8" using Cons.prems(2) by (simp add: sq seq_wf_def)
  let ?out = "\<lambda>bs. out @ (if i AND 0x80 \<noteq> 0 then bytes_of_bits bs else [])"
  have step: "runs (jtag_sequence_loop P (length sqs) status) u Q"
    if u: "length bs = ?n" "rb_reads view ok (request u) (seq_bytes sqs @ rest)"
      "rb_fills view ok c (response u) (?out bs)" "edges u = edges s
        @ seq_edges (bus s\<lparr>w_tms := bit i 6\<rparr>) (half s) (take ?n (concat (map (bits_lsb 8) xs))) bs"
      "io_frame s u" "w_out (bus u) = w_out (bus s)" for u bs
  proof (rule Cons.IH [OF u(2) _ u(3)], goal_cases)
    case 2
    then show ?case using Cons.prems(4) u(1) wf by (simp add: sq length_bytes_of_bits split: if_splits)
  next
    case (4 bss t)
    have "rb_fills view ok c (response t) (out @ seqs_out (sq # sqs) (bs # bss))"
      using 4(3) by (simp add: sq split: if_splits)
    moreover have "edges t = edges s @ seqs_edges (bus s) (half s) (sq # sqs) (bs # bss)"
      using 4(4) u(4) seqs_edges_cong [OF u(6)] io_frame_fields(2) [OF u(5)] by (simp add: sq)
    ultimately show ?case
      using 4 u by (intro Cons.prems(6) [of "bs # bss"]) (auto simp: sq intro: io_frame_trans)
  qed (use Cons.prems io_frame_fields(1) [OF u(5)] in simp_all)
  have "rb_reads view ok (request s) (i # xs @ seq_bytes sqs @ rest)"
    using Cons.prems(1) by (simp add: sq)
  then show ?case
    apply simp
    apply (rule runs_bindI, rule runs_get_u8, assumption)
    apply (simp add: runs_bindC Cons.prems(5))
    apply (rule runs_line, rule line_data)
    apply (simp add: tms_of_info [simplified], intro allI impI)
    subgoal for r t
      apply (rule runs_bindI)
      apply (rule runs_jtag_sequence_bytes [where rest = "seq_bytes sqs @ rest" and c = c and out = out])
          apply (simp add: moves_frame)
         apply (rule wf)
        apply (use Cons.prems(3,4) in \<open>simp_all only: moves_frame sq seqs_simps bufs.simps\<close>)
       apply (auto split: if_splits)[1]
      subgoal for u bs
        apply (frule moves_edges, frule moves_bus, frule moves_io_frame)
        apply simp
        apply (rule step [of bs u])
             apply (simp_all add: moves_fields)
        apply (rule io_frame_trans, simp_all)
        done
      done
    done
qed

text \<open>The status byte is reserved first and written when the sequences are through.\<close>

lemma runs_jtag_sequence:
  assumes "rb_reads view ok (request s) (of_nat (length sqs) # seq_bytes sqs @ rest)"
    "length sqs \<le> 255" "list_all seq_wf sqs" "rb_fills view ok c (response s) out"
    "length out + 2 + seqs_len sqs \<le> c" "swj_port s = dap_port_jtag"
  shows "runs (dap_handle_cmd_jtag_sequence P) s (\<lambda>r t. \<exists>bss. r = Ok ()
    \<and> list_all2 (\<lambda>sq bs. length bs = tck_cycles_of (fst sq)) sqs bss
    \<and> rb_reads view ok (request t) rest
    \<and> rb_fills view ok c (response t) (out @ [0x14, 0] @ seqs_out sqs bss)
    \<and> edges t = edges s @ seqs_edges (bus s) (half s) sqs bss \<and> io_frame s t)"
proof -
  have n: "unat (of_nat (length sqs) :: byte) = length sqs"
    using assms(2) by (simp add: unat_of_nat)
  show ?thesis
    unfolding dap_handle_cmd_jtag_sequence_def
    apply (rule runs_bindI, rule runs_fail_asI, rule runs_put_bytes [OF assms(4)])
    using assms(5) apply simp
    apply simp
    apply (rule runs_bindI, rule runs_put_later [where c = c])
       apply simp
      apply (use assms(5) in simp)
     apply simp
    apply (simp add: length_Suc_conv, elim exE, simp)
    subgoal for r r2 junk x
      apply (rule runs_bindI)
      apply (rule runs_get_u8 [of _ "of_nat (length sqs)" "seq_bytes sqs @ rest"])
       apply (simp add: assms(1))
      apply (simp add: n)
      apply (rule runs_bindI)
      apply (rule runs_jtag_sequence_loop [where rest = rest and c = c and out = "out @ [0x14, x]"])
           apply (use assms(3,5,6) in \<open>simp_all add: dap_cmd_ids dap_consts\<close>)
      subgoal for r3 t bss
        apply (rule runs_store_response [where pre = "out @ [0x14]" and old = "[x]"
              and post = "seqs_out sqs bss" and c = c, simplified])
        apply auto
        done
      done
    done
qed

lemma runs_jtag_sequence_loop_wrong:
  assumes "rb_reads view ok (request s) (seq_bytes sqs @ rest)" "list_all seq_wf sqs"
    "swj_port s \<noteq> dap_port_jtag"
    and "\<And>r. rb_reads view ok r rest \<Longrightarrow>
      Q (Ok (if sqs = [] then status else dap_cmd_response_error)) (s\<lparr>request := r\<rparr>)"
  shows "runs (jtag_sequence_loop P (length sqs) status) s Q"
  using assms
proof (induction sqs arbitrary: s status)
  case Nil
  then show ?case using Nil.prems(4) [of "request s"] by simp
next
  case (Cons sq sqs)
  obtain i xs where sq: "sq = (i, xs)" by (cases sq)
  have wf: "length xs = (tck_cycles_of i + 7) div 8"
    using Cons.prems(2) by (simp add: sq seq_wf_def)
  have "rb_reads view ok (request s) (i # xs @ seq_bytes sqs @ rest)"
    using Cons.prems(1) by (simp add: sq)
  then show ?case
    apply simp
    apply (rule runs_bindI, rule runs_get_u8, assumption)
    apply (simp add: runs_bindC Cons.prems(3))
    apply (rule runs_jtag_sequence_skip [OF _ wf, where rest = "seq_bytes sqs @ rest"])
     apply simp
    apply simp
    apply (rule Cons.IH)
       apply (use Cons.prems in simp_all)
    done
qed

lemma runs_jtag_sequence_wrong:
  assumes "rb_reads view ok (request s) (of_nat (length sqs) # seq_bytes sqs @ rest)"
    "length sqs \<le> 255" "sqs \<noteq> []" "list_all seq_wf sqs" "rb_fills view ok c (response s) out"
    "length out + 2 \<le> c" "swj_port s \<noteq> dap_port_jtag"
  shows "runs (dap_handle_cmd_jtag_sequence P) s (\<lambda>r t. r = Ok ()
    \<and> rb_reads view ok (request t) rest \<and> rb_fills view ok c (response t) (out @ [0x14, 0xff])
    \<and> t = s\<lparr>request := request t, response := response t\<rparr>)"
proof -
  have n: "unat (of_nat (length sqs) :: byte) = length sqs"
    using assms(2) by (simp add: unat_of_nat)
  show ?thesis
    unfolding dap_handle_cmd_jtag_sequence_def
    apply (rule runs_bindI, rule runs_fail_asI, rule runs_put_bytes [OF assms(5)])
    using assms(6) apply simp
    apply simp
    apply (rule runs_bindI, rule runs_put_later [where c = c])
       apply simp
      apply (use assms(6) in simp)
     apply simp
    apply (simp add: length_Suc_conv, elim exE, simp)
    subgoal for r r2 junk x
      apply (rule runs_bindI)
      apply (rule runs_get_u8 [of _ "of_nat (length sqs)" "seq_bytes sqs @ rest"])
       apply (simp add: assms(1))
      apply (simp add: n)
      apply (rule runs_bindI)
      apply (rule runs_jtag_sequence_loop_wrong [where rest = rest])
         apply (use assms(3,4,7) in \<open>simp_all add: dap_cmd_ids dap_consts\<close>)
      apply (rule runs_store_response [where pre = "out @ [0x14]" and old = "[x]"
            and post = "[]" and c = c, simplified])
      apply auto
      done
    done
qed

end

section \<open>Properties\<close>

text \<open>
  C7: \<open>jtag_set_ir\<close>, started in Run-Test/Idle, shifts exactly the bits of the instruction into the
  selected device and ones (BYPASS) into every other device of the chain, updates the instruction
  register once, never enters Shift-DR, ends in Run-Test/Idle, holds the clock low for half a
  period before every rising edge, and changes nothing but the lines.
\<close>

theorem jtag_set_ir_scan:
  fixes s :: "'rb dap_driver"
  defines "i \<equiv> unat (jtag_index s)"
  assumes "dap_inv s" "jtag_ir_length s ! i \<noteq> 0"
  shows "\<exists>t es. jtag_set_ir P ir s = (Ok (), t) \<and> t = s\<lparr>trace := trace t\<rparr> \<and> edges t = edges s @ es
    \<and> tap_run RTI es = RTI
    \<and> scan ShIR e_tdi RTI es = replicate (unat (jtag_ir_before s ! i)) True
        @ bits_lsb (unat (jtag_ir_length s ! i)) ir @ replicate (unat (jtag_ir_after s ! i)) True
    \<and> length (scan UpdIR e_tdi RTI es) = 1 \<and> scan ShDR e_tdi RTI es = []
    \<and> (\<forall>e\<in>set es. e_low e = unat (swj_delay_ns s))"
proof -
  let ?b = "unat (jtag_ir_before s ! i)" and ?n = "unat (jtag_ir_length s ! i)"
    and ?a = "unat (jtag_ir_after s ! i)"
  let ?es = "ir_edges (bus s) (half s) ?b ?n ?a ir"
  have i: "i < length (jtag_ir_before s)" "i < length (jtag_ir_length s)" "i < length (jtag_ir_after s)"
    using assms(2) by (auto simp: dap_inv_def i_def)
  have "line s (jtag_set_ir P ir) (bus s) (\<lambda>_ es w. es = ?es)"
    unfolding i_def by (rule line_jtag_set_ir) (use i in \<open>simp_all add: i_def\<close>)
  then obtain t w where t: "jtag_set_ir P ir s = (Ok (), t)" "moves s ?es w t"
    by (auto dest!: lineD simp: drv_def)
  have m: "t = s\<lparr>trace := trace t\<rparr>" "edges t = edges s @ ?es"
    using t(2) unfolding moves_def by blast+
  show ?thesis
    by (intro exI [of _ t] exI [of _ ?es] conjI t(1) m ir_edges_tap [OF assms(3)])
qed

lemma jtag_set_ir_scan_witness:
  "\<exists>t es. jtag_set_ir (array_platform (\<lambda>_ _. (0, [])) 0) 0x0a (dap_sample 1 (a_new 64)) = (Ok (), t)
    \<and> edges t = edges (dap_sample 1 (a_new 64)) @ es \<and> tap_run RTI es = RTI
    \<and> scan ShIR e_tdi RTI es = [False, True, False, True, True, True, True, True, True]"
proof -
  have "jtag_ir_length (dap_sample 1 (a_new 64)) ! unat (jtag_index (dap_sample 1 (a_new 64))) \<noteq> 0"
    by simp
  note fact = jtag_set_ir_scan [OF dap_sample_inv this,
      where P = "array_platform (\<lambda>_ _. (0, [])) 0" and ir = "0x0a"]
  have "bits_lsb 4 (0x0a :: u32) = [False, True, False, True]"
    "replicate 5 True = [True, True, True, True, True]"
    by code_simp+
  with fact show ?thesis by (simp, blast)
qed

text \<open>
  C12: \<open>DAP_JTAG_IDCODE\<close> puts the IDCODE instruction into the selected device of the chain, reads 32
  bits of its data register after one bypass bit for each device before it, and answers with the
  word made of exactly the bits sampled from TDO in Shift-DR, least significant first.
\<close>

theorem jtag_idcode_reads_device:
  fixes s :: "'rb dap_driver" and index :: byte
  defines "i \<equiv> unat index"
  assumes "ring_buffer P view ok" "rb_reads view ok (request s) (index # rest)"
    "rb_fills view ok c (response s) out" "length out + 6 \<le> c"
    "dap_inv s" "swj_port s = dap_port_jtag" "index < jtag_count s" "jtag_ir_length s ! i \<noteq> 0"
  shows "runs (dap_handle_cmd_jtag_idcode P) s (\<lambda>r t. \<exists>bs es. r = Ok () \<and> length bs = 32
    \<and> rb_reads view ok (request t) rest
    \<and> rb_fills view ok c (response t) (out @ [0x16, 0] @ sys_put_le32 (word_of_bits bs))
    \<and> edges t = edges s @ es \<and> tap_run RTI es = RTI
    \<and> scan ShIR e_tdi RTI es = replicate (unat (jtag_ir_before s ! i)) True
        @ bits_lsb (unat (jtag_ir_length s ! i)) (0x0e :: u32)
        @ replicate (unat (jtag_ir_after s ! i)) True
    \<and> scan ShDR e_in RTI es = replicate i None @ map (\<lambda>b. Some (TDO, b)) bs)"
proof (rule runs_mono [OF ring_buffer.runs_jtag_idcode [OF assms(2-8)]], elim exE conjE,
    intro exI conjI)
  fix r t bs es
  assume bs: "length bs = 32"
    and es: "es = ir_edges (bus s) (half s) (unat (jtag_ir_before s ! unat index))
        (unat (jtag_ir_length s ! unat index)) (unat (jtag_ir_after s ! unat index)) 0x0e
        @ idcode_edges (bus s) (half s) (unat index) bs"
  have "bs = take 31 bs @ [bs ! 31]"
    using id_take_nth_drop [of 31 bs] bs by simp
  then have dr: "map (\<lambda>b. Some (TDO, b)) bs
      = map (\<lambda>b. Some (TDO, b)) (take 31 bs) @ [Some (TDO, bs ! 31)]"
    by (metis list.simps(8,9) map_append)
  show "tap_run RTI es = RTI"
    "scan ShIR e_tdi RTI es = replicate (unat (jtag_ir_before s ! i)) True
        @ bits_lsb (unat (jtag_ir_length s ! i)) (0x0e :: u32)
        @ replicate (unat (jtag_ir_after s ! i)) True"
    "scan ShDR e_in RTI es = replicate i None @ map (\<lambda>b. Some (TDO, b)) bs"
    using ir_edges_tap [OF assms(9)] unfolding es dr
    by (simp_all add: idcode_edges_def i_def)
qed auto

lemma jtag_idcode_reads_device_witness:
  "runs (dap_handle_cmd_jtag_idcode (array_platform (\<lambda>_ _. (1, [])) 0)) (dap_sample 1 (a_of [1, 9]))
    (\<lambda>r t. \<exists>bs es. r = Ok () \<and> length bs = 32
    \<and> rb_reads a_view a_ok (request t) [9]
    \<and> rb_fills a_view a_ok 64 (response t) ([] @ [0x16, 0] @ sys_put_le32 (word_of_bits bs))
    \<and> edges t = edges (dap_sample 1 (a_of [1, 9])) @ es \<and> tap_run RTI es = RTI
    \<and> scan ShIR e_tdi RTI es = replicate (unat ([0, 4, 0, 0 :: u16] ! unat (1 :: byte))) True
        @ bits_lsb (unat ([4, 5, 0, 0 :: byte] ! unat (1 :: byte))) (0x0e :: u32)
        @ replicate (unat ([5, 0, 0, 0 :: u16] ! unat (1 :: byte))) True
    \<and> scan ShDR e_in RTI es = replicate (unat (1 :: byte)) None @ map (\<lambda>b. Some (TDO, b)) bs)"
  using jtag_idcode_reads_device [OF arr.ring_buffer_axioms, where s = "dap_sample 1 (a_of [1, 9])"
      and index = 1 and rest = "[9]" and out = "[]" and c = 64]
  by (simp add: dap_port_jtag_def)

text \<open>
  C25: \<open>DAP_JTAG_CONFIGURE\<close> sets up the chain tables: for every device its instruction register
  length, the exact number of bits before it and the exact number after it (the 16-bit sums do not
  wrap), it consumes exactly its bytes and keeps the driver invariant.
\<close>

theorem jtag_configure_tables:
  assumes "ring_buffer P view ok"
    "rb_reads view ok (request s) (of_nat (length ls) # ls @ rest)" "length ls \<le> 4"
    "rb_fills view ok c (response s) out" "length out + 2 \<le> c" "dap_inv s"
  shows "runs (dap_handle_cmd_jtag_configure P) s (\<lambda>r t. r = Ok ()
    \<and> rb_reads view ok (request t) rest \<and> rb_fills view ok c (response t) (out @ [0x15, 0])
    \<and> dap_inv t \<and> unat (jtag_count t) = length ls
    \<and> (\<forall>j<length ls. jtag_ir_length t ! j = ls ! j
        \<and> unat (jtag_ir_before t ! j) = sum_list (map unat (take j ls))
        \<and> unat (jtag_ir_after t ! j) = sum_list (map unat (drop (Suc j) ls))))"
  by (rule runs_mono [OF ring_buffer.runs_jtag_configure [OF assms]])
     (use assms(3) in \<open>auto simp: unat_ir_total\<close>)

lemma jtag_configure_tables_witness:
  "runs (dap_handle_cmd_jtag_configure (array_platform (\<lambda>_ _. (0, [])) 0))
    (dap_sample 1 (a_of [3, 4, 5, 6, 0x16])) (\<lambda>r t. r = Ok ()
    \<and> rb_reads a_view a_ok (request t) [0x16] \<and> rb_fills a_view a_ok 64 (response t) ([] @ [0x15, 0])
    \<and> dap_inv t \<and> unat (jtag_count t) = length [4, 5, 6 :: byte]
    \<and> (\<forall>j<length [4, 5, 6 :: byte]. jtag_ir_length t ! j = [4, 5, 6] ! j
        \<and> unat (jtag_ir_before t ! j) = sum_list (map unat (take j [4, 5, 6 :: byte]))
        \<and> unat (jtag_ir_after t ! j) = sum_list (map unat (drop (Suc j) [4, 5, 6 :: byte]))))"
  by (rule jtag_configure_tables [OF arr.ring_buffer_axioms]) simp_all

text \<open>
  C33: with more than four devices \<open>DAP_JTAG_CONFIGURE\<close> leaves the chain tables alone, drains the
  announced lengths from the request and answers with an error status; when the request is shorter
  than announced it fails with \<open>-EMSGSIZE\<close> and answers nothing.
\<close>

theorem jtag_configure_too_many:
  assumes "ring_buffer P view ok"
    "rb_reads view ok (request s) (count # bs)" "4 < unat count"
    "rb_fills view ok c (response s) out" "length out + 2 \<le> c"
  shows "runs (dap_handle_cmd_jtag_configure P) s (\<lambda>r t.
    if unat count \<le> length bs
    then r = Ok () \<and> rb_reads view ok (request t) (drop (unat count) bs)
      \<and> rb_fills view ok c (response t) (out @ [0x15, 0xff])
      \<and> t = s\<lparr>request := request t, response := response t\<rparr>
    else r = Fail EMSGSIZE \<and> t = s\<lparr>request := request t\<rparr>)"
  by (rule ring_buffer.runs_jtag_configure_many [OF assms])

lemma jtag_configure_too_many_witness:
  "runs (dap_handle_cmd_jtag_configure (array_platform (\<lambda>_ _. (0, [])) 0))
    (dap_sample 1 (a_of [5, 4, 5, 6, 7, 8, 0x16])) (\<lambda>r t.
    if unat (5 :: byte) \<le> length [4, 5, 6, 7, 8, 0x16 :: byte]
    then r = Ok () \<and> rb_reads a_view a_ok (request t) (drop (unat (5 :: byte)) [4, 5, 6, 7, 8, 0x16])
      \<and> rb_fills a_view a_ok 64 (response t) ([] @ [0x15, 0xff])
      \<and> t = (dap_sample 1 (a_of [5, 4, 5, 6, 7, 8, 0x16]))\<lparr>request := request t, response := response t\<rparr>
    else r = Fail EMSGSIZE \<and> t = (dap_sample 1 (a_of [5, 4, 5, 6, 7, 8, 0x16]))\<lparr>request := request t\<rparr>)"
  by (rule jtag_configure_too_many [OF arr.ring_buffer_axioms]) simp_all

text \<open>
  C14: \<open>DAP_JTAG_SEQUENCE\<close> with the port in JTAG mode plays every sequence on the wire.  The
  rising edges are, sequence after sequence, as many as its cycle count (64 for a count of zero),
  with the TMS value of the sequence and its TDI bits, least significant first; the TDO bits
  sampled in the sequences that capture are returned packed into bytes; exactly the bytes of the
  command are consumed and nothing but the buffers and the trace changes.
\<close>

theorem jtag_sequence_plays:
  assumes "ring_buffer P view ok"
    "rb_reads view ok (request s) (of_nat (length sqs) # seq_bytes sqs @ rest)"
    "length sqs \<le> 255" "list_all seq_wf sqs" "rb_fills view ok c (response s) out"
    "length out + 2 + seqs_len sqs \<le> c" "swj_port s = dap_port_jtag"
  shows "runs (dap_handle_cmd_jtag_sequence P) s (\<lambda>r t. \<exists>bss. r = Ok ()
    \<and> list_all2 (\<lambda>sq bs. length bs = tck_cycles_of (fst sq)) sqs bss
    \<and> rb_reads view ok (request t) rest
    \<and> rb_fills view ok c (response t) (out @ [0x14, 0] @ seqs_out sqs bss)
    \<and> edges t = edges s @ seqs_edges (bus s) (unat (swj_delay_ns s)) sqs bss \<and> io_frame s t)"
  by (rule ring_buffer.runs_jtag_sequence [OF assms])

lemma jtag_sequence_plays_witness:
  "runs (dap_handle_cmd_jtag_sequence (array_platform (\<lambda>_ _. (1, [])) 0))
    (dap_sample 1 (a_of [2, 0xc9, 0x55, 0x01, 0x03, 0x07, 0x16])) (\<lambda>r t. \<exists>bss. r = Ok ()
    \<and> list_all2 (\<lambda>sq bs. length bs = tck_cycles_of (fst sq)) [(0xc9, [0x55, 0x01 :: byte]), (0x03, [0x07])] bss
    \<and> rb_reads a_view a_ok (request t) [0x16]
    \<and> rb_fills a_view a_ok 64 (response t)
        ([] @ [0x14, 0] @ seqs_out [(0xc9, [0x55, 0x01]), (0x03, [0x07])] bss)
    \<and> edges t = edges (dap_sample 1 (a_of [2, 0xc9, 0x55, 0x01, 0x03, 0x07, 0x16]))
        @ seqs_edges (bus (dap_sample 1 (a_of [2, 0xc9, 0x55, 0x01, 0x03, 0x07, 0x16])))
            (unat (swj_delay_ns (dap_sample 1 (a_of [2, 0xc9, 0x55, 0x01, 0x03, 0x07, 0x16]))))
            [(0xc9, [0x55, 0x01]), (0x03, [0x07])] bss
    \<and> io_frame (dap_sample 1 (a_of [2, 0xc9, 0x55, 0x01, 0x03, 0x07, 0x16])) t)"
  by (rule jtag_sequence_plays [OF arr.ring_buffer_axioms])
     (simp_all add: seq_wf_def tck_cycles_of_def dap_port_jtag_def)

text \<open>
  C32: the same command while the port is not in JTAG mode moves no pin and changes nothing but
  the buffers; it still consumes exactly its own bytes, so the commands queued after it are found
  where they start, and it answers with an error status.
\<close>

theorem jtag_sequence_wrong_port:
  assumes "ring_buffer P view ok"
    "rb_reads view ok (request s) (of_nat (length sqs) # seq_bytes sqs @ rest)"
    "length sqs \<le> 255" "sqs \<noteq> []" "list_all seq_wf sqs" "rb_fills view ok c (response s) out"
    "length out + 2 \<le> c" "swj_port s \<noteq> dap_port_jtag"
  shows "runs (dap_handle_cmd_jtag_sequence P) s (\<lambda>r t. r = Ok ()
    \<and> rb_reads view ok (request t) rest \<and> rb_fills view ok c (response t) (out @ [0x14, 0xff])
    \<and> t = s\<lparr>request := request t, response := response t\<rparr>)"
  by (rule ring_buffer.runs_jtag_sequence_wrong [OF assms])

lemma jtag_sequence_wrong_port_witness:
  "runs (dap_handle_cmd_jtag_sequence (array_platform (\<lambda>_ _. (1, [])) 0))
    (dap_sample 2 (a_of [1, 0xc9, 0x55, 0x01, 0x16])) (\<lambda>r t. r = Ok ()
    \<and> rb_reads a_view a_ok (request t) [0x16] \<and> rb_fills a_view a_ok 64 (response t) ([] @ [0x14, 0xff])
    \<and> t = (dap_sample 2 (a_of [1, 0xc9, 0x55, 0x01, 0x16]))\<lparr>request := request t, response := response t\<rparr>)"
  by (rule jtag_sequence_wrong_port [OF arr.ring_buffer_axioms, where sqs = "[(0xc9, [0x55, 0x01])]"])
     (simp_all add: seq_wf_def tck_cycles_of_def dap_port_jtag_def)

end
