(* ===== verification/Swd.thy ===== *)
theory Swd
  imports Jtag
begin

text \<open>
  The SWD port (commands_swd.c): single clock cycles, the turnaround configuration and the
  sequence command.  The lemmas describe a command by what it does on the SWDIO line: which bits
  the probe drives, which it samples and in which cycles nobody samples and the probe is silent.
\<close>

section \<open>Clock cycles\<close>

definition swd_read_cycle :: "'rb platform \<Rightarrow> ('rb, byte) dap_cmd" where
  "swd_read_cycle P =
     bindC (set_pin P TCK_SWCLK 0) (\<lambda>_.
     bindC (wait_nanos P) (\<lambda>_.
     bindC (get_pin P TMS_SWDIO) (\<lambda>swdio.
     bindC (set_pin P TCK_SWCLK 1) (\<lambda>_.
     bindC (wait_nanos P) (\<lambda>_.
     ret (swdio AND 0x01))))))"

definition swd_write_cycle :: "'rb platform \<Rightarrow> byte \<Rightarrow> ('rb, unit) dap_cmd" where
  "swd_write_cycle P swdio =
     bindC (set_pin P TMS_SWDIO (uint (swdio AND 0x01))) (\<lambda>_.
     bindC (set_pin P TCK_SWCLK 0) (\<lambda>_.
     bindC (wait_nanos P) (\<lambda>_.
     bindC (set_pin P TCK_SWCLK 1) (\<lambda>_.
     wait_nanos P))))"

definition swd_swclk_cycle :: "'rb platform \<Rightarrow> ('rb, unit) dap_cmd" where
  "swd_swclk_cycle P =
     bindC (set_pin P TCK_SWCLK 0) (\<lambda>_.
     bindC (wait_nanos P) (\<lambda>_.
     bindC (set_pin P TCK_SWCLK 1) (\<lambda>_.
     wait_nanos P)))"

section \<open>Command handlers\<close>

definition dap_handle_cmd_swd_configure :: "'rb platform \<Rightarrow> ('rb, unit) dap_cmd" where
  "dap_handle_cmd_swd_configure P =
     bindC (get_u8 P) (\<lambda>configuration.
     bindC (modify (swd_turnaround_cycles_update (\<lambda>_. (configuration AND 0x03) + 1))) (\<lambda>_.
     bindC (modify (swd_data_phase_update (\<lambda>_. configuration AND 0x04 \<noteq> 0))) (\<lambda>_.
     put_bytes P [dap_cmd_swd_configure, dap_cmd_response_ok])))"

text \<open>Up to 8 cycles per byte, read into a response byte or written from a request byte.\<close>

fun swd_read_bits :: "'rb platform \<Rightarrow> nat \<Rightarrow> byte \<Rightarrow> ('rb, byte) dap_cmd" where
  "swd_read_bits P 0 swdio = ret swdio"
| "swd_read_bits P (Suc n) swdio =
     bindC (swd_read_cycle P) (\<lambda>swdio_bit.
     swd_read_bits P n (drop_bit 1 swdio OR push_bit 7 swdio_bit))"

fun swd_write_bits :: "'rb platform \<Rightarrow> nat \<Rightarrow> byte \<Rightarrow> ('rb, unit) dap_cmd" where
  "swd_write_bits P 0 swdio = ret ()"
| "swd_write_bits P (Suc n) swdio =
     bindC (swd_write_cycle P swdio) (\<lambda>_. swd_write_bits P n (drop_bit 1 swdio))"

function swd_read_bytes :: "'rb platform \<Rightarrow> nat \<Rightarrow> ('rb, unit) dap_cmd" where
  "swd_read_bytes P swclk_cycles =
     (if swclk_cycles = 0 then ret ()
      else let n = min 8 swclk_cycles in
        bindC (swd_read_bits P n 0) (\<lambda>swdio.
        bindC (put_bytes P [drop_bit (8 - n) swdio]) (\<lambda>_.
        swd_read_bytes P (swclk_cycles - n))))"
  by pat_completeness auto
termination by (relation "measure (\<lambda>(P, n). n)") auto

function swd_write_bytes :: "'rb platform \<Rightarrow> nat \<Rightarrow> ('rb, unit) dap_cmd" where
  "swd_write_bytes P swclk_cycles =
     (if swclk_cycles = 0 then ret ()
      else let n = min 8 swclk_cycles in
        bindC (get_u8 P) (\<lambda>swdio.
        bindC (swd_write_bits P n swdio) (\<lambda>_.
        swd_write_bytes P (swclk_cycles - n))))"
  by pat_completeness auto
termination by (relation "measure (\<lambda>(P, n). n)") auto

declare swd_read_bytes.simps [simp del] swd_write_bytes.simps [simp del]

definition swclk_cycles_of :: "byte \<Rightarrow> nat" where
  "swclk_cycles_of info = (if info AND 0x3f = 0 then 64 else unat (info AND 0x3f))"

text \<open>With another port, a sequence is answered, or its bytes are consumed, without moving a pin.\<close>

definition swd_sequence_skip :: "'rb platform \<Rightarrow> byte \<Rightarrow> ('rb, unit) dap_cmd" where
  "swd_sequence_skip P info =
     repeat ((swclk_cycles_of info + 7) div 8)
       (if info AND 0x80 \<noteq> 0 then put_bytes P [0] else bindC (get_u8 P) (\<lambda>_. ret ()))"

fun swd_sequence_loop :: "'rb platform \<Rightarrow> nat \<Rightarrow> byte \<Rightarrow> ('rb, byte) dap_cmd" where
  "swd_sequence_loop P 0 status = ret status"
| "swd_sequence_loop P (Suc n) status =
     bindC (get_u8 P) (\<lambda>info.
     bindC (gets swj_port) (\<lambda>port.
     if port \<noteq> dap_port_swd
     then bindC (swd_sequence_skip P info) (\<lambda>_. swd_sequence_loop P n dap_cmd_response_error)
     else if info AND 0x80 \<noteq> 0
     then bindC (config_pin P TMS_SWDIO [GPIO_INPUT]) (\<lambda>_.
          bindC (swd_read_bytes P (swclk_cycles_of info)) (\<lambda>_.
          swd_sequence_loop P n status))
     else bindC (config_pin P TMS_SWDIO [GPIO_INPUT, GPIO_OUTPUT]) (\<lambda>_.
          bindC (swd_write_bytes P (swclk_cycles_of info)) (\<lambda>_.
          swd_sequence_loop P n status))))"

definition dap_handle_cmd_swd_sequence :: "'rb platform \<Rightarrow> ('rb, unit) dap_cmd" where
  "dap_handle_cmd_swd_sequence P =
     bindC (put_bytes P [dap_cmd_swd_sequence]) (\<lambda>_.
     bindC (put_later P 1) (\<lambda>response_status.
     bindC (get_u8 P) (\<lambda>seq_count.
     bindC (swd_sequence_loop P (unat seq_count) dap_cmd_response_ok) (\<lambda>status.
     bindC (whenC (status = dap_cmd_response_ok)
             (config_pin P TMS_SWDIO [GPIO_INPUT, GPIO_OUTPUT])) (\<lambda>_.
     store_response P response_status [status])))))"

section \<open>What a command does on the SWDIO line\<close>

text \<open>
  A clock cycle of the SWD bus as a target sees it: the probe drives a bit, or it is silent and
  samples one, or it is silent and ignores the line.
\<close>

datatype swd_bit = Driven bool | Sampled bool | Undriven

definition swd_obs :: "edge \<Rightarrow> swd_bit" where
  "swd_obs e = (if e_out e then Driven (e_tms e)
     else case e_in e of Some (TMS_SWDIO, b) \<Rightarrow> Sampled b | _ \<Rightarrow> Undriven)"

text \<open>The driver of a platform whose pins can be configured.\<close>

definition gpio_ok :: "'rb platform \<Rightarrow> bool" where
  "gpio_ok P \<longleftrightarrow> (\<forall>h p fs. 0 \<le> fst (p_hw P h (GpioConfigure p fs)))"

text \<open>
  \<open>swd d m (out, lvl) R\<close>: from a state that is \<open>d\<close> up to the trace, with the SWDIO driver switched
  \<open>out\<close> and its output level \<open>lvl\<close>, the command returns \<open>v\<close>, makes the cycles \<open>bs\<close>, each with the
  clock low for half a period, and leaves the line as \<open>l\<close>, with \<open>R v bs l\<close>.
\<close>

definition swd :: "'rb dap_driver \<Rightarrow> ('rb, 'a) dap_cmd \<Rightarrow> bool \<times> bool
    \<Rightarrow> ('a \<Rightarrow> swd_bit list \<Rightarrow> bool \<times> bool \<Rightarrow> bool) \<Rightarrow> bool" where
  "swd d m l R \<longleftrightarrow> (\<forall>w. (w_out w, w_tms w) = l \<longrightarrow> line d m w (\<lambda>v es w'.
     (\<forall>e\<in>set es. e_low e = half d) \<and> R v (map swd_obs es) (w_out w', w_tms w')))"

lemma swdI:
  "(\<And>w. w_out w = fst l \<Longrightarrow> w_tms w = snd l \<Longrightarrow> line d m w (\<lambda>v es w'.
     (\<forall>e\<in>set es. e_low e = half d) \<and> R v (map swd_obs es) (w_out w', w_tms w'))) \<Longrightarrow> swd d m l R"
  by (auto simp: swd_def)

lemma swd_ret: "R v [] l \<Longrightarrow> swd d (ret v) l R"
  by (rule swdI, rule line_ret) (cases l, simp)

lemma swd_gets: "(\<And>h. f (d\<lparr>trace := h\<rparr>) = f d) \<Longrightarrow> R (f d) [] l \<Longrightarrow> swd d (gets f) l R"
  by (rule swdI, rule line_gets) (cases l, simp_all)

lemma swd_bindC:
  assumes "swd d m l (\<lambda>v bs l'. swd d (k v) l' (\<lambda>v' cs l''. R v' (bs @ cs) l''))"
  shows "swd d (bindC m k) l R"
proof (rule swdI, rule line_bindC)
  fix w :: wire assume "w_out w = fst l" "w_tms w = snd l"
  then have "line d m w (\<lambda>v es w'. (\<forall>e\<in>set es. e_low e = half d) \<and>
     swd d (k v) (w_out w', w_tms w') (\<lambda>v' cs l''. R v' (map swd_obs es @ cs) l''))"
    using assms by (auto simp: swd_def)
  then show "line d m w (\<lambda>v es w'. line d (k v) w' (\<lambda>v' fs w''.
      (\<forall>e\<in>set (es @ fs). e_low e = half d) \<and> R v' (map swd_obs (es @ fs)) (w_out w'', w_tms w'')))"
    by (rule line_mono) (auto simp: swd_def elim!: line_mono)
qed

lemma swd_if: "(b \<Longrightarrow> swd d m l R) \<Longrightarrow> (\<not> b \<Longrightarrow> swd d n l R) \<Longrightarrow> swd d (if b then m else n) l R"
  by simp

lemma swd_mono: "swd d m l S \<Longrightarrow> (\<And>v bs l'. S v bs l' \<Longrightarrow> R v bs l') \<Longrightarrow> swd d m l R"
  unfolding swd_def by (blast intro: line_mono)

lemma swd_set_data: "R () [] (fst l, v \<noteq> 0) \<Longrightarrow> swd d (set_pin P TMS_SWDIO v) l R"
  by (rule swdI, rule line_data) simp

lemma swd_swclk:
  "R () [if fst l then Driven (snd l) else Undriven] l \<Longrightarrow> swd d (swd_swclk_cycle P) l R"
  unfolding swd_swclk_cycle_def jtag_tck_cycle_def [symmetric]
  by (rule swdI, rule line_jtag_tck_cycle) (cases l, auto simp: swd_obs_def split: if_splits)

lemma swd_write:
  "fst l \<Longrightarrow> R () [Driven (odd b)] (fst l, odd b) \<Longrightarrow> swd d (swd_write_cycle P b) l R"
  unfolding swd_write_cycle_def swd_swclk_cycle_def [symmetric]
  by (rule swd_bindC, rule swd_set_data, rule swd_swclk) (simp add: odd_and_1)

lemma swd_read:
  assumes "\<not> fst l" "\<And>b. R (of_bool b) [Sampled b] l"
  shows "swd d (swd_read_cycle P) l R"
  unfolding swd_read_cycle_def
  apply (rule swdI)
  apply (rule line_bindC line_tck_low line_tck_high line_wait line_get_pin line_ret
    | simp add: and_1_of_bool)+
  using assms(1) assms(2) [of True] assms(2) [of False]
  apply (cases l, simp add: swd_obs_def)
  done

lemma line_config:
  "gpio_ok P \<Longrightarrow>
   R () [] (w\<lparr>w_out := drives fs, w_tms := (w_tms w \<or> GPIO_OUTPUT_ACTIVE \<in> set fs)\<rparr>) \<Longrightarrow>
   line d (config_pin P TMS_SWDIO fs) w R"
  unfolding config_pin_def hw_def bindC_assoc
  apply (rule lineI)
  apply (rule drv_bindC [OF drv_hw_full])
  apply (clarsimp simp: gpio_ok_def)
  apply (metis drv_ret fatal_check_simps(1) linorder_not_le)
  done

lemma swd_config:
  "gpio_ok P \<Longrightarrow> R () [] (drives fs, snd l \<or> GPIO_OUTPUT_ACTIVE \<in> set fs) \<Longrightarrow>
   swd d (config_pin P TMS_SWDIO fs) l R"
  by (rule swdI, rule line_config) simp_all

lemma swd_repeat_swclk:
  "R () (replicate n (if fst l then Driven (snd l) else Undriven)) l \<Longrightarrow>
   swd d (repeat n (swd_swclk_cycle P)) l R"
proof (induction n arbitrary: R)
  case (Suc n)
  show ?case
    unfolding repeat.simps
    by (rule swd_bindC, rule swd_swclk, rule Suc.IH) (use Suc.prems in simp)
qed (simp add: swd_ret)

lemma drives_simps [simp]:
  "drives [GPIO_INPUT] = False" "drives [GPIO_INPUT, GPIO_OUTPUT] = True"
  by (simp_all add: drives_def)

lemmas swd_steps = swd_bindC swd_swclk swd_write swd_read swd_set_data swd_config swd_repeat_swclk


text \<open>The loops over the bits of a byte.\<close>

lemma swd_read_bits_line:
  "\<not> fst l \<Longrightarrow> n \<le> 8 \<Longrightarrow>
   (\<And>bs. length bs = n \<Longrightarrow> R (drop_bit n x OR push_bit (8 - n) (word_of_bits bs)) (map Sampled bs) l) \<Longrightarrow>
   swd d (swd_read_bits P n x) l R"
proof (induction n arbitrary: x R)
  case 0
  then show ?case using 0(3) [of "[]"] by (simp add: swd_ret)
next
  case (Suc n)
  show ?case
    unfolding swd_read_bits.simps
  proof (rule swd_bindC, rule swd_read [OF Suc.prems(1)], rule Suc.IH [OF Suc.prems(1)], goal_cases)
    case (2 b bs)
    then show ?case
      using Suc.prems(2) Suc.prems(3) [of "b # bs"] shift_in_byte [of n bs x b] by simp
  qed (use Suc.prems in simp)
qed

lemma swd_write_bits_line:
  "fst l \<Longrightarrow> (\<And>v. R () (map Driven (bits_lsb n x)) (True, v)) \<Longrightarrow> swd d (swd_write_bits P n x) l R"
proof (induction n arbitrary: x l R)
  case 0
  then show ?case using 0(2) [of "snd l"] by (cases l) (simp add: swd_ret)
next
  case (Suc n)
  show ?case
    unfolding swd_write_bits.simps
    by (rule swd_bindC, rule swd_write [OF Suc.prems(1)], rule Suc.IH)
       (use Suc.prems in \<open>simp_all add: bits_lsb_Suc bit_0\<close>)
qed

section \<open>Handlers on the SWDIO line\<close>

definition swd_line :: "'rb dap_driver \<Rightarrow> bool \<times> bool" where
  "swd_line s = (w_out (bus s), w_tms (bus s))"

text \<open>From \<open>s\<close> to \<open>t\<close> the cycles \<open>bs\<close> went by, each with the clock low for half a period.\<close>

definition swd_adds :: "'rb dap_driver \<Rightarrow> swd_bit list \<Rightarrow> 'rb dap_driver \<Rightarrow> bool" where
  "swd_adds s bs t \<longleftrightarrow> (\<exists>es. edges t = edges s @ es \<and> map swd_obs es = bs
     \<and> (\<forall>e\<in>set es. e_low e = half s))"

lemma swd_adds_Nil [simp]: "swd_adds s [] s"
  by (simp add: swd_adds_def)

lemma swd_adds_trans:
  "swd_adds s bs t \<Longrightarrow> swd_adds t cs u \<Longrightarrow> swj_delay_ns t = swj_delay_ns s \<Longrightarrow> swd_adds s (bs @ cs) u"
  unfolding swd_adds_def by (elim exE conjE) (auto intro!: exI)

lemma swd_adds_updates [simp]:
  "swd_adds (s\<lparr>request := r\<rparr>) bs t = swd_adds s bs t" "swd_adds (s\<lparr>response := r\<rparr>) bs t = swd_adds s bs t"
  "swd_adds s bs (t\<lparr>request := r\<rparr>) = swd_adds s bs t" "swd_adds s bs (t\<lparr>response := r\<rparr>) = swd_adds s bs t"
  "swd_line (s\<lparr>request := r\<rparr>) = swd_line s" "swd_line (s\<lparr>response := r\<rparr>) = swd_line s"
  by (simp_all add: swd_adds_def swd_line_def)

lemma swdD:
  assumes "swd s m (swd_line s) R"
  shows "\<exists>v t bs. m s = (Ok v, t) \<and> t = s\<lparr>trace := trace t\<rparr> \<and> swd_adds s bs t \<and> R v bs (swd_line t)"
proof -
  have "line s m (bus s) (\<lambda>v es w. (\<forall>e\<in>set es. e_low e = half s) \<and> R v (map swd_obs es) (w_out w, w_tms w))"
    using assms unfolding swd_def swd_line_def by blast
  from lineD [OF this] obtain v t es where
    m: "m s = (Ok v, t)" "moves s es (bus t) t" "\<forall>e\<in>set es. e_low e = half s"
      "R v (map swd_obs es) (w_out (bus t), w_tms (bus t))"
    by (auto simp: drv_def moves_def)
  have "t = s\<lparr>trace := trace t\<rparr>" using m(2) unfolding moves_def by blast
  moreover have "swd_adds s (map swd_obs es) t"
    using m(3) moves_edges [OF m(2)] unfolding swd_adds_def by blast
  ultimately show ?thesis using m(1,4) unfolding swd_line_def by blast
qed

lemma runs_swd:
  assumes "swd s m (swd_line s) (\<lambda>v bs l. \<forall>t. swd_adds s bs t \<longrightarrow> swd_line t = l \<longrightarrow> io_frame s t
     \<longrightarrow> request t = request s \<longrightarrow> response t = response s \<longrightarrow> Q (Ok v) t)"
  shows "runs m s Q"
proof (rule runs_line)
  have "line s m (bus s) (\<lambda>v es w. (\<forall>e\<in>set es. e_low e = half s) \<and> (\<forall>t. swd_adds s (map swd_obs es) t
      \<longrightarrow> swd_line t = (w_out w, w_tms w) \<longrightarrow> io_frame s t \<longrightarrow> request t = request s
      \<longrightarrow> response t = response s \<longrightarrow> Q (Ok v) t))"
    using assms unfolding swd_def swd_line_def by blast
  then show "line s m (bus s) (\<lambda>v es w. \<forall>t. moves s es w t \<longrightarrow> Q (Ok v) t)"
  proof (rule line_mono, elim conjE, intro allI impI)
    fix v es w t
    assume low: "\<forall>e\<in>set es. e_low e = half s" and m: "moves s es w t"
      and Q: "\<forall>t. swd_adds s (map swd_obs es) t \<longrightarrow> swd_line t = (w_out w, w_tms w)
        \<longrightarrow> io_frame s t \<longrightarrow> request t = request s \<longrightarrow> response t = response s \<longrightarrow> Q (Ok v) t"
    have "swd_adds s (map swd_obs es) t"
      using low moves_edges [OF m] unfolding swd_adds_def by blast
    then show "Q (Ok v) t"
      using Q moves_bus [OF m] moves_io_frame [OF m] moves_frame(1,2) [OF m] by (simp add: swd_line_def)
  qed
qed

context ring_buffer
begin

lemma runs_swd_read_bytes:
  assumes "rb_fills view ok c (response s) out" "length out + (n + 7) div 8 \<le> c"
    "\<not> fst (swd_line s)"
    and "\<And>t bs. length bs = n \<Longrightarrow> swd_adds s (map Sampled bs) t \<Longrightarrow> swd_line t = swd_line s \<Longrightarrow>
      io_frame s t \<Longrightarrow> request t = request s \<Longrightarrow>
      rb_fills view ok c (response t) (out @ bytes_of_bits bs) \<Longrightarrow> Q (Ok ()) t"
  shows "runs (swd_read_bytes P n) s Q"
  using assms
proof (induction n arbitrary: s out rule: less_induct)
  case (less n)
  show ?case
  proof (cases "n = 0")
    case True
    then show ?thesis
      using less.prems(4) [of "[]" s] less.prems(1) by (simp add: swd_read_bytes.simps)
  next
    case False
    define k where "k = min 8 n"
    have k: "k \<le> 8" "k \<le> n" "n - k < n" using False by (auto simp: k_def)
    have room: "length out + 1 + (n - k + 7) div 8 \<le> c"
      using bytes_step_length [of n "(n + 7) div 8 - 1"] False less.prems(2)
      by (simp add: k_def div_greater_zero_iff)
    have step: "runs (swd_read_bytes P (n - k)) t Q"
      if t: "length bs = k" "swd_adds s (map Sampled bs) t" "swd_line t = swd_line s" "io_frame s t"
        "request t = request s" "rb_fills view ok c (response t) (out @ [word_of_bits bs])" for t bs
    proof (rule less.IH [OF k(3) t(6)], goal_cases)
      case (3 cs u)
      have "swd_adds s (map Sampled (bs @ cs)) u"
        using swd_adds_trans [OF t(2) 3(2)] io_frame_fields(2) [OF t(4)] by simp
      moreover have "bytes_of_bits (bs @ cs) = word_of_bits bs # bytes_of_bits cs"
        using t(1) 3(1) False by (intro bytes_of_bits_step [of bs n]) (auto simp: k_def)
      ultimately show ?case
        using 3 t k by (intro less.prems(4) [of "bs @ cs"]) (auto intro: io_frame_trans)
    qed (use room less.prems(3) t(3) in simp_all)
    show ?thesis
      apply (subst swd_read_bytes.simps)
      using False apply (simp add: k_def [symmetric] del: One_nat_def)
      apply (rule runs_bindI, rule runs_swd, rule swd_read_bits_line)
        apply (use less.prems(3) k in simp_all)
      apply (intro allI impI)
      apply (rule runs_bindI, rule runs_put_bytes [where c = c and out = out])
        apply (use less.prems(1) room in \<open>simp_all add: shift_in_short\<close>)
      apply (rule step, simp_all)
      done
  qed
qed

lemma runs_swd_write_bytes:
  assumes "rb_reads view ok (request s) (xs @ rest)" "length xs = (n + 7) div 8" "fst (swd_line s)"
    and "\<And>t. swd_adds s (map Driven (take n (concat (map (bits_lsb 8) xs)))) t \<Longrightarrow>
      fst (swd_line t) \<Longrightarrow> io_frame s t \<Longrightarrow> rb_reads view ok (request t) rest \<Longrightarrow>
      response t = response s \<Longrightarrow> Q (Ok ()) t"
  shows "runs (swd_write_bytes P n) s Q"
  using assms
proof (induction xs arbitrary: n s)
  case Nil
  then have "n = 0" by (simp add: div_eq_0_iff)
  then show ?case
    using Nil.prems(4) [of s] Nil.prems(1,3) by (simp add: swd_write_bytes.simps)
next
  case (Cons x xs)
  define k where "k = min 8 n"
  have n: "0 < n" using Cons.prems(2) by (cases n) auto
  have len: "length xs = (n - k + 7) div 8"
    using bytes_step_length [OF n, of "length xs"] Cons.prems(2) by (simp add: k_def)
  have step: "runs (swd_write_bytes P (n - k)) t Q"
    if t: "rb_reads view ok (request t) (xs @ rest)" "swd_adds s (map Driven (bits_lsb k x)) t"
      "fst (swd_line t)" "io_frame s t" "response t = response s" for t
  proof (rule Cons.IH [OF t(1) len t(3)], goal_cases)
    case (1 u)
    have "swd_adds s (map Driven (take n (concat (map (bits_lsb 8) (x # xs))))) u"
      unfolding take_bits_step map_append k_def [symmetric]
      using swd_adds_trans [OF t(2) 1(1)] io_frame_fields(2) [OF t(4)] by simp
    then show ?case
      using 1 t by (intro Cons.prems(4)) (auto intro: io_frame_trans)
  qed
  have "rb_reads view ok (request s) (x # xs @ rest)" using Cons.prems(1) by simp
  then show ?case
    apply (subst swd_write_bytes.simps)
    using n apply (simp add: k_def [symmetric])
    apply (rule runs_bindI, rule runs_get_u8, assumption)
    apply simp
    apply (rule runs_bindI, rule runs_swd, rule swd_write_bits_line)
     apply (use Cons.prems(3) in simp)
    apply (simp, intro allI impI)
    apply (rule step)
        apply simp_all
    done
qed

end

text \<open>
  A whole \<open>swd_sequence\<close> command: a sequence is its information byte and, when the probe writes,
  its bytes; \<open>bss\<close> are the bits sampled in each sequence.
\<close>

definition swd_seq_wf :: "byte \<times> byte list \<Rightarrow> bool" where
  "swd_seq_wf sq \<longleftrightarrow> length (snd sq) =
     (if fst sq AND 0x80 \<noteq> 0 then 0 else (swclk_cycles_of (fst sq) + 7) div 8)"

definition swd_seq_bits :: "byte \<times> byte list \<Rightarrow> bool list \<Rightarrow> swd_bit list" where
  "swd_seq_bits sq bs = (if fst sq AND 0x80 \<noteq> 0 then map Sampled bs
     else map Driven (take (swclk_cycles_of (fst sq)) (concat (map (bits_lsb 8) (snd sq)))))"

definition swd_seq_reads :: "byte \<times> byte list \<Rightarrow> bool list \<Rightarrow> bool" where
  "swd_seq_reads sq bs \<longleftrightarrow> length bs = (if fst sq AND 0x80 \<noteq> 0 then swclk_cycles_of (fst sq) else 0)"

definition swd_seqs_len :: "(byte \<times> byte list) list \<Rightarrow> nat" where
  "swd_seqs_len sqs = sum_list (map (\<lambda>(i, xs).
     if i AND 0x80 \<noteq> 0 then (swclk_cycles_of i + 7) div 8 else 0) sqs)"

lemma swd_seqs_simps [simp]:
  "swd_seqs_len [] = 0" "swd_seqs_len ((i, xs) # sqs) =
     (if i AND 0x80 \<noteq> 0 then (swclk_cycles_of i + 7) div 8 else 0) + swd_seqs_len sqs"
  by (simp_all add: swd_seqs_len_def)

context ring_buffer
begin

lemma runs_swd_sequence_loop:
  assumes "gpio_ok P" "rb_reads view ok (request s) (seq_bytes sqs @ rest)"
    "list_all swd_seq_wf sqs" "rb_fills view ok c (response s) out"
    "length out + swd_seqs_len sqs \<le> c" "swj_port s = dap_port_swd"
    and "\<And>t bss. list_all2 swd_seq_reads sqs bss \<Longrightarrow>
      swd_adds s (concat (map2 swd_seq_bits sqs bss)) t \<Longrightarrow> io_frame s t \<Longrightarrow>
      rb_reads view ok (request t) rest \<Longrightarrow>
      rb_fills view ok c (response t) (out @ concat (map bytes_of_bits bss)) \<Longrightarrow> Q (Ok status) t"
  shows "runs (swd_sequence_loop P (length sqs) status) s Q"
  using assms(2-)
proof (induction sqs arbitrary: s out)
  case Nil
  then show ?case using Nil.prems(6) [of "[]" s] by simp
next
  case (Cons sq sqs)
  obtain i xs where sq: "sq = (i, xs)" by (cases sq)
  have step: "runs (swd_sequence_loop P (length sqs) status) u Q"
    if u: "swd_seq_reads sq bs" "swd_adds s (swd_seq_bits sq bs) u" "io_frame s u"
      "rb_reads view ok (request u) (seq_bytes sqs @ rest)"
      "rb_fills view ok c (response u) (out @ bytes_of_bits bs)" for u bs
  proof (rule Cons.IH [OF u(4) _ u(5)], goal_cases)
    case 2
    then show ?case
      using Cons.prems(4) u(1) by (auto simp: sq swd_seq_reads_def length_bytes_of_bits split: if_splits)
  next
    case (4 bss t)
    then show ?case
      using u swd_adds_trans [OF u(2) 4(2)] io_frame_fields(2) [OF u(3)]
      by (intro Cons.prems(6) [of "bs # bss"]) (auto intro: io_frame_trans)
  qed (use Cons.prems io_frame_fields(1) [OF u(3)] in simp_all)
  have wf: "swd_seq_wf (i, xs)" using Cons.prems(2) by (simp add: sq)
  have read: "rb_reads view ok (request s) (i # xs @ seq_bytes sqs @ rest)"
    using Cons.prems(1) by (simp add: sq)
  show ?case
  proof (cases "i AND 0x80 = 0")
    case False
    then have xs: "xs = []" using wf by (simp add: swd_seq_wf_def)
    show ?thesis
      using False read
      apply simp
      apply (rule runs_bindI, rule runs_get_u8, assumption)
      apply (simp add: runs_bindC Cons.prems(5))
      apply (rule runs_swd, rule swd_config [OF assms(1)])
      apply (simp, intro allI impI)
      apply (rule runs_bindI, rule runs_swd_read_bytes [where c = c and out = out])
         apply (use Cons.prems(3,4) in \<open>simp_all add: sq\<close>)
      subgoal for r t u bs
        apply (rule step [of bs])
            apply (simp_all add: sq xs swd_seq_reads_def swd_seq_bits_def)
         apply (use swd_adds_trans [of s "[]" t "map Sampled bs" u] io_frame_fields(2) [of s t] in simp)
        apply (use io_frame_trans [of s t u] in simp)
        done
      done
  next
    case True
    then have len: "length xs = (swclk_cycles_of i + 7) div 8" using wf by (simp add: swd_seq_wf_def)
    show ?thesis
      using True read
      apply simp
      apply (rule runs_bindI, rule runs_get_u8, assumption)
      apply (simp add: runs_bindC Cons.prems(5))
      apply (rule runs_swd, rule swd_config [OF assms(1)])
      apply (simp, intro allI impI)
      subgoal for r t
        apply (rule runs_bindI, rule runs_swd_write_bytes [where xs = xs and rest = "seq_bytes sqs @ rest", OF _ len])
          apply simp_all
        subgoal for u
          apply (rule step [of "[]"])
              apply (use Cons.prems(3) in \<open>simp_all add: sq swd_seq_reads_def swd_seq_bits_def\<close>)
           apply (use swd_adds_trans [of s "[]" t _ u] io_frame_fields(2) [of s t] in simp)
          apply (use io_frame_trans [of s t u] in simp)
          done
        done
      done
  qed
qed

lemma runs_swd_sequence:
  assumes "gpio_ok P" "rb_reads view ok (request s) (of_nat (length sqs) # seq_bytes sqs @ rest)"
    "length sqs \<le> 255" "list_all swd_seq_wf sqs" "rb_fills view ok c (response s) out"
    "length out + 2 + swd_seqs_len sqs \<le> c" "swj_port s = dap_port_swd"
  shows "runs (dap_handle_cmd_swd_sequence P) s (\<lambda>r t. \<exists>bss. r = Ok ()
    \<and> list_all2 swd_seq_reads sqs bss \<and> rb_reads view ok (request t) rest
    \<and> rb_fills view ok c (response t) (out @ [0x1d, 0] @ concat (map bytes_of_bits bss))
    \<and> swd_adds s (concat (map2 swd_seq_bits sqs bss)) t \<and> fst (swd_line t) \<and> io_frame s t)"
proof -
  have n: "unat (of_nat (length sqs) :: byte) = length sqs"
    using assms(3) by (simp add: unat_of_nat)
  show ?thesis
    unfolding dap_handle_cmd_swd_sequence_def
    apply (rule runs_bindI, rule runs_put_bytes [OF assms(5)])
    using assms(6) apply simp
    apply simp
    apply (rule runs_bindI, rule runs_put_later [where c = c])
       apply simp
      apply (use assms(6) in simp)
     apply simp
    apply (simp add: length_Suc_conv, elim exE, simp)
    subgoal for r r2 junk x
      apply (rule runs_bindI)
      apply (rule runs_get_u8 [of _ "of_nat (length sqs)" "seq_bytes sqs @ rest"])
       apply (simp add: assms(2))
      apply (simp add: n)
      apply (rule runs_bindI)
      apply (rule runs_swd_sequence_loop [OF assms(1), where rest = rest and c = c and out = "out @ [0x1d, x]"])
           apply (use assms(4,6,7) in \<open>simp_all add: dap_cmd_ids dap_consts\<close>)
      apply (rule runs_bindI, rule runs_swd, rule swd_config [OF assms(1)])
      apply (simp, intro allI impI)
      subgoal for r3 t bss u
        apply (rule runs_store_response [where pre = "out @ [0x1d]" and old = "[x]"
              and post = "concat (map bytes_of_bits bss)" and c = c, simplified])
           apply simp_all
        apply (rule exI [of _ bss])
        using swd_adds_trans [of s _ t "[]" u] io_frame_fields(2) [of s t] io_frame_trans [of s t u]
        apply simp
        done
      done
    done
qed

end

text \<open>
  C15: \<open>DAP_SWD_SEQUENCE\<close> on an SWD port: sequence after sequence the probe drives exactly the bits
  of the request, least significant first, or stays silent and samples as many bits as asked for;
  the sampled bits are answered packed into bytes, the request is consumed to its end, and the
  probe drives the line again afterwards.
\<close>

theorem swd_sequence_plays:
  assumes "ring_buffer P view ok" "gpio_ok P"
    "rb_reads view ok (request s) (of_nat (length sqs) # seq_bytes sqs @ rest)"
    "length sqs \<le> 255" "list_all swd_seq_wf sqs" "rb_fills view ok c (response s) out"
    "length out + 2 + swd_seqs_len sqs \<le> c" "swj_port s = dap_port_swd"
  shows "runs (dap_handle_cmd_swd_sequence P) s (\<lambda>r t. \<exists>bss. r = Ok ()
    \<and> list_all2 swd_seq_reads sqs bss \<and> rb_reads view ok (request t) rest
    \<and> rb_fills view ok c (response t) (out @ [0x1d, 0] @ concat (map bytes_of_bits bss))
    \<and> swd_adds s (concat (map2 swd_seq_bits sqs bss)) t \<and> fst (swd_line t) \<and> io_frame s t)"
  by (rule ring_buffer.runs_swd_sequence [OF assms])

lemma swd_sequence_plays_witness:
  "runs (dap_handle_cmd_swd_sequence (array_platform (\<lambda>_ _. (1, [])) 0))
    (dap_sample 2 (a_of [2, 0x8c, 0x03, 0x05, 0x16])) (\<lambda>r t. \<exists>bss. r = Ok ()
    \<and> list_all2 swd_seq_reads [(0x8c, []), (0x03, [0x05])] bss \<and> rb_reads a_view a_ok (request t) [0x16]
    \<and> rb_fills a_view a_ok 64 (response t) ([] @ [0x1d, 0] @ concat (map bytes_of_bits bss))
    \<and> swd_adds (dap_sample 2 (a_of [2, 0x8c, 0x03, 0x05, 0x16]))
        (concat (map2 swd_seq_bits [(0x8c, []), (0x03, [0x05])] bss)) t
    \<and> fst (swd_line t) \<and> io_frame (dap_sample 2 (a_of [2, 0x8c, 0x03, 0x05, 0x16])) t)"
  by (rule swd_sequence_plays [OF arr.ring_buffer_axioms])
     (simp_all add: gpio_ok_def array_platform_def swd_seq_wf_def swclk_cycles_of_def dap_port_swd_def)

end
