(* ===== verification/Transfers.thy ===== *)
theory Transfers
  imports Swd
begin

text \<open>
  Register transfers (commands_transfer.c): one transfer on either port, the retries on a WAIT
  acknowledge, and the handlers of the transfer commands.

  A transfer gives its acknowledge and the contents of \<open>*transfer_data\<close> afterwards.
\<close>

section \<open>Constants\<close>

definition jtag_ir_abort :: u32 where "jtag_ir_abort = 0x08"
definition jtag_ir_dpacc :: u32 where "jtag_ir_dpacc = 0x0a"
definition jtag_ir_apacc :: u32 where "jtag_ir_apacc = 0x0b"

definition dp_addr_rdbuff :: byte where "dp_addr_rdbuff = 0x0c"

definition transfer_request_apndp :: byte where "transfer_request_apndp = 0x01"
definition transfer_request_rnw :: byte where "transfer_request_rnw = 0x02"
definition transfer_request_match_value :: byte where "transfer_request_match_value = 0x10"
definition transfer_request_match_mask :: byte where "transfer_request_match_mask = 0x20"

definition transfer_response_ack_ok :: byte where "transfer_response_ack_ok = 0x01"
definition transfer_response_ack_wait :: byte where "transfer_response_ack_wait = 0x02"
definition transfer_response_fault :: byte where "transfer_response_fault = 0x04"
definition transfer_response_error :: byte where "transfer_response_error = 0x08"
definition transfer_response_value_mismatch :: byte where "transfer_response_value_mismatch = 0x10"

lemmas transfer_consts = jtag_ir_abort_def jtag_ir_dpacc_def jtag_ir_apacc_def dp_addr_rdbuff_def
  transfer_request_apndp_def transfer_request_rnw_def transfer_request_match_value_def
  transfer_request_match_mask_def transfer_response_ack_ok_def transfer_response_ack_wait_def
  transfer_response_fault_def transfer_response_error_def transfer_response_value_mismatch_def

text \<open>The request bits \<open>RnW\<close>, \<open>APnDP\<close>, \<open>MATCH_VALUE\<close> and \<open>MATCH_MASK\<close>.\<close>

abbreviation rnw :: "byte \<Rightarrow> bool" where "rnw req \<equiv> req AND transfer_request_rnw \<noteq> 0"
abbreviation apndp :: "byte \<Rightarrow> bool" where "apndp req \<equiv> req AND transfer_request_apndp \<noteq> 0"
abbreviation match_value :: "byte \<Rightarrow> bool" where
  "match_value req \<equiv> req AND transfer_request_match_value \<noteq> 0"
abbreviation match_mask :: "byte \<Rightarrow> bool" where
  "match_mask req \<equiv> req AND transfer_request_match_mask \<noteq> 0"

section \<open>One transfer on the JTAG port\<close>

definition jtag_transfer_read :: "'rb platform \<Rightarrow> byte \<Rightarrow> ('rb, u32) dap_cmd" where
  "jtag_transfer_read P after_index =
     bindC (jtag_shift_in P 0 31 0) (\<lambda>dr.
     if 0 < after_index
     then bindC (jtag_shift_in P 31 1 dr) (\<lambda>dr.
          bindC (repeat (unat after_index - 1) (jtag_tck_cycle P)) (\<lambda>_.
          bindC (set_pin P TMS_SWDIO 1) (\<lambda>_.
          bindC (jtag_tck_cycle P) (\<lambda>_.
          ret dr))))
     else bindC (set_pin P TMS_SWDIO 1) (\<lambda>_.
          jtag_shift_in P 31 1 dr))"

definition jtag_transfer_write :: "'rb platform \<Rightarrow> byte \<Rightarrow> u32 \<Rightarrow> ('rb, unit) dap_cmd" where
  "jtag_transfer_write P after_index dr =
     bindC (jtag_shift_out P 31 dr) (\<lambda>dr.
     if 0 < after_index
     then bindC (jtag_tdi_cycle P (ucast dr)) (\<lambda>_.
          bindC (repeat (unat after_index - 1) (jtag_tck_cycle P)) (\<lambda>_.
          bindC (set_pin P TMS_SWDIO 1) (\<lambda>_.
          jtag_tck_cycle P)))
     else bindC (set_pin P TMS_SWDIO 1) (\<lambda>_.
          jtag_tdi_cycle P (ucast dr)))"

definition jtag_transfer :: "'rb platform \<Rightarrow> byte \<Rightarrow> u32 \<Rightarrow> ('rb, byte \<times> u32) dap_cmd" where
  "jtag_transfer P req transfer_data =
     bindC (set_pin P TMS_SWDIO 1) (\<lambda>_.
     bindC (jtag_tck_cycle P) (\<lambda>_.
     bindC (set_pin P TMS_SWDIO 0) (\<lambda>_.
     bindC (jtag_tck_cycle P) (\<lambda>_.
     bindC (jtag_tck_cycle P) (\<lambda>_.
     bindC (gets jtag_index) (\<lambda>index.
     bindC (repeat (unat index) (jtag_tck_cycle P)) (\<lambda>_.
     bindC (jtag_tdio_cycle P (drop_bit 1 req)) (\<lambda>a1.
     bindC (jtag_tdio_cycle P (drop_bit 2 req)) (\<lambda>a0.
     bindC (jtag_tdio_cycle P (drop_bit 3 req)) (\<lambda>a2.
     bindC (gets jtag_count) (\<lambda>count.
     let ack = push_bit 1 a1 OR a0 OR push_bit 2 a2; after_index = count - index - 1 in
     bindC (if ack \<noteq> transfer_response_ack_ok
            then bindC (set_pin P TMS_SWDIO 1) (\<lambda>_.
                 bindC (jtag_tck_cycle P) (\<lambda>_. ret transfer_data))
            else if rnw req then jtag_transfer_read P after_index
            else bindC (jtag_transfer_write P after_index transfer_data) (\<lambda>_. ret transfer_data))
       (\<lambda>transfer_data.
     bindC (jtag_tck_cycle P) (\<lambda>_.
     bindC (set_pin P TMS_SWDIO 0) (\<lambda>_.
     bindC (jtag_tck_cycle P) (\<lambda>_.
     bindC (set_pin P TDI 1) (\<lambda>_.
     bindC (gets transfer_idle_cycles) (\<lambda>idle.
     bindC (repeat (unat idle) (jtag_tck_cycle P)) (\<lambda>_.
     ret (ack, transfer_data)))))))))))))))))))"

section \<open>One transfer on the SWD port\<close>

text \<open>The data loops; the parity is a 32-bit sum of which only the lowest bit is used.\<close>

fun swd_read_data :: "'rb platform \<Rightarrow> nat \<Rightarrow> nat \<Rightarrow> u32 \<Rightarrow> u32 \<Rightarrow> ('rb, u32 \<times> u32) dap_cmd" where
  "swd_read_data P i 0 read parity = ret (read, parity)"
| "swd_read_data P i (Suc n) read parity =
     bindC (swd_read_cycle P) (\<lambda>b.
     swd_read_data P (Suc i) n (read OR push_bit i (ucast b)) (parity + ucast b))"

fun swd_write_data :: "'rb platform \<Rightarrow> nat \<Rightarrow> u32 \<Rightarrow> u32 \<Rightarrow> ('rb, u32) dap_cmd" where
  "swd_write_data P 0 write parity = ret parity"
| "swd_write_data P (Suc n) write parity =
     bindC (swd_write_cycle P (ucast write)) (\<lambda>_.
     swd_write_data P n (drop_bit 1 write) (parity + write))"

definition swd_request :: "'rb platform \<Rightarrow> byte \<Rightarrow> ('rb, unit) dap_cmd" where
  "swd_request P req =
     (let ap_ndp = req; r_nw = drop_bit 1 req; a2 = drop_bit 2 req;
          a3 = drop_bit 3 req;
          parity = (ucast ap_ndp + ucast r_nw + ucast a2 + ucast a3 :: u32) in
     bindC (swd_write_cycle P 1) (\<lambda>_.
     bindC (swd_write_cycle P ap_ndp) (\<lambda>_.
     bindC (swd_write_cycle P r_nw) (\<lambda>_.
     bindC (swd_write_cycle P a2) (\<lambda>_.
     bindC (swd_write_cycle P a3) (\<lambda>_.
     bindC (swd_write_cycle P (ucast parity)) (\<lambda>_.
     bindC (swd_write_cycle P 0) (\<lambda>_.
     swd_write_cycle P 1))))))))"

text \<open>The branch of an OK acknowledge, of a WAIT or FAULT, and of anything else.\<close>

definition swd_transfer_ok :: "'rb platform \<Rightarrow> byte \<Rightarrow> byte \<Rightarrow> u32 \<Rightarrow> ('rb, byte \<times> u32) dap_cmd" where
  "swd_transfer_ok P req ack transfer_data =
     bindC (gets swd_turnaround_cycles) (\<lambda>turnaround.
     bindC (if rnw req
            then bindC (swd_read_data P 0 32 0 0) (\<lambda>(read, parity).
                 bindC (swd_read_cycle P) (\<lambda>parity_bit.
                 bindC (repeat (unat turnaround) (swd_swclk_cycle P)) (\<lambda>_.
                 bindC (config_pin P TMS_SWDIO [GPIO_INPUT, GPIO_OUTPUT]) (\<lambda>_.
                 ret (if parity AND 1 \<noteq> ucast parity_bit then transfer_response_error else ack, read)))))
            else bindC (repeat (unat turnaround) (swd_swclk_cycle P)) (\<lambda>_.
                 bindC (config_pin P TMS_SWDIO [GPIO_INPUT, GPIO_OUTPUT]) (\<lambda>_.
                 bindC (swd_write_data P 32 transfer_data 0) (\<lambda>parity.
                 bindC (swd_write_cycle P (ucast parity)) (\<lambda>_.
                 ret (ack, transfer_data)))))) (\<lambda>result.
     bindC (gets transfer_idle_cycles) (\<lambda>idle.
     bindC (repeat (unat idle) (swd_write_cycle P 0)) (\<lambda>_.
     bindC (set_pin P TMS_SWDIO 1) (\<lambda>_.
     ret result)))))"

definition swd_transfer_retry :: "'rb platform \<Rightarrow> byte \<Rightarrow> byte \<Rightarrow> u32 \<Rightarrow> ('rb, byte \<times> u32) dap_cmd" where
  "swd_transfer_retry P req ack transfer_data =
     bindC (gets swd_turnaround_cycles) (\<lambda>turnaround.
     bindC (gets swd_data_phase) (\<lambda>data_phase.
     bindC (whenC (data_phase \<and> rnw req) (repeat 33 (swd_swclk_cycle P))) (\<lambda>_.
     bindC (repeat (unat turnaround) (swd_swclk_cycle P)) (\<lambda>_.
     bindC (config_pin P TMS_SWDIO [GPIO_INPUT, GPIO_OUTPUT]) (\<lambda>_.
     bindC (whenC (data_phase \<and> \<not> rnw req)
       (bindC (set_pin P TMS_SWDIO 0) (\<lambda>_. repeat 33 (swd_swclk_cycle P)))) (\<lambda>_.
     bindC (set_pin P TMS_SWDIO 1) (\<lambda>_.
     ret (ack, transfer_data))))))))"

definition swd_transfer_other :: "'rb platform \<Rightarrow> byte \<Rightarrow> u32 \<Rightarrow> ('rb, byte \<times> u32) dap_cmd" where
  "swd_transfer_other P ack transfer_data =
     bindC (gets swd_turnaround_cycles) (\<lambda>turnaround.
     bindC (repeat_u8 (unat turnaround + 33) (swd_swclk_cycle P)) (\<lambda>_.
     bindC (config_pin P TMS_SWDIO [GPIO_INPUT, GPIO_OUTPUT]) (\<lambda>_.
     bindC (set_pin P TMS_SWDIO 1) (\<lambda>_.
     ret (ack, transfer_data)))))"

definition swd_transfer :: "'rb platform \<Rightarrow> byte \<Rightarrow> u32 \<Rightarrow> ('rb, byte \<times> u32) dap_cmd" where
  "swd_transfer P req transfer_data =
     bindC (swd_request P req) (\<lambda>_.
     bindC (config_pin P TMS_SWDIO [GPIO_INPUT]) (\<lambda>_.
     bindC (gets swd_turnaround_cycles) (\<lambda>turnaround.
     bindC (repeat (unat turnaround) (swd_swclk_cycle P)) (\<lambda>_.
     bindC (swd_read_cycle P) (\<lambda>a0.
     bindC (swd_read_cycle P) (\<lambda>a1.
     bindC (swd_read_cycle P) (\<lambda>a2.
     let ack = a0 OR push_bit 1 a1 OR push_bit 2 a2 in
     if ack = transfer_response_ack_ok then swd_transfer_ok P req ack transfer_data
     else if ack = transfer_response_ack_wait \<or> ack = transfer_response_fault
     then swd_transfer_retry P req ack transfer_data
     else swd_transfer_other P ack transfer_data)))))))"

section \<open>Transfers on the configured port\<close>

text \<open>The loop over the wait retries; the counter has 32 bits and its bound is at most 65536.\<close>

fun port_transfer_loop :: "'rb platform \<Rightarrow> nat \<Rightarrow> byte \<Rightarrow> byte \<Rightarrow> u32 \<Rightarrow> ('rb, byte \<times> u32) dap_cmd" where
  "port_transfer_loop P 0 req ack transfer_data = ret (ack, transfer_data)"
| "port_transfer_loop P (Suc n) req ack transfer_data =
     bindC (gets swj_port) (\<lambda>port.
     bindC (if port = dap_port_jtag then jtag_transfer P req transfer_data
            else if port = dap_port_swd then swd_transfer P req transfer_data
            else ret (ack, transfer_data)) (\<lambda>(ack, transfer_data).
     if ack \<noteq> transfer_response_ack_wait then ret (ack, transfer_data)
     else port_transfer_loop P n req ack transfer_data))"

definition port_transfer :: "'rb platform \<Rightarrow> byte \<Rightarrow> u32 \<Rightarrow> ('rb, byte \<times> u32) dap_cmd" where
  "port_transfer P req transfer_data =
     bindC (gets transfer_wait_retries) (\<lambda>wait_retries.
     port_transfer_loop P (unat wait_retries + 1) req transfer_response_fault transfer_data)"

text \<open>The cached instruction: \<open>None\<close> is a null pointer, and the cache is returned updated.\<close>

definition port_set_ir :: "'rb platform \<Rightarrow> u32 option \<Rightarrow> u32 \<Rightarrow> ('rb, u32 option) dap_cmd" where
  "port_set_ir P last_ir desired_ir =
     bindC (gets swj_port) (\<lambda>port.
     if port = dap_port_jtag \<and> last_ir \<noteq> Some desired_ir
     then bindC (jtag_set_ir P desired_ir) (\<lambda>_. ret (map_option (\<lambda>_. desired_ir) last_ir))
     else ret last_ir)"

section \<open>Command handlers\<close>

definition dap_handle_cmd_transfer_configure :: "'rb platform \<Rightarrow> ('rb, unit) dap_cmd" where
  "dap_handle_cmd_transfer_configure P =
     bindC (get_u8 P) (\<lambda>idle_cycles.
     bindC (modify (transfer_idle_cycles_update (\<lambda>_. idle_cycles))) (\<lambda>_.
     bindC (get_le16 P) (\<lambda>wait_retries.
     bindC (modify (transfer_wait_retries_update (\<lambda>_. wait_retries))) (\<lambda>_.
     bindC (get_le16 P) (\<lambda>match_retries.
     bindC (modify (transfer_match_retries_update (\<lambda>_. match_retries))) (\<lambda>_.
     put_bytes P [dap_cmd_transfer_configure, dap_cmd_response_ok]))))))"

text \<open>
  Two items of the response that are filled in later, and a word appended to the request buffer:
  that is where \<open>transfer\<close> puts the data it reads.
\<close>

definition put_later_two :: "'rb platform \<Rightarrow> nat \<Rightarrow> nat \<Rightarrow> (('rb, 'z) bufs_scheme, nat \<times> nat) cmd" where
  "put_later_two P n k = on_response (bindC (rb_put_claim P n) (\<lambda>(g, ptr).
     if g \<noteq> n then fail ENOBUFS
     else bindC (rb_put_claim P k) (\<lambda>(h, ptr2).
       if h \<noteq> k then fail ENOBUFS
       else bindC (rb_put_finish P (n + k)) (\<lambda>c.
         if c < 0 then fail ENOBUFS else ret (ptr, ptr2)))))"

definition put_request_le32 :: "'rb platform \<Rightarrow> u32 \<Rightarrow> (('rb, 'z) bufs_scheme, unit) cmd" where
  "put_request_le32 P v = on_request (fail_as ENOBUFS (ring_buf_put_le32 P v))"

text \<open>The port check at the start of a transfer; \<open>False\<close> is \<open>goto end\<close>.\<close>

definition transfer_select :: "'rb platform \<Rightarrow> byte \<Rightarrow> ('rb, bool) dap_cmd" where
  "transfer_select P index =
     bindC (gets swj_port) (\<lambda>port.
     bindC (gets jtag_count) (\<lambda>count.
     if port = dap_port_disabled then ret False
     else if port = dap_port_jtag
     then if count \<le> index then ret False
          else bindC (modify (jtag_index_update (\<lambda>_. index))) (\<lambda>_. ret True)
     else ret True))"

text \<open>The local variables of \<open>transfer\<close>.\<close>

record xfer =
  x_ack :: byte
  x_data :: u32
  x_last_ir :: u32
  x_read_pending :: bool
  x_ack_pending :: bool
  x_completed :: byte

definition xfer0 :: xfer where
  "xfer0 = \<lparr>x_ack = 0, x_data = 0, x_last_ir = 0, x_read_pending = False, x_ack_pending = False,
     x_completed = 0\<rparr>"

definition transfer_ir :: "byte \<Rightarrow> u32" where
  "transfer_ir req = (if apndp req then jtag_ir_apacc else jtag_ir_dpacc)"

definition transfer_set_ir :: "'rb platform \<Rightarrow> u32 \<Rightarrow> xfer \<Rightarrow> ('rb, xfer) dap_cmd" where
  "transfer_set_ir P ir x = bindC (port_set_ir P (Some (x_last_ir x)) ir) (\<lambda>last_ir.
     ret (case last_ir of None \<Rightarrow> x | Some l \<Rightarrow> x\<lparr>x_last_ir := l\<rparr>))"

definition transfer_port :: "'rb platform \<Rightarrow> byte \<Rightarrow> xfer \<Rightarrow> ('rb, xfer) dap_cmd" where
  "transfer_port P req x = bindC (port_transfer P req (x_data x)) (\<lambda>(ack, transfer_data).
     ret (x\<lparr>x_ack := ack, x_data := transfer_data\<rparr>))"

text \<open>
  The steps of one request of the loop; \<open>False\<close> is \<open>break\<close>.
\<close>

definition transfer_operand :: "'rb platform \<Rightarrow> byte \<Rightarrow> xfer \<Rightarrow> ('rb, xfer) dap_cmd" where
  "transfer_operand P req x =
     (if \<not> rnw req \<or> match_value req
      then bindC (get_le32 P) (\<lambda>v. ret (x\<lparr>x_data := v\<rparr>))
      else ret x)"

definition transfer_posted :: "'rb platform \<Rightarrow> xfer \<Rightarrow> ('rb, bool \<times> xfer) dap_cmd" where
  "transfer_posted P x =
     (if x_read_pending x
      then bindC (transfer_set_ir P jtag_ir_dpacc x) (\<lambda>x.
           bindC (transfer_port P (transfer_request_rnw OR dp_addr_rdbuff) x) (\<lambda>x.
           let x = x\<lparr>x_read_pending := False\<rparr> in
           if x_ack x \<noteq> transfer_response_ack_ok then ret (False, x)
           else bindC (put_request_le32 P (x_data x)) (\<lambda>_. ret (True, x))))
      else ret (True, x))"

fun transfer_match_loop :: "'rb platform \<Rightarrow> nat \<Rightarrow> byte \<Rightarrow> u32 \<Rightarrow> xfer \<Rightarrow> ('rb, xfer) dap_cmd" where
  "transfer_match_loop P 0 req v x = ret x"
| "transfer_match_loop P (Suc n) req v x =
     bindC (transfer_port P req x) (\<lambda>x.
     bindC (gets transfer_match_mask) (\<lambda>mask.
     if x_ack x \<noteq> transfer_response_ack_ok \<or> x_data x AND mask = v then ret x
     else transfer_match_loop P n req v x))"

definition transfer_read_match :: "'rb platform \<Rightarrow> byte \<Rightarrow> xfer \<Rightarrow> ('rb, bool \<times> xfer) dap_cmd" where
  "transfer_read_match P req x =
     (let v = x_data x in
      bindC (transfer_set_ir P (transfer_ir req) x) (\<lambda>x.
      bindC (gets swj_port) (\<lambda>port.
      bindC (if port = dap_port_jtag \<or> apndp req
             then bindC (transfer_port P req x) (\<lambda>x. ret (x_ack x = transfer_response_ack_ok, x))
             else ret (True, x)) (\<lambda>(go, x).
      if \<not> go then ret (False, x)
      else bindC (gets transfer_match_retries) (\<lambda>match_retries.
           bindC (transfer_match_loop P (unat match_retries + 1) req v x) (\<lambda>x.
           bindC (gets transfer_match_mask) (\<lambda>mask.
           let x = (if x_data x AND mask \<noteq> v
                    then x\<lparr>x_ack := x_ack x OR transfer_response_value_mismatch\<rparr> else x) in
           if x_ack x \<noteq> transfer_response_ack_ok then ret (False, x)
           else ret (True, x\<lparr>x_ack_pending := False\<rparr>))))))))"

definition transfer_read :: "'rb platform \<Rightarrow> byte \<Rightarrow> xfer \<Rightarrow> ('rb, bool \<times> xfer) dap_cmd" where
  "transfer_read P req x =
     bindC (transfer_set_ir P (transfer_ir req) x) (\<lambda>x.
     bindC (transfer_port P req x) (\<lambda>x.
     if x_ack x \<noteq> transfer_response_ack_ok then ret (False, x)
     else bindC (gets swj_port) (\<lambda>port.
          if port = dap_port_swd \<and> \<not> apndp req
          then bindC (put_request_le32 P (x_data x)) (\<lambda>_. ret (True, x\<lparr>x_ack_pending := False\<rparr>))
          else ret (True, x\<lparr>x_read_pending := True, x_ack_pending := False\<rparr>))))"

definition transfer_write :: "'rb platform \<Rightarrow> byte \<Rightarrow> xfer \<Rightarrow> ('rb, bool \<times> xfer) dap_cmd" where
  "transfer_write P req x =
     (if match_mask req
      then bindC (modify (transfer_match_mask_update (\<lambda>_. x_data x))) (\<lambda>_.
           ret (True, x\<lparr>x_ack := transfer_response_ack_ok\<rparr>))
      else bindC (transfer_set_ir P (transfer_ir req) x) (\<lambda>x.
           bindC (transfer_port P req x) (\<lambda>x.
           if x_ack x \<noteq> transfer_response_ack_ok then ret (False, x)
           else ret (True, x\<lparr>x_ack_pending := True\<rparr>))))"

text \<open>The loop: it gives the number of requests that were not started and the local variables.\<close>

fun transfer_loop :: "'rb platform \<Rightarrow> nat \<Rightarrow> xfer \<Rightarrow> ('rb, nat \<times> xfer) dap_cmd" where
  "transfer_loop P 0 x = ret (0, x)"
| "transfer_loop P (Suc n) x =
     bindC (get_u8 P) (\<lambda>req.
     bindC (transfer_operand P req x) (\<lambda>x.
     bindC (transfer_posted P x) (\<lambda>(go, x).
     if \<not> go then ret (n, x)
     else bindC (if rnw req
                 then if match_value req then transfer_read_match P req x else transfer_read P req x
                 else transfer_write P req x) (\<lambda>(go, x).
          if \<not> go then ret (n, x)
          else transfer_loop P n (x\<lparr>x_completed := x_completed x + 1\<rparr>)))))"

text \<open>The bytes of the requests that were not started.\<close>

fun transfer_cancel :: "'rb platform \<Rightarrow> nat \<Rightarrow> ('rb, unit) dap_cmd" where
  "transfer_cancel P 0 = ret ()"
| "transfer_cancel P (Suc n) =
     bindC (get_u8 P) (\<lambda>req.
     bindC (whenC ((rnw req \<and> match_value req) \<or> \<not> rnw req)
             (bindC (get_bytes P 4) (\<lambda>_. ret ()))) (\<lambda>_.
     transfer_cancel P n))"

definition transfer_final :: "'rb platform \<Rightarrow> nat \<Rightarrow> xfer \<Rightarrow> ('rb, unit) dap_cmd" where
  "transfer_final P response_response_ptr x =
     whenC (x_ack x = transfer_response_ack_ok \<and> (x_read_pending x \<or> x_ack_pending x))
       (bindC (transfer_set_ir P jtag_ir_dpacc x) (\<lambda>x.
        bindC (transfer_port P (dp_addr_rdbuff OR transfer_request_rnw) x) (\<lambda>x.
        bindC (whenC (x_ack x = transfer_response_ack_ok \<and> x_read_pending x)
                (put_request_le32 P (x_data x))) (\<lambda>_.
        store_response P response_response_ptr [x_ack x]))))"

definition dap_handle_cmd_transfer :: "'rb platform \<Rightarrow> ('rb, unit) dap_cmd" where
  "dap_handle_cmd_transfer P =
     bindC (put_bytes P [dap_cmd_transfer]) (\<lambda>_.
     bindC (put_later_two P 1 1) (\<lambda>(response_count_ptr, response_response_ptr).
     bindC (get_u8 P) (\<lambda>index.
     bindC (get_u8 P) (\<lambda>count.
     bindC (transfer_select P index) (\<lambda>go.
     bindC (if go then transfer_loop P (unat count) xfer0 else ret (unat count, xfer0)) (\<lambda>(count, x).
     bindC (store_response P response_count_ptr [x_completed x]) (\<lambda>_.
     bindC (store_response P response_response_ptr [x_ack x]) (\<lambda>_.
     bindC (transfer_cancel P count) (\<lambda>_.
     transfer_final P response_response_ptr x)))))))))"

text \<open>
  \<open>transfer_block\<close>: the loops give the words left, the request in effect, the last acknowledge and
  the number of completed transfers.
\<close>

fun block_read :: "'rb platform \<Rightarrow> nat \<Rightarrow> byte \<Rightarrow> u32 \<Rightarrow> u32 \<Rightarrow> byte \<Rightarrow> u16
    \<Rightarrow> ('rb, nat \<times> byte \<times> byte \<times> u16) dap_cmd" where
  "block_read P 0 req request_ir transfer_data ack completed = ret (0, req, ack, completed)"
| "block_read P (Suc n) req request_ir transfer_data ack completed =
     bindC (gets swj_port) (\<lambda>port.
     bindC (if n = 0 \<and> (port = dap_port_jtag \<or> apndp req)
            then bindC (port_set_ir P (Some request_ir) jtag_ir_dpacc) (\<lambda>_.
                 ret (dp_addr_rdbuff OR transfer_request_rnw))
            else ret req) (\<lambda>req.
     bindC (port_transfer P req transfer_data) (\<lambda>(ack, transfer_data).
     if ack \<noteq> transfer_response_ack_ok then ret (n, req, ack, completed)
     else bindC (put_bytes P (sys_put_le32 transfer_data)) (\<lambda>_.
          block_read P n req request_ir transfer_data ack (completed + 1)))))"

fun block_write_loop :: "'rb platform \<Rightarrow> nat \<Rightarrow> byte \<Rightarrow> u32 \<Rightarrow> byte \<Rightarrow> u16
    \<Rightarrow> ('rb, bool \<times> nat \<times> u32 \<times> byte \<times> u16) dap_cmd" where
  "block_write_loop P 0 req transfer_data ack completed = ret (True, 0, transfer_data, ack, completed)"
| "block_write_loop P (Suc n) req transfer_data ack completed =
     bindC (get_bytes P 4) (\<lambda>bs.
     bindC (port_transfer P req (sys_get_le32 bs)) (\<lambda>(ack, transfer_data).
     if ack \<noteq> transfer_response_ack_ok then ret (False, n, transfer_data, ack, completed)
     else block_write_loop P n req transfer_data ack (completed + 1)))"

definition block_write :: "'rb platform \<Rightarrow> nat \<Rightarrow> byte \<Rightarrow> u32 \<Rightarrow> u32
    \<Rightarrow> ('rb, nat \<times> byte \<times> byte \<times> u16) dap_cmd" where
  "block_write P count req request_ir transfer_data =
     bindC (block_write_loop P count req transfer_data 0 0) (\<lambda>(go, left, transfer_data, ack, completed).
     if \<not> go then ret (left, req, ack, completed)
     else bindC (port_set_ir P (Some request_ir) jtag_ir_dpacc) (\<lambda>_.
          bindC (port_transfer P (dp_addr_rdbuff OR transfer_request_rnw) transfer_data)
            (\<lambda>(ack, transfer_data).
          ret (left, dp_addr_rdbuff OR transfer_request_rnw, ack, completed))))"

definition block_run :: "'rb platform \<Rightarrow> nat \<Rightarrow> byte \<Rightarrow> ('rb, nat \<times> byte \<times> byte \<times> u16) dap_cmd" where
  "block_run P count req =
     bindC (port_set_ir P None (transfer_ir req)) (\<lambda>_.
     bindC (gets swj_port) (\<lambda>port.
     if rnw req
     then bindC (if port = dap_port_jtag \<or> apndp req then port_transfer P req 0
                 else ret (transfer_response_ack_ok, 0)) (\<lambda>(ack, transfer_data).
          if ack \<noteq> transfer_response_ack_ok then ret (count, req, ack, 0)
          else block_read P count req (transfer_ir req) transfer_data
                 (if port = dap_port_jtag \<or> apndp req then ack else 0) 0)
     else block_write P count req (transfer_ir req) 0))"

definition block_cancel :: "'rb platform \<Rightarrow> nat \<Rightarrow> (('rb, 'z) bufs_scheme, unit) cmd" where
  "block_cancel P count = (let request_remaining = unat (of_nat (count * 4) :: u16) in
     on_request (bindC (rb_get_claim P request_remaining) (\<lambda>(n, ptr).
       if n \<noteq> request_remaining then fail EMSGSIZE
       else bindC (rb_get_finish P request_remaining) (\<lambda>c.
         if c < 0 then fail EMSGSIZE else ret ()))))"

definition dap_handle_cmd_transfer_block :: "'rb platform \<Rightarrow> ('rb, unit) dap_cmd" where
  "dap_handle_cmd_transfer_block P =
     bindC (put_bytes P [dap_cmd_transfer_block]) (\<lambda>_.
     bindC (put_later_two P 2 1) (\<lambda>(response_count_ptr, response_response_ptr).
     bindC (get_u8 P) (\<lambda>index.
     bindC (get_bytes P 2) (\<lambda>bs.
     bindC (get_u8 P) (\<lambda>req.
     bindC (transfer_select P index) (\<lambda>go.
     bindC (if go then block_run P (unat (sys_get_le16 bs)) req
            else ret (unat (sys_get_le16 bs), req, 0, 0)) (\<lambda>(count, req, ack, completed).
     bindC (store_response P response_count_ptr (sys_put_le16 completed)) (\<lambda>_.
     bindC (store_response P response_response_ptr [ack]) (\<lambda>_.
     whenC (0 < count \<and> \<not> rnw req) (block_cancel P count))))))))))"

definition dap_handle_cmd_transfer_abort :: "'rb platform \<Rightarrow> ('rb, unit) dap_cmd" where
  "dap_handle_cmd_transfer_abort P = ret ()"

definition dap_handle_cmd_write_abort :: "'rb platform \<Rightarrow> ('rb, unit) dap_cmd" where
  "dap_handle_cmd_write_abort P =
     bindC (get_u8 P) (\<lambda>index.
     bindC (get_le32 P) (\<lambda>abort.
     bindC (transfer_select P index) (\<lambda>go.
     bindC (if go
            then bindC (port_set_ir P None jtag_ir_abort) (\<lambda>_.
                 bindC (port_transfer P 0 abort) (\<lambda>_. ret dap_cmd_response_ok))
            else ret dap_cmd_response_error) (\<lambda>status.
     put_bytes P [dap_cmd_write_abort, status]))))"

end
