(* ===== verification/Swd_Frames.thy ===== *)
theory Swd_Frames
  imports Transfers
begin

text \<open>
  An SWD transfer on the wire: the packet request, the turnarounds, the acknowledge and the data
  phase of the ADIv5 protocol, in every branch of the acknowledge.
\<close>

section \<open>The protocol\<close>

definition parity :: "bool list \<Rightarrow> bool" where
  "parity bs = foldr (\<noteq>) bs False"

lemma parity_simps [simp]: "parity [] = False" "parity (b # bs) = (b \<noteq> parity bs)"
  by (simp_all add: parity_def)

text \<open>Start, APnDP, RnW, A2, A3, parity, stop, park.\<close>

definition swd_packet :: "byte \<Rightarrow> bool list" where
  "swd_packet req = [True, bit req 0, bit req 1, bit req 2, bit req 3,
     parity [bit req 0, bit req 1, bit req 2, bit req 3], False, True]"

text \<open>
  The frame of a transfer: \<open>ack\<close> are the three acknowledge bits, \<open>rd\<close> and \<open>pb\<close> the data and the
  parity bit the target sends.
\<close>

definition swd_frame :: "'rb dap_driver \<Rightarrow> byte \<Rightarrow> u32 \<Rightarrow> bool list \<Rightarrow> bool list \<Rightarrow> bool \<Rightarrow> swd_bit list" where
  "swd_frame d req dat ack rd pb =
     (let turn = replicate (unat (swd_turnaround_cycles d)) Undriven; read = bit req 1;
          idle = unat (transfer_idle_cycles d); phase = swd_data_phase d
      in map Driven (swd_packet req) @ turn @ map Sampled ack @
        (if ack = [True, False, False]
         then (if read then map Sampled rd @ [Sampled pb] @ turn
               else turn @ map Driven (bits_lsb 32 dat) @ [Driven (parity (bits_lsb 32 dat))])
              @ replicate idle (Driven False)
         else if ack = [False, True, False] \<or> ack = [False, False, True]
         then (if phase \<and> read then replicate 33 Undriven else []) @ turn
              @ (if phase \<and> \<not> read then replicate 33 (Driven False) else [])
         else turn @ replicate 33 Undriven))"

text \<open>What the transfer returns: the acknowledge, or a parity error, and the data register.\<close>

definition swd_result :: "byte \<Rightarrow> u32 \<Rightarrow> bool list \<Rightarrow> bool list \<Rightarrow> bool \<Rightarrow> byte \<times> u32" where
  "swd_result req dat ack rd pb =
     (if ack = [True, False, False] \<and> bit req 1
      then (if pb = parity rd then 0x01 else 0x08, word_of_bits rd)
      else (word_of_bits ack, dat))"

section \<open>The pieces\<close>

lemma bit_rnw: "rnw req = bit req 1"
proof -
  have "req AND 2 = push_bit 1 (of_bool (bit req 1))"
    by (rule bit_word_eqI) (auto simp: bit_simps bit_2_iff)
  then show ?thesis by (simp add: transfer_consts)
qed

lemma odd_drop_bit: "odd (drop_bit n w) = bit w n"
  by (simp add: bit_iff_odd_drop_bit)

lemma odd_ucast_32: "even (ucast (w :: byte) :: u32) = even w"
  using bit_ucast_iff [of w 0, where 'a = 32] by (simp add: bit_0)

lemma even_drop_bit: "even (drop_bit n w) = (\<not> bit w n)"
  by (simp add: bit_iff_odd_drop_bit)

lemma swd_request_parity:
  "odd (ucast (ucast req + ucast (drop_bit 1 req) + ucast (drop_bit 2 req) + ucast (drop_bit 3 req) :: u32) :: byte)
    = parity [bit req 0, bit req 1, bit req 2, bit req 3]" for req :: byte
  unfolding odd_ucast
  by (cases "bit req 0"; cases "bit req 1"; cases "bit req 2"; cases "bit req 3")
     (simp_all add: odd_ucast_32 even_drop_bit flip: bit_0)

lemma swd_request_line:
  "fst l \<Longrightarrow> R () (map Driven (swd_packet req)) (True, True) \<Longrightarrow> swd d (swd_request P req) l R"
  unfolding swd_request_def Let_def
  apply (rule swd_bindC swd_write | simp only: fst_conv swd_request_parity)+
  apply (simp add: swd_packet_def even_drop_bit bit_0)
  done

lemma swd_read_data_line:
  "\<not> fst l \<Longrightarrow> (\<And>bs p. length bs = n \<Longrightarrow> odd p = (odd par \<noteq> parity bs) \<Longrightarrow>
      R (x OR push_bit i (word_of_bits bs), p) (map Sampled bs) l) \<Longrightarrow>
   swd d (swd_read_data P i n x par) l R"
proof (induction n arbitrary: i x par R)
  case 0
  then show ?case using 0(2) [of "[]" par] by (simp add: swd_ret)
next
  case (Suc n)
  show ?case
    unfolding swd_read_data.simps
  proof (rule swd_bindC, rule swd_read [OF Suc.prems(1)], rule Suc.IH [OF Suc.prems(1)], goal_cases)
    case (1 b bs p)
    have "push_bit i (word_of_bits (b # bs) :: u32)
        = push_bit i (ucast (of_bool b :: byte)) OR push_bit (Suc i) (word_of_bits bs)"
      by (rule bit_word_eqI) (auto simp: bit_simps word_of_bits_Cons)
    then show ?case
      using Suc.prems(2) [of "b # bs" p] 1 by (auto simp: or.assoc odd_ucast_32)
  qed
qed

lemma swd_read_word_line:
  "\<not> fst l \<Longrightarrow> (\<And>bs p. length bs = 32 \<Longrightarrow> odd p = parity bs \<Longrightarrow>
      R (word_of_bits bs, p) (map Sampled bs) l) \<Longrightarrow>
   swd d (swd_read_data P 0 32 0 0) l R"
  by (rule swd_read_data_line) simp_all

lemma swd_write_data_line:
  "fst l \<Longrightarrow> (\<And>p v. odd p = (odd par \<noteq> parity (bits_lsb n x)) \<Longrightarrow>
      R p (map Driven (bits_lsb n x)) (True, v)) \<Longrightarrow>
   swd d (swd_write_data P n x par) l R"
proof (induction n arbitrary: x par l R)
  case 0
  then show ?case using 0(2) [of par "snd l"] by (cases l) (simp add: swd_ret)
next
  case (Suc n)
  show ?case
    unfolding swd_write_data.simps
  proof (rule swd_bindC, rule swd_write [OF Suc.prems(1)], rule Suc.IH, goal_cases)
    case (2 p v)
    then have "odd p = (odd par \<noteq> parity (bits_lsb (Suc n) x))"
      by (auto simp: bits_lsb_Suc bit_0)
    then show ?case
      using Suc.prems(1) Suc.prems(2) [of p v] by (simp add: bits_lsb_Suc bit_0 odd_ucast)
  qed (use Suc.prems(1) in simp)
qed

lemma swd_repeat_write:
  "fst l \<Longrightarrow> (\<And>v. R () (replicate n (Driven False)) (True, v)) \<Longrightarrow>
   swd d (repeat n (swd_write_cycle P 0)) l R"
proof (induction n arbitrary: l R)
  case 0
  then show ?case using 0(2) [of "snd l"] by (cases l) (simp add: swd_ret)
next
  case (Suc n)
  show ?case
    unfolding repeat.simps
    by (rule swd_bindC, rule swd_write [OF Suc.prems(1)], rule Suc.IH) (use Suc.prems in simp_all)
qed

section \<open>The branches\<close>

lemma swd_transfer_ok_line:
  assumes "gpio_ok P" "\<not> fst l"
    "\<And>rd pb. length rd = 32 \<Longrightarrow> bit req 1 \<Longrightarrow> R (if pb = parity rd then ack else 0x08, word_of_bits rd)
       (map Sampled rd @ Sampled pb # replicate (unat (swd_turnaround_cycles d)) Undriven
        @ replicate (unat (transfer_idle_cycles d)) (Driven False)) (True, True)"
    "\<not> bit req 1 \<Longrightarrow> R (ack, dat) (replicate (unat (swd_turnaround_cycles d)) Undriven
        @ map Driven (bits_lsb 32 dat) @ Driven (parity (bits_lsb 32 dat))
        # replicate (unat (transfer_idle_cycles d)) (Driven False)) (True, True)"
  shows "swd d (swd_transfer_ok P req ack dat) l R"
proof (cases "bit req 1")
  case True
  have par: "(p AND 1 \<noteq> (ucast (of_bool pb :: byte) :: u32)) = (odd p \<noteq> pb)" for p :: u32 and pb
    by (cases pb) (auto simp: and_one_eq odd_iff_mod_2_eq_one)
  have fin: "R (if p AND 1 \<noteq> ucast (of_bool pb :: byte) then transfer_response_error else ack, word_of_bits rd)
       (map Sampled rd @ Sampled pb # replicate (unat (swd_turnaround_cycles d)) Undriven
        @ replicate (unat (transfer_idle_cycles d)) (Driven False)) (True, True)"
    if "length rd = 32" "odd p = parity rd" for rd pb and p :: u32
    unfolding par transfer_response_error_def
    using assms(3) [OF that(1) True, of pb] that(2) by (cases pb; cases "parity rd") simp_all
  show ?thesis
    unfolding swd_transfer_ok_def bit_rnw
    apply (simp only: True if_True bindC_assoc)
    apply (rule swd_bindC, rule swd_gets, simp)
    apply (rule swd_bindC, rule swd_read_word_line [OF assms(2)])
    apply (simp only: case_prod_conv bindC_assoc bindC_ret)
    apply (rule swd_bindC, rule swd_read [OF assms(2)])
    apply (rule swd_bindC, rule swd_repeat_swclk)
    apply (rule swd_bindC, rule swd_config [OF assms(1)])
    apply (rule swd_bindC, rule swd_gets, simp)
    apply (rule swd_bindC, rule swd_repeat_write, simp)
    apply (rule swd_bindC, rule swd_set_data, rule swd_ret)
    apply (simp only: assms(2) if_False append_Nil append_Nil2 append_Cons fst_conv drives_simps)
    apply (subgoal_tac "(1 :: int) \<noteq> 0")
     apply (simp only: simp_thms)
     apply (rule fin)
      apply simp_all
    done
next
  case False
  have par: "odd (ucast (p :: u32) :: byte) = odd p" for p by (rule odd_ucast)
  show ?thesis
    unfolding swd_transfer_ok_def bit_rnw
    using False assms(1,2,4)
    by (simp only: if_False simp_thms bindC_assoc)
       (rule swd_bindC swd_gets swd_write_data_line swd_write swd_repeat_swclk swd_config
          swd_repeat_write swd_set_data swd_ret assms(1) | simp add: assms(2) par)+
qed

lemma swd_transfer_retry_line:
  assumes "gpio_ok P" "\<not> fst l"
    "R (ack, dat) ((if swd_data_phase d \<and> bit req 1 then replicate 33 Undriven else [])
       @ replicate (unat (swd_turnaround_cycles d)) Undriven
       @ (if swd_data_phase d \<and> \<not> bit req 1 then replicate 33 (Driven False) else [])) (True, True)"
  shows "swd d (swd_transfer_retry P req ack dat) l R"
  unfolding swd_transfer_retry_def bit_rnw whenC_def
  by (rule swd_bindC swd_gets swd_if swd_repeat_swclk swd_config swd_set_data swd_ret assms(1)
      | simp add: assms(2) | (insert assms(3), simp; fail))+

lemma swd_transfer_other_line:
  assumes "gpio_ok P" "\<not> fst l" "unat (swd_turnaround_cycles d) + 33 \<le> 255"
    "R (ack, dat) (replicate (unat (swd_turnaround_cycles d)) Undriven @ replicate 33 Undriven) (True, True)"
  shows "swd d (swd_transfer_other P ack dat) l R"
  unfolding swd_transfer_other_def repeat_u8_def
  by (rule swd_bindC swd_gets swd_if swd_repeat_swclk swd_config swd_set_data swd_ret assms(1)
      | simp add: assms(2) | (insert assms(3,4), simp add: replicate_add; fail))+

section \<open>The whole transfer\<close>

lemma ack_bits:
  "(of_bool a OR push_bit 1 (of_bool b) OR push_bit 2 (of_bool c) :: byte) = word_of_bits [a, b, c]"
  by (rule bit_word_eqI) (auto simp: bit_simps bit_word_of_bits nth_Cons split: nat.splits)

lemma ack_eq:
  "(word_of_bits [a, b, c] :: byte) = 1 \<longleftrightarrow> [a, b, c] = [True, False, False]"
  "(word_of_bits [a, b, c] :: byte) = 2 \<longleftrightarrow> [a, b, c] = [False, True, False]"
  "(word_of_bits [a, b, c] :: byte) = 4 \<longleftrightarrow> [a, b, c] = [False, False, True]"
  by (cases a; cases b; cases c; simp add: word_of_bits_def)+

lemma swd_transfer_line:
  assumes "gpio_ok P" "fst l" "unat (swd_turnaround_cycles d) + 33 \<le> 255"
    and R: "\<And>ack rd pb. length ack = 3 \<Longrightarrow> length rd = 32 \<Longrightarrow>
      R (swd_result req dat ack rd pb) (swd_frame d req dat ack rd pb) (True, True)"
  shows "swd d (swd_transfer P req dat) l R"
proof -
  let ?pre = "\<lambda>a b c. map Driven (swd_packet req) @ replicate (unat (swd_turnaround_cycles d)) Undriven
    @ [Sampled a, Sampled b, Sampled c]"
  have fin: "swd d (let ack = of_bool a OR push_bit 1 (of_bool b) OR push_bit 2 (of_bool c) in
       if ack = transfer_response_ack_ok then swd_transfer_ok P req ack dat
       else if ack = transfer_response_ack_wait \<or> ack = transfer_response_fault
       then swd_transfer_retry P req ack dat
       else swd_transfer_other P ack dat) l' (\<lambda>v bs l''. R v (?pre a b c @ bs) l'')"
    if l': "\<not> fst l'" for a b c l'
  proof -
    note R' = R [of "[a, b, c]"]
    consider "[a, b, c] = [True, False, False]" | "[a, b, c] = [False, True, False]"
      | "[a, b, c] = [False, False, True]"
      | "[a, b, c] \<noteq> [True, False, False]" "[a, b, c] \<noteq> [False, True, False]" "[a, b, c] \<noteq> [False, False, True]"
      by blast
    then have "swd d (if [a, b, c] = [True, False, False] then swd_transfer_ok P req (word_of_bits [a, b, c]) dat
       else if [a, b, c] = [False, True, False] \<or> [a, b, c] = [False, False, True]
       then swd_transfer_retry P req (word_of_bits [a, b, c]) dat
       else swd_transfer_other P (word_of_bits [a, b, c]) dat) l' (\<lambda>v bs l''. R v (?pre a b c @ bs) l'')"
    proof cases
      case 1
      then have "(word_of_bits [a, b, c] :: byte) = 1" by (simp only: ack_eq)
      with 1 show ?thesis
        apply (simp only: if_True simp_thms)
        apply (rule swd_transfer_ok_line [OF assms(1) l'])
        subgoal for rd pb using R' [of rd pb] by (simp add: swd_frame_def swd_result_def Let_def)
        subgoal using R' [of "replicate 32 False" False] by (simp add: swd_frame_def swd_result_def Let_def)
        done
    next
      case 2
      with R' [of "replicate 32 False" False] l' show ?thesis
        by (simp, intro swd_transfer_retry_line [OF assms(1)])
           (auto simp: swd_frame_def swd_result_def Let_def split: if_splits)
    next
      case 3
      with R' [of "replicate 32 False" False] l' show ?thesis
        by (simp, intro swd_transfer_retry_line [OF assms(1)])
           (auto simp: swd_frame_def swd_result_def Let_def split: if_splits)
    next
      case 4
      have "swd d (swd_transfer_other P (word_of_bits [a, b, c]) dat) l' (\<lambda>v bs l''. R v (?pre a b c @ bs) l'')"
        using R' [of "replicate 32 False" False] l' 4
        by (intro swd_transfer_other_line [OF assms(1) _ assms(3)])
           (auto simp: swd_frame_def swd_result_def Let_def)
      with 4 show ?thesis by (simp only: if_False simp_thms)
    qed
    then show ?thesis
      unfolding ack_bits Let_def transfer_response_ack_ok_def transfer_response_ack_wait_def
        transfer_response_fault_def ack_eq .
  qed
  show ?thesis
    unfolding swd_transfer_def
    apply (rule swd_bindC, rule swd_request_line [OF assms(2)])
    apply (rule swd_bindC, rule swd_config [OF assms(1)])
    apply (rule swd_bindC, rule swd_gets, simp)
    apply (rule swd_bindC, rule swd_repeat_swclk)
    apply (rule swd_bindC, rule swd_read, simp)
    apply (rule swd_bindC, rule swd_read, simp)
    apply (rule swd_bindC, rule swd_read, simp)
    using fin apply simp
    done
qed

section \<open>Retries\<close>

text \<open>The answers of the target to one transfer: acknowledge, data and parity bit of each attempt.\<close>

type_synonym attempt = "bool list \<times> bool list \<times> bool"

definition waits :: "attempt \<Rightarrow> bool" where
  "waits x \<longleftrightarrow> fst x = [False, True, False]"

text \<open>At most \<open>n\<close> attempts: every one but the last was answered with WAIT, and the last one only if
  it was the \<open>n\<close>-th.\<close>

definition attempts_ok :: "nat \<Rightarrow> attempt list \<Rightarrow> bool" where
  "attempts_ok n xs \<longleftrightarrow> xs \<noteq> [] \<and> length xs \<le> n \<and> list_all waits (butlast xs)
     \<and> (length xs < n \<longrightarrow> \<not> waits (last xs))
     \<and> list_all (\<lambda>(ack, rd, pb). length ack = 3 \<and> length rd = 32) xs"

definition frames :: "'rb dap_driver \<Rightarrow> byte \<Rightarrow> u32 \<Rightarrow> attempt list \<Rightarrow> swd_bit list" where
  "frames d req dat xs = concat (map (\<lambda>(ack, rd, pb). swd_frame d req dat ack rd pb) xs)"

definition attempt_result :: "byte \<Rightarrow> u32 \<Rightarrow> attempt \<Rightarrow> byte \<times> u32" where
  "attempt_result req dat x = (case x of (ack, rd, pb) \<Rightarrow> swd_result req dat ack rd pb)"

lemma result_wait:
  assumes "length ack = 3"
  shows "fst (swd_result req dat ack rd pb) = 2 \<longleftrightarrow> ack = [False, True, False]"
    "ack = [False, True, False] \<Longrightarrow> swd_result req dat ack rd pb = (2, dat)"
proof -
  obtain a b c where ack: "ack = [a, b, c]"
    using assms by (auto simp: numeral_eq_Suc length_Suc_conv)
  show "fst (swd_result req dat ack rd pb) = 2 \<longleftrightarrow> ack = [False, True, False]"
    using ack_eq(2) [of a b c] by (auto simp: swd_result_def ack)
  show "swd_result req dat ack rd pb = (2, dat)" if "ack = [False, True, False]"
    using ack_eq(2) [of False True False] that by (simp add: swd_result_def)
qed

lemma swd_port_loop_line:
  assumes "gpio_ok P" "unat (swd_turnaround_cycles d) + 33 \<le> 255" "swj_port d = dap_port_swd"
    and "fst l" "0 < n"
    and "\<And>xs. attempts_ok n xs \<Longrightarrow>
      R (attempt_result req dat (last xs)) (frames d req dat xs) (True, True)"
  shows "swd d (port_transfer_loop P n req ack0 dat) l R"
  using assms(4-)
proof (induction n arbitrary: l ack0 R)
  case (Suc n)
  have ports: "dap_port_swd \<noteq> dap_port_jtag" by (simp add: dap_consts)
  have step: "swd d (case swd_result req dat ack rd pb of (ack, dat) \<Rightarrow>
       if ack \<noteq> transfer_response_ack_wait then ret (ack, dat)
       else port_transfer_loop P n req ack dat) (True, True)
       (\<lambda>v bs l'. R v (swd_frame d req dat ack rd pb @ bs) l')"
    if len: "length ack = 3" "length rd = 32" for ack rd pb
  proof (cases "ack = [False, True, False]")
    case False
    then have "attempts_ok (Suc n) [(ack, rd, pb)]"
      using len by (simp add: attempts_ok_def waits_def)
    from Suc.prems(3) [OF this] show ?thesis
      using result_wait(1) [OF len(1), of req dat rd pb] False
      by (cases "swd_result req dat ack rd pb")
         (simp add: transfer_consts attempt_result_def frames_def swd_ret)
  next
    case wait: True
    note res = result_wait(2) [OF len(1) wait]
    show ?thesis
    proof (cases n)
      case 0
      then have "attempts_ok (Suc n) [(ack, rd, pb)]"
        using len by (simp add: attempts_ok_def)
      from Suc.prems(3) [OF this] show ?thesis
        by (simp add: res transfer_consts attempt_result_def frames_def 0 swd_ret)
    next
      case (Suc m)
      have "R (attempt_result req dat (last xs)) (swd_frame d req dat ack rd pb @ frames d req dat xs) (True, True)"
        if xs: "attempts_ok n xs" for xs
      proof -
        have "attempts_ok (Suc n) ((ack, rd, pb) # xs)"
          using xs len wait by (auto simp: attempts_ok_def waits_def)
        from Suc.prems(3) [OF this] xs show ?thesis
          by (simp add: frames_def attempts_ok_def split: if_splits)
      qed
      then show ?thesis
        using Suc.IH [of "(True, True)" "\<lambda>v bs l'. R v (swd_frame d req dat ack rd pb @ bs) l'" 2] Suc
        by (simp add: res transfer_consts)
    qed
  qed
  show ?case
    unfolding port_transfer_loop.simps
    apply (rule swd_bindC, rule swd_gets, simp)
    apply (simp only: assms(3) ports if_False if_True append_Nil simp_thms)
    apply (rule swd_bindC, rule swd_transfer_line [OF assms(1) Suc.prems(1) assms(2)])
    apply (rule step)
     apply assumption+
    done
qed simp

section \<open>Properties\<close>

text \<open>
  C2: an SWD transfer, once the probe drives the line, puts exactly the ADIv5 packet on the wire
  (start, APnDP, RnW, A2, A3, parity, stop, park), never drives the line in a cycle that belongs
  to the target, and goes on as the acknowledge demands: data with even parity in the direction
  of the request on OK, no or a dummy data phase on WAIT and FAULT, a back-off of the turnaround
  and 33 cycles on anything else.  It returns the acknowledge, or a parity error, and the data the
  target sent, and the line is driven high afterwards.
\<close>

theorem swd_transfer_frame:
  assumes "gpio_ok P" "dap_inv s" "fst (swd_line s)"
  shows "\<exists>t ack rd pb. length ack = 3 \<and> length rd = 32
    \<and> swd_transfer P req dat s = (Ok (swd_result req dat ack rd pb), t) \<and> t = s\<lparr>trace := trace t\<rparr>
    \<and> swd_adds s (swd_frame s req dat ack rd pb) t \<and> swd_line t = (True, True)"
proof -
  have "unat (swd_turnaround_cycles s) + 33 \<le> 255" using assms(2) by (simp add: dap_inv_def)
  then have "swd s (swd_transfer P req dat) (swd_line s) (\<lambda>v bs l. l = (True, True) \<and>
      (\<exists>ack rd pb. length ack = 3 \<and> length rd = 32 \<and> v = swd_result req dat ack rd pb
        \<and> bs = swd_frame s req dat ack rd pb))"
    by (intro swd_transfer_line [OF assms(1,3)]) blast+
  from swdD [OF this] show ?thesis by blast
qed

text \<open>A connected driver on a platform whose pins read high.\<close>

definition high_platform :: "aring platform" where
  "high_platform = array_platform (\<lambda>_ _. (1, [])) 8"

definition swd_sample :: "aring \<Rightarrow> aring dap_driver" where
  "swd_sample req = (dap_sample 2 req)\<lparr>trace := [(GpioConfigure TMS_SWDIO [GPIO_OUTPUT], (0, []))]\<rparr>"

lemma high_platform_ok [simp]: "gpio_ok high_platform" "ring_buffer high_platform a_view a_ok"
  by (simp add: gpio_ok_def high_platform_def array_platform_def)
     (simp add: high_platform_def arr.ring_buffer_axioms)

lemma swd_sample_ok [simp]:
  "dap_inv (swd_sample req)" "fst (swd_line (swd_sample req))" "swj_port (swd_sample req) = 2"
  "request (swd_sample req) = req" "response (swd_sample req) = a_new 64"
  by (simp_all add: swd_sample_def swd_line_def bus_def obs_def drives_def)

lemma swd_transfer_frame_witness:
  "\<exists>t ack rd pb. length ack = 3 \<and> length rd = 32
    \<and> swd_transfer high_platform 0x02 7 (swd_sample (a_new 16)) = (Ok (swd_result 0x02 7 ack rd pb), t)
    \<and> t = (swd_sample (a_new 16))\<lparr>trace := trace t\<rparr>
    \<and> swd_adds (swd_sample (a_new 16)) (swd_frame (swd_sample (a_new 16)) 0x02 7 ack rd pb) t
    \<and> swd_line t = (True, True)"
  by (rule swd_transfer_frame) simp_all

text \<open>
  C11: on the SWD port a transfer is attempted again as long as the target answers WAIT, at most
  \<open>wait_retries + 1\<close> times in all; every attempt is a whole frame with the same request and data,
  nothing else is put on the wire, and the result is the one of the last attempt.
\<close>

theorem swd_transfer_retries:
  assumes "gpio_ok P" "dap_inv s" "swj_port s = dap_port_swd" "fst (swd_line s)"
  shows "\<exists>t xs. attempts_ok (unat (transfer_wait_retries s) + 1) xs
    \<and> port_transfer P req dat s = (Ok (attempt_result req dat (last xs)), t)
    \<and> t = s\<lparr>trace := trace t\<rparr> \<and> swd_adds s (frames s req dat xs) t \<and> swd_line t = (True, True)"
proof -
  have turn: "unat (swd_turnaround_cycles s) + 33 \<le> 255" using assms(2) by (simp add: dap_inv_def)
  have "swd s (port_transfer P req dat) (swd_line s) (\<lambda>v bs l. l = (True, True) \<and>
      (\<exists>xs. attempts_ok (unat (transfer_wait_retries s) + 1) xs
        \<and> v = attempt_result req dat (last xs) \<and> bs = frames s req dat xs))"
    unfolding port_transfer_def
    by (rule swd_bindC, rule swd_gets, simp,
        rule swd_port_loop_line [OF assms(1) turn assms(3,4)], simp) auto
  from swdD [OF this] show ?thesis by blast
qed

lemma swd_transfer_retries_witness:
  "\<exists>t xs. attempts_ok (unat (transfer_wait_retries (swd_sample (a_new 16))) + 1) xs
    \<and> port_transfer high_platform 0x02 7 (swd_sample (a_new 16)) = (Ok (attempt_result 0x02 7 (last xs)), t)
    \<and> t = (swd_sample (a_new 16))\<lparr>trace := trace t\<rparr>
    \<and> swd_adds (swd_sample (a_new 16)) (frames (swd_sample (a_new 16)) 0x02 7 xs) t
    \<and> swd_line t = (True, True)"
  by (rule swd_transfer_retries) (simp_all add: dap_port_swd_def)

end
