(* ===== verification/Swo.thy ===== *)
theory Swo
  imports Swd
begin

text \<open>
  The SWO trace port (commands_swo.c): capture control, the configuration commands, and the
  commands that report and return captured trace data.
\<close>

definition swo_mode_uart :: byte where "swo_mode_uart = 0x01"
definition swo_mode_manchester :: byte where "swo_mode_manchester = 0x02"

definition swo_capture_control :: "'rb platform \<Rightarrow> bool \<Rightarrow> ('rb, unit) dap_cmd" where
  "swo_capture_control P enable =
     (if enable
      then bindC (modify (\<lambda>s. s\<lparr>swo_capture := True, swo_overrun := False\<rparr>)) (\<lambda>_.
           bindC (on_swo (rb_reset P)) (\<lambda>_.
           bindC (hwv P (UartIrqErrEnable UART_SWO)) (\<lambda>_.
           hwv P (UartIrqRxEnable UART_SWO))))
      else bindC (hwv P (UartIrqRxDisable UART_SWO)) (\<lambda>_.
           bindC (hwv P (UartIrqErrDisable UART_SWO)) (\<lambda>_.
           modify (\<lambda>s. s\<lparr>swo_capture := False, swo_error := False\<rparr>))))"

definition dap_handle_cmd_swo_transport :: "'rb platform \<Rightarrow> ('rb, unit) dap_cmd" where
  "dap_handle_cmd_swo_transport P =
     bindC (get_u8 P) (\<lambda>tr.
     bindC (if tr = 0x01 \<or> tr = 0x00
            then bindC (modify (swo_transport_update (\<lambda>_. tr))) (\<lambda>_. ret dap_cmd_response_ok)
            else ret dap_cmd_response_error) (\<lambda>status.
     put_bytes P [dap_cmd_swo_transport, status]))"

definition dap_handle_cmd_swo_mode :: "'rb platform \<Rightarrow> ('rb, unit) dap_cmd" where
  "dap_handle_cmd_swo_mode P =
     bindC (get_u8 P) (\<lambda>mode.
     bindC (gets swj_port) (\<lambda>port.
     bindC (if port \<noteq> dap_port_swd \<or> swo_mode_manchester \<le> mode then ret dap_cmd_response_error
            else bindC (gets swo_mode) (\<lambda>old.
                 bindC (whenC (old = swo_mode_uart) (swo_capture_control P False)) (\<lambda>_.
                 bindC (modify (swo_mode_update (\<lambda>_. mode))) (\<lambda>_.
                 ret dap_cmd_response_ok)))) (\<lambda>status.
     put_bytes P [dap_cmd_swo_mode, status])))"

definition dap_handle_cmd_swo_baudrate :: "'rb platform \<Rightarrow> ('rb, unit) dap_cmd" where
  "dap_handle_cmd_swo_baudrate P =
     bindC (get_le32 P) (\<lambda>baudrate.
     bindC (put_bytes P [dap_cmd_swo_baudrate]) (\<lambda>_.
     bindC (gets swo_mode) (\<lambda>mode.
     bindC (whenC (mode = swo_mode_uart)
       (bindC (hw P (UartConfigure UART_SWO baudrate)) (\<lambda>r.
        modify (swo_baudrate_update (\<lambda>_. if r = 0 then baudrate else 0))))) (\<lambda>_.
     bindC (gets swo_baudrate) (\<lambda>rate.
     put_le32 P rate)))))"

definition dap_handle_cmd_swo_control :: "'rb platform \<Rightarrow> ('rb, unit) dap_cmd" where
  "dap_handle_cmd_swo_control P =
     bindC (get_u8 P) (\<lambda>control.
     bindC (gets swj_port) (\<lambda>port.
     bindC (gets swo_mode) (\<lambda>mode.
     bindC (if port \<noteq> dap_port_swd \<or> (control = 1 \<and> mode \<noteq> swo_mode_uart)
            then ret dap_cmd_response_error
            else bindC (swo_capture_control P (control = 1)) (\<lambda>_. ret dap_cmd_response_ok)) (\<lambda>status.
     put_bytes P [dap_cmd_swo_control, status]))))"

definition swo_trace_status :: "'rb dap_driver \<Rightarrow> byte" where
  "swo_trace_status s = (if swo_capture s then 0x01 else 0x00) OR (if swo_error s then 0x40 else 0x00)
     OR (if swo_overrun s then 0x80 else 0x00)"

definition dap_handle_cmd_swo_status :: "'rb platform \<Rightarrow> ('rb, unit) dap_cmd" where
  "dap_handle_cmd_swo_status P =
     bindC (put_bytes P [dap_cmd_swo_status]) (\<lambda>_.
     bindC (gets swo_trace_status) (\<lambda>trace_status.
     bindC (put_bytes P [trace_status]) (\<lambda>_.
     bindC (gets swo_buf) (\<lambda>swo.
     put_le32 P (of_nat (p_size P swo))))))"

definition dap_handle_cmd_swo_extended_status :: "'rb platform \<Rightarrow> ('rb, unit) dap_cmd" where
  "dap_handle_cmd_swo_extended_status P =
     bindC (get_u8 P) (\<lambda>control.
     bindC (put_bytes P [dap_cmd_swo_extended_status]) (\<lambda>_.
     bindC (gets swo_trace_status) (\<lambda>trace_status.
     bindC (whenC (bit control 0) (put_bytes P [trace_status])) (\<lambda>_.
     bindC (gets swo_buf) (\<lambda>swo.
     whenC (bit control 1) (put_le32 P (of_nat (p_size P swo))))))))"

text \<open>
  The copy loop of \<open>swo_data\<close>: every round claims up to \<open>max_count\<close> bytes of trace data and as
  much response space, and copies what both grant.
\<close>

fun swo_data_loop :: "'rb platform \<Rightarrow> nat \<Rightarrow> u16 \<Rightarrow> u16 \<Rightarrow> ('rb, u16) dap_cmd" where
  "swo_data_loop P 0 max_count count = spin"
| "swo_data_loop P (Suc fuel) max_count count =
     bindC (on_swo (rb_get_claim P (unat max_count))) (\<lambda>(swo_read_size, swo_ptr).
     bindC (on_response (rb_put_claim P swo_read_size)) (\<lambda>(response_write_size, response_ptr).
     bindC (on_swo (rb_load P swo_ptr response_write_size)) (\<lambda>bs.
     bindC (on_response (rb_store P response_ptr bs)) (\<lambda>_.
     bindC (on_swo (rb_get_finish P response_write_size)) (\<lambda>get_ret.
     bindC (on_response (rb_put_finish P response_write_size)) (\<lambda>put_ret.
     if get_ret \<noteq> 0 \<or> put_ret \<noteq> 0 then fail ENOBUFS
     else bindC (gets swo_buf) (\<lambda>swo.
          bindC (gets response) (\<lambda>resp.
          let count = count + of_nat response_write_size in
          if count < max_count \<and> 0 < p_size P swo \<and> 0 < p_space P resp
          then swo_data_loop P fuel max_count count
          else ret count))))))))"

definition dap_handle_cmd_swo_data :: "'rb platform \<Rightarrow> ('rb, unit) dap_cmd" where
  "dap_handle_cmd_swo_data P =
     bindC (get_bytes P 2) (\<lambda>bs.
     bindC (put_bytes P [dap_cmd_swo_data]) (\<lambda>_.
     bindC (gets swo_trace_status) (\<lambda>trace_status.
     bindC (put_bytes P [trace_status]) (\<lambda>_.
     bindC (put_later P 2) (\<lambda>response_count_ptr.
     bindC (swo_data_loop P (p_fuel P) (sys_get_le16 bs) 0) (\<lambda>count.
     store_response P response_count_ptr (sys_put_le16 count)))))))"

end
