(* ===== verification/Nvs.thy ===== *)
theory Nvs
  imports Prelude
begin

text \<open>
  The manufacturing data (nvs.c): what is read from flash at boot, the accessors, and the DNS-SD
  TXT record shared by the network services.

  The flash driver is a parameter: the result of opening the partition and of reading \<open>n\<close> bytes
  at an offset (return code and the bytes stored).  Strings are byte lists; C strings end at the
  first zero byte.
\<close>

record flash =
  flash_area_open :: int
  flash_area_read :: "nat \<Rightarrow> nat \<Rightarrow> int \<times> byte list"

record nvs =
  serial_number :: "byte list"
  uuid :: "byte list"
  nvs_dns_txt_record :: "byte list"

definition NVS_MFG_TAG_ADDRESS :: nat where "NVS_MFG_TAG_ADDRESS = 0"
definition NVS_MFG_VERSION_ADDRESS :: nat where "NVS_MFG_VERSION_ADDRESS = 2"
definition NVS_MFG_SERIAL_ADDRESS :: nat where "NVS_MFG_SERIAL_ADDRESS = 4"
definition NVS_MFG_UUID_ADDRESS :: nat where "NVS_MFG_UUID_ADDRESS = 36"
definition NVS_MFG_TAG :: u16 where "NVS_MFG_TAG = 0x7A5A"
definition NVS_MFG_VERSION :: u16 where "NVS_MFG_VERSION = 0x0101"

lemmas nvs_consts = NVS_MFG_TAG_ADDRESS_def NVS_MFG_VERSION_ADDRESS_def NVS_MFG_SERIAL_ADDRESS_def
  NVS_MFG_UUID_ADDRESS_def NVS_MFG_TAG_def NVS_MFG_VERSION_def

text \<open>The static variables start as zeros.\<close>

definition nvs0 :: nvs where
  "nvs0 = \<lparr>serial_number = replicate 32 0, uuid = replicate 16 0,
     nvs_dns_txt_record = replicate 68 0\<rparr>"

section \<open>The C library functions it uses\<close>

definition ascii :: "string \<Rightarrow> byte list" where
  "ascii cs = map of_char cs"

definition c_str :: "byte list \<Rightarrow> byte list" where
  "c_str bs = takeWhile (\<lambda>b. b \<noteq> 0) bs"

definition strlen :: "byte list \<Rightarrow> nat" where
  "strlen bs = length (c_str bs)"

text \<open>\<open>strncpy\<close> into a buffer of \<open>n\<close> bytes: cut at \<open>n\<close>, or padded with zeros.\<close>

definition strncpy :: "nat \<Rightarrow> byte list \<Rightarrow> byte list" where
  "strncpy n src = take n (c_str src @ replicate n 0)"

text \<open>\<open>snprintk\<close> at \<open>buf + pos\<close> of a text: cut to the room there is, and ended with a zero.\<close>

definition snprintk_at :: "byte list \<Rightarrow> nat \<Rightarrow> byte list \<Rightarrow> byte list" where
  "snprintk_at buf pos out =
     (if length buf \<le> pos then buf
      else let w = take (length buf - pos - 1) out @ [0]
           in take pos buf @ w @ drop (pos + length w) buf)"

definition hex_digit :: "byte \<Rightarrow> byte" where
  "hex_digit d = (if d < 10 then 48 + d else 87 + d)"

definition hex02 :: "byte \<Rightarrow> byte list" where
  "hex02 b = [hex_digit (drop_bit 4 b), hex_digit (b AND 0x0f)]"

definition uuid_str :: "byte list \<Rightarrow> byte list" where
  "uuid_str u = concat (map hex02 (take 4 u)) @ [45] @ concat (map hex02 (take 2 (drop 4 u))) @ [45]
     @ concat (map hex02 (take 2 (drop 6 u))) @ [45] @ concat (map hex02 (take 2 (drop 8 u))) @ [45]
     @ concat (map hex02 (drop 10 u))"

section \<open>Accessors\<close>

text \<open>An accessor of a caller's buffer of \<open>buf_len\<close> bytes gives what it leaves in the buffer.\<close>

definition nvs_get_serial_number :: "nat \<Rightarrow> (nvs, byte list) cmd" where
  "nvs_get_serial_number buf_len = (\<lambda>s.
     if buf_len \<le> strlen (serial_number s) then (Fail ENOBUFS, s)
     else (Ok (strncpy buf_len (serial_number s)), s))"

text \<open>\<open>memcpy(buf, nvs.uuid, buf_len)\<close> reads past the array for a longer buffer.\<close>

definition nvs_get_uuid :: "nat \<Rightarrow> (nvs, byte list) cmd" where
  "nvs_get_uuid buf_len = (\<lambda>s.
     if buf_len < length (uuid s) then (Fail ENOBUFS, s)
     else if length (uuid s) < buf_len then (Fault, s)
     else (Ok (take buf_len (uuid s)), s))"

definition nvs_get_uuid_str :: "nat \<Rightarrow> (nvs, byte list) cmd" where
  "nvs_get_uuid_str buf_len = (\<lambda>s.
     if buf_len < length (uuid s) * 2 + 4 + 1 then (Fail ENOBUFS, s)
     else (Ok (uuid_str (uuid s) @ [0]), s))"

section \<open>Initialization\<close>

definition nvs_read :: "flash \<Rightarrow> nat \<Rightarrow> nat \<Rightarrow> (byte list \<Rightarrow> nvs \<Rightarrow> nvs) \<Rightarrow> (nvs, byte list) cmd" where
  "nvs_read F off n upd = (\<lambda>s. let (ret, bs) = flash_area_read F off n in
     if ret < 0 then (Fail EIO, upd bs s) else (Ok bs, upd bs s))"

definition le16 :: "byte list \<Rightarrow> u16" where
  "le16 bs = ucast (bs ! 0) OR push_bit 8 (ucast (bs ! 1))"

definition nvs_make_txt :: "nvs \<Rightarrow> byte list" where
  "nvs_make_txt s =
     (let serial = c_str (serial_number s);
          txt = snprintk_at (nvs_dns_txt_record s) 0
            ([of_nat (7 + length serial)] @ ascii ''serial='' @ serial);
          entry_idx = unat (of_nat (strlen txt) :: byte)
      in snprintk_at txt entry_idx ([5 + 36] @ ascii ''uuid='' @ uuid_str (uuid s)))"

definition nvs_init :: "flash \<Rightarrow> (nvs, unit) cmd" where
  "nvs_init F =
     (if flash_area_open F < 0 then fail EIO
      else bindC (nvs_read F NVS_MFG_TAG_ADDRESS 2 (\<lambda>_ s. s)) (\<lambda>tag.
           if le16 tag \<noteq> NVS_MFG_TAG then fail EINVAL
           else bindC (nvs_read F NVS_MFG_VERSION_ADDRESS 2 (\<lambda>_ s. s)) (\<lambda>version.
           if le16 version \<noteq> NVS_MFG_VERSION then fail ENOTSUP
           else bindC (nvs_read F NVS_MFG_SERIAL_ADDRESS 32 (\<lambda>bs. serial_number_update (\<lambda>_. bs))) (\<lambda>serial.
           if serial ! 31 \<noteq> 0 then fail EINVAL
           else bindC (nvs_read F NVS_MFG_UUID_ADDRESS 16 (\<lambda>bs. uuid_update (\<lambda>_. bs))) (\<lambda>_.
           modify (\<lambda>s. s\<lparr>nvs_dns_txt_record := nvs_make_txt s\<rparr>))))))"

end
