(* ===== verification/General.thy ===== *)
theory General
  imports Swo Nvs
begin

text \<open>
  The general commands (commands_general.c): probe information, host status, connecting and
  disconnecting the port, delay, reset, and direct control of the pins, the clock and the
  SWJ sequence.

  The product strings are build-time constants of the configuration and the serial number comes
  from the manufacturing data, so both are an argument of \<open>info\<close>.
\<close>

record product =
  PRODUCT_MANUFACTURER :: "byte list"
  PRODUCT_DESCRIPTOR :: "byte list"
  PRODUCT_SERIAL_FORMAT :: "byte list"
  REPO_VERSION_STRING :: "byte list"
  product_nvs :: nvs

definition VCP_RING_BUF_SIZE :: nat where "VCP_RING_BUF_SIZE = 1024"

section \<open>Probe information\<close>

definition dap_protocol_version :: "byte list" where
  "dap_protocol_version = ascii ''2.1.1''"

text \<open>The capabilities byte: SWD, JTAG, SWO UART, atomic commands and SWO trace.\<close>

definition capabilities_info0 :: byte where
  "capabilities_info0 = 0x01 OR 0x02 OR 0x04 OR 0x00 OR 0x10 OR 0x00 OR 0x40 OR 0x00"

text \<open>A length byte and a string with its terminator; \<open>sizeof\<close> is truncated to a byte.\<close>

definition info_put_str :: "'rb platform \<Rightarrow> nat \<Rightarrow> byte list \<Rightarrow> (('rb, 'z) bufs_scheme, unit) cmd" where
  "info_put_str P n str =
     (let str_len = (of_nat n :: byte) in
      bindC (put_bytes P [str_len]) (\<lambda>_.
      on_response (bindC (rb_put_claim P (unat str_len)) (\<lambda>(space, ptr).
        if space \<noteq> unat str_len then fail ENOBUFS
        else bindC (rb_store P ptr (strncpy space str)) (\<lambda>_.
             bindC (rb_put_finish P space) (\<lambda>c.
             if c \<noteq> 0 then fail ENOBUFS else ret ()))))))"

definition info_serial :: "'rb platform \<Rightarrow> product \<Rightarrow> (('rb, 'z) bufs_scheme, unit) cmd" where
  "info_serial P cfg =
     (let size = length (PRODUCT_SERIAL_FORMAT cfg) + 1 in
      case fst (nvs_get_serial_number size (product_nvs cfg)) of
        Ok serial \<Rightarrow> info_put_str P size serial
      | _ \<Rightarrow> fail EINVAL)"

definition dap_handle_cmd_info :: "'rb platform \<Rightarrow> product \<Rightarrow> ('rb, unit) dap_cmd" where
  "dap_handle_cmd_info P cfg =
     bindC (get_u8 P) (\<lambda>id.
     bindC (put_bytes P [dap_cmd_info]) (\<lambda>_.
     if id = 0x01 then info_put_str P (length (PRODUCT_MANUFACTURER cfg) + 1) (PRODUCT_MANUFACTURER cfg)
     else if id = 0x02 then info_put_str P (length (PRODUCT_DESCRIPTOR cfg) + 1) (PRODUCT_DESCRIPTOR cfg)
     else if id = 0x03 then info_serial P cfg
     else if id = 0x04 then info_put_str P (length dap_protocol_version + 1) dap_protocol_version
     else if id = 0x05 \<or> id = 0x06 \<or> id = 0x07 \<or> id = 0x08 then put_bytes P [0]
     else if id = 0x09 then info_put_str P (length (REPO_VERSION_STRING cfg) + 1) (REPO_VERSION_STRING cfg)
     else if id = 0xf0 then put_bytes P [1, capabilities_info0]
     else if id = 0xf1 then put_bytes P [0x08, 0x00, 0x00, 0x00, 0x00]
     else if id = 0xfb \<or> id = 0xfc then put_bytes P (0x04 # sys_put_le32 (of_nat VCP_RING_BUF_SIZE))
     else if id = 0xfd then put_bytes P (0x04 # sys_put_le32 (of_nat DAP_SWO_RING_BUF_SIZE))
     else if id = 0xfe then put_bytes P [0x01, of_nat (DAP_RING_BUF_SIZE div DAP_MAX_PACKET_SIZE)]
     else if id = 0xff then put_bytes P (0x02 # sys_put_le16 (of_nat DAP_MAX_PACKET_SIZE))
     else put_bytes P [0]))"

section \<open>Host status and port configuration\<close>

definition dap_handle_cmd_host_status :: "'rb platform \<Rightarrow> ('rb, unit) dap_cmd" where
  "dap_handle_cmd_host_status P =
     bindC (get_u8 P) (\<lambda>type.
     bindC (get_u8 P) (\<lambda>status.
     bindC (gets led_combined) (\<lambda>combined.
     bindC (gets led_connected) (\<lambda>connected.
     bindC (if 1 < type \<or> 1 < status then ret dap_cmd_response_error
            else if type = 0
            then bindC (modify (led_connected_update (\<lambda>_. status \<noteq> 0))) (\<lambda>_.
                 bindC (set_pin P (if combined then LED_RUNNING else LED_CONNECT)
                   (if status = 0 then 0 else 1)) (\<lambda>_.
                 ret dap_cmd_response_ok))
            else if status = 0
            then bindC (modify (led_running_update (\<lambda>_. False))) (\<lambda>_.
                 bindC (hwv P TimerStop) (\<lambda>_.
                 bindC (set_pin P LED_RUNNING (if combined \<and> connected then 1 else 0)) (\<lambda>_.
                 ret dap_cmd_response_ok)))
            else bindC (modify (led_running_update (\<lambda>_. True))) (\<lambda>_.
                 bindC (hwv P TimerStart) (\<lambda>_.
                 ret dap_cmd_response_ok))) (\<lambda>response_status.
     put_bytes P [dap_cmd_host_status, response_status])))))"

definition connect_swd :: "'rb platform \<Rightarrow> ('rb, byte) dap_cmd" where
  "connect_swd P =
     bindC (swo_capture_control P False) (\<lambda>_.
     bindC (dap_configure_pin P PINS_SWD) (\<lambda>r.
     if r \<noteq> 0 then ret 0
     else bindC (config_pin P TCK_SWCLK [GPIO_INPUT, GPIO_OUTPUT_ACTIVE]) (\<lambda>_.
          bindC (config_pin P TMS_SWDIO [GPIO_INPUT, GPIO_OUTPUT_ACTIVE]) (\<lambda>_.
          bindC (config_pin P NRESET [GPIO_INPUT, GPIO_OUTPUT_ACTIVE]) (\<lambda>_.
          bindC (config_pin P TDI [GPIO_INPUT]) (\<lambda>_.
          bindC (modify (swj_port_update (\<lambda>_. dap_port_swd))) (\<lambda>_.
          ret 1)))))))"

definition connect_jtag :: "'rb platform \<Rightarrow> ('rb, byte) dap_cmd" where
  "connect_jtag P =
     bindC (swo_capture_control P False) (\<lambda>_.
     bindC (dap_configure_pin P PINS_JTAG) (\<lambda>r.
     if r \<noteq> 0 then ret 0
     else bindC (config_pin P TCK_SWCLK [GPIO_INPUT, GPIO_OUTPUT_ACTIVE, GPIO_PULL_DOWN]) (\<lambda>_.
          bindC (config_pin P TMS_SWDIO [GPIO_INPUT, GPIO_OUTPUT_ACTIVE, GPIO_PULL_UP]) (\<lambda>_.
          bindC (config_pin P TDI [GPIO_INPUT, GPIO_OUTPUT_ACTIVE, GPIO_PULL_UP]) (\<lambda>_.
          bindC (config_pin P NRESET [GPIO_INPUT, GPIO_OUTPUT_ACTIVE]) (\<lambda>_.
          bindC (config_pin P TDO [GPIO_INPUT, GPIO_PULL_UP]) (\<lambda>_.
          bindC (modify (swj_port_update (\<lambda>_. dap_port_jtag))) (\<lambda>_.
          ret 2))))))))"

definition dap_handle_cmd_connect :: "'rb platform \<Rightarrow> ('rb, unit) dap_cmd" where
  "dap_handle_cmd_connect P =
     bindC (get_u8 P) (\<lambda>port.
     bindC (hw P (GpioGet VTREF)) (\<lambda>vtref.
     bindC (if vtref \<noteq> 1 then ret 0
            else if port = 0 \<or> port = 1 then connect_swd P
            else if port = 2 then connect_jtag P
            else ret 0) (\<lambda>response_port.
     put_bytes P [dap_cmd_connect, response_port])))"

definition dap_handle_cmd_disconnect :: "'rb platform \<Rightarrow> ('rb, unit) dap_cmd" where
  "dap_handle_cmd_disconnect P =
     bindC (swo_capture_control P False) (\<lambda>_.
     bindC (dap_configure_pin P PINS_JTAG) (\<lambda>r.
     bindC (modify (swj_port_update (\<lambda>_. dap_port_disabled))) (\<lambda>_.
     bindC (config_pin P TCK_SWCLK [GPIO_INPUT]) (\<lambda>_.
     bindC (config_pin P TMS_SWDIO [GPIO_INPUT]) (\<lambda>_.
     bindC (config_pin P TDO [GPIO_INPUT]) (\<lambda>_.
     bindC (config_pin P TDI [GPIO_INPUT]) (\<lambda>_.
     bindC (config_pin P NRESET [GPIO_INPUT]) (\<lambda>_.
     put_bytes P [dap_cmd_disconnect,
       if r \<noteq> 0 then dap_cmd_response_error else dap_cmd_response_ok]))))))))"

section \<open>Delay and reset\<close>

definition dap_handle_cmd_delay :: "'rb platform \<Rightarrow> ('rb, unit) dap_cmd" where
  "dap_handle_cmd_delay P =
     bindC (get_le16 P) (\<lambda>delay_us.
     bindC (hwv P (SleepMicros (ucast delay_us))) (\<lambda>_.
     put_bytes P [dap_cmd_delay, dap_cmd_response_ok]))"

definition dap_handle_cmd_reset_target :: "'rb platform \<Rightarrow> ('rb, unit) dap_cmd" where
  "dap_handle_cmd_reset_target P = put_bytes P [dap_cmd_reset_target, dap_cmd_response_ok, 0x00]"

section \<open>Pins, clock and sequence\<close>

definition swj_set_pin :: "'rb platform \<Rightarrow> byte \<Rightarrow> byte \<Rightarrow> nat \<Rightarrow> pin \<Rightarrow> ('rb, unit) dap_cmd" where
  "swj_set_pin P pin_output pin_mask n p =
     whenC (bit pin_mask n) (set_pin P p (if bit pin_output n then 1 else 0))"

text \<open>
  The wait for the reset line: it is polled until it has the requested level or the time has
  expired.
\<close>

fun swj_wait_nreset :: "'rb platform \<Rightarrow> nat \<Rightarrow> byte \<Rightarrow> ('rb, unit) dap_cmd" where
  "swj_wait_nreset P 0 pin_output = spin"
| "swj_wait_nreset P (Suc fuel) pin_output =
     bindC (hw P (GpioGet NRESET)) (\<lambda>v.
     if (ucast (pin_output AND 0x80) XOR push_bit 7 (of_int v) :: u32) \<noteq> 0
     then bindC (hwv P (BusyWaitMicros 1)) (\<lambda>_.
          bindC (hw P TimepointExpired) (\<lambda>expired.
          if expired = 0 then swj_wait_nreset P fuel pin_output else ret ()))
     else ret ())"

text \<open>A level read into its bit of the response byte.\<close>

definition swj_get_pin :: "'rb platform \<Rightarrow> nat \<Rightarrow> pin \<Rightarrow> ('rb, byte) dap_cmd" where
  "swj_get_pin P n p = bindC (get_pin P p) (\<lambda>b. ret (push_bit n b))"

definition swj_pin_input :: "'rb platform \<Rightarrow> ('rb, byte) dap_cmd" where
  "swj_pin_input P =
     bindC (swj_get_pin P 0 TCK_SWCLK) (\<lambda>a.
     bindC (swj_get_pin P 1 TMS_SWDIO) (\<lambda>b.
     bindC (swj_get_pin P 2 TDI) (\<lambda>c.
     bindC (swj_get_pin P 3 TDO) (\<lambda>d.
     bindC (swj_get_pin P 7 NRESET) (\<lambda>e.
     ret (a OR b OR c OR d OR e))))))"

definition dap_handle_cmd_swj_pins :: "'rb platform \<Rightarrow> ('rb, unit) dap_cmd" where
  "dap_handle_cmd_swj_pins P =
     bindC (get_u8 P) (\<lambda>pin_output.
     bindC (get_u8 P) (\<lambda>pin_mask.
     bindC (get_le32 P) (\<lambda>delay_us.
     bindC (swj_set_pin P pin_output pin_mask 0 TCK_SWCLK) (\<lambda>_.
     bindC (swj_set_pin P pin_output pin_mask 1 TMS_SWDIO) (\<lambda>_.
     bindC (swj_set_pin P pin_output pin_mask 2 TDI) (\<lambda>_.
     bindC (swj_set_pin P pin_output pin_mask 3 TDO) (\<lambda>_.
     bindC (swj_set_pin P pin_output pin_mask 7 NRESET) (\<lambda>_.
     let delay_us = (if 3000000 < delay_us then 3000000 else delay_us) in
     bindC (whenC (0 < delay_us \<and> bit pin_mask 7)
       (bindC (hwv P (TimepointCalcMicros delay_us)) (\<lambda>_.
        swj_wait_nreset P (p_fuel P) pin_output))) (\<lambda>_.
     bindC (swj_pin_input P) (\<lambda>pin_input.
     put_bytes P [dap_cmd_swj_pins, pin_input]))))))))))"

definition dap_handle_cmd_swj_clock :: "'rb platform \<Rightarrow> ('rb, unit) dap_cmd" where
  "dap_handle_cmd_swj_clock P =
     bindC (get_le32 P) (\<lambda>clock.
     bindC (whenC (clock \<noteq> 0)
       (modify (\<lambda>s. s\<lparr>swj_clock := clock, swj_delay_ns := 1000000000 div clock div 2\<rparr>))) (\<lambda>_.
     put_bytes P [dap_cmd_swj_clock,
       if clock = 0 then dap_cmd_response_error else dap_cmd_response_ok]))"

fun swj_sequence_loop :: "'rb platform \<Rightarrow> nat \<Rightarrow> nat \<Rightarrow> byte \<Rightarrow> ('rb, unit) dap_cmd" where
  "swj_sequence_loop P i 0 tms_swdio_bits = ret ()"
| "swj_sequence_loop P i (Suc n) tms_swdio_bits =
     bindC (if i mod 8 = 0 then get_u8 P else ret tms_swdio_bits) (\<lambda>tms_swdio_bits.
     bindC (set_pin P TMS_SWDIO (uint (tms_swdio_bits AND 0x01))) (\<lambda>_.
     bindC (set_pin P TCK_SWCLK 0) (\<lambda>_.
     bindC (wait_nanos P) (\<lambda>_.
     bindC (set_pin P TCK_SWCLK 1) (\<lambda>_.
     bindC (wait_nanos P) (\<lambda>_.
     swj_sequence_loop P (Suc i) n (drop_bit 1 tms_swdio_bits)))))))"

definition dap_handle_cmd_swj_sequence :: "'rb platform \<Rightarrow> ('rb, unit) dap_cmd" where
  "dap_handle_cmd_swj_sequence P =
     bindC (get_u8 P) (\<lambda>count.
     bindC (swj_sequence_loop P 0 (if count = 0 then 256 else unat count) 0) (\<lambda>_.
     put_bytes P [dap_cmd_swj_sequence, dap_cmd_response_ok]))"

text \<open>A product for examples.\<close>

definition product0 :: product where
  "product0 = \<lparr>PRODUCT_MANUFACTURER = [82], PRODUCT_DESCRIPTOR = [80], PRODUCT_SERIAL_FORMAT = [88],
     REPO_VERSION_STRING = [49], product_nvs = nvs0\<rparr>"

end
