(* ===== verification/Io_State.thy ===== *)
theory Io_State
  imports General
begin

text \<open>
  The state of the IO driver (\<open>struct io_driver\<close> of io.h), its constants, and the helpers its
  command handlers share.

  The table of pin functions comes from the devicetree and is part of the state, because the
  handlers change its \<open>pinctrl\<close> values.  Of the gpio table only the number of entries matters:
  entry \<open>i\<close> is the pin \<open>IO_GPIO i\<close>.
\<close>

record pin_function =
  pf_pin :: byte
  pf_function :: byte
  pf_index :: byte
  pf_pinctrl :: u32

record 'rb io_driver = "'rb bufs" +
  pinctrls :: "pin_function list"
  gpios :: nat
  io_transport :: "nat option"

type_synonym ('rb, 'a) io_cmd = "('rb io_driver, 'a) cmd"

text \<open>
  The flag values of the board's pin controller; a value of 0 stands for a flag the board does not
  have.
\<close>

record io_flags =
  IO_PINCTRL_FLAG_PULLUP :: u32
  IO_PINCTRL_FLAG_PULLDOWN :: u32
  IO_PINCTRL_FLAG_OPENDRAIN :: u32

section \<open>Constants\<close>

definition IO_RING_BUF_SIZE :: nat where "IO_RING_BUF_SIZE = 2048"
definition IO_MAX_PACKET_SIZE :: nat where "IO_MAX_PACKET_SIZE = 512"

definition io_cmd_response_ok :: byte where "io_cmd_response_ok = 0x00"
definition io_cmd_response_etimedout :: byte where "io_cmd_response_etimedout = 0xfd"
definition io_cmd_response_eio :: byte where "io_cmd_response_eio = 0xfe"
definition io_cmd_response_enotsup :: byte where "io_cmd_response_enotsup = 0xff"

definition IO_PIN_FUNC_GPIO :: byte where "IO_PIN_FUNC_GPIO = 0"
definition IO_PIN_FUNC_UART :: byte where "IO_PIN_FUNC_UART = 1"
definition IO_PIN_FUNC_I2C :: byte where "IO_PIN_FUNC_I2C = 2"

definition io_cmd_info :: u32 where "io_cmd_info = 0x01"
definition io_cmd_multi :: u32 where "io_cmd_multi = 0x02"
definition io_cmd_queue :: u32 where "io_cmd_queue = 0x03"
definition io_cmd_delay :: u32 where "io_cmd_delay = 0x04"
definition io_cmd_pins_caps :: u32 where "io_cmd_pins_caps = 0x09"
definition io_cmd_pins_default :: u32 where "io_cmd_pins_default = 0x0a"
definition io_cmd_pins_cfg :: u32 where "io_cmd_pins_cfg = 0x0b"
definition io_cmd_gpio_caps :: u32 where "io_cmd_gpio_caps = 0x10"
definition io_cmd_gpio_cfg :: u32 where "io_cmd_gpio_cfg = 0x11"
definition io_cmd_gpio_ctrl :: u32 where "io_cmd_gpio_ctrl = 0x12"

lemmas io_consts = IO_RING_BUF_SIZE_def IO_MAX_PACKET_SIZE_def io_cmd_response_ok_def
  io_cmd_response_etimedout_def io_cmd_response_eio_def io_cmd_response_enotsup_def
  IO_PIN_FUNC_GPIO_def IO_PIN_FUNC_UART_def IO_PIN_FUNC_I2C_def

lemmas io_cmd_ids = io_cmd_info_def io_cmd_multi_def io_cmd_queue_def io_cmd_delay_def
  io_cmd_pins_caps_def io_cmd_pins_default_def io_cmd_pins_cfg_def io_cmd_gpio_caps_def
  io_cmd_gpio_cfg_def io_cmd_gpio_ctrl_def

section \<open>Helpers of the handlers\<close>

text \<open>Command identifiers and the information id are UTF-8 code points on the wire.\<close>

definition io_get_utf8 :: "'rb platform \<Rightarrow> u32 \<Rightarrow> (('rb, 'z) bufs_scheme, u32) cmd" where
  "io_get_utf8 P result = on_request (bindC (utf8_rbuf_get P result) (\<lambda>(_, v). ret v))"

definition io_put_utf8 :: "'rb platform \<Rightarrow> u32 \<Rightarrow> (('rb, 'z) bufs_scheme, unit) cmd" where
  "io_put_utf8 P v = on_response (bindC (utf8_rbuf_put P v) (\<lambda>_. ret ()))"

text \<open>\<open>&io->gpios[i]\<close>: an index past the table is a fault.\<close>

definition io_gpio :: "nat \<Rightarrow> ('rb, pin) io_cmd" where
  "io_gpio i = bindC (gets gpios) (\<lambda>n. if i < n then ret (IO_GPIO i) else fault)"

definition io_configure_pin :: "'rb platform \<Rightarrow> u32 \<Rightarrow> (('rb, 'z) bufs_scheme, int) cmd" where
  "io_configure_pin P v = hw P (PinctrlConfigure (PINS_SOC v))"

text \<open>A counted loop whose counter cannot reach its bound does not end.\<close>

definition loop_ends :: "bool \<Rightarrow> ('s, unit) cmd" where
  "loop_ends b = (if b then ret () else spin)"

text \<open>
  The two loops that bring the pins into their default state, shared by the reset of the driver
  and by the command \<open>pins_default\<close>: every gpio becomes an input (the counter is 8 bits wide),
  and every pin is switched to its gpio function (the counter is 16 bits wide).
\<close>

fun io_gpios_input :: "'rb platform \<Rightarrow> nat list \<Rightarrow> ('rb, unit) io_cmd" where
  "io_gpios_input P [] = ret ()"
| "io_gpios_input P (i # is) =
     bindC (hw P (GpioConfigure (IO_GPIO i) [GPIO_INPUT])) (\<lambda>r.
     if r < 0 then fail (DriverError r) else io_gpios_input P is)"

fun io_pins_gpio :: "'rb platform \<Rightarrow> pin_function list \<Rightarrow> ('rb, unit) io_cmd" where
  "io_pins_gpio P [] = ret ()"
| "io_pins_gpio P (f # fs) =
     (if pf_function f = IO_PIN_FUNC_GPIO
      then bindC (io_configure_pin P (pf_pinctrl f)) (\<lambda>r.
           if r < 0 then fail (DriverError r) else io_pins_gpio P fs)
      else io_pins_gpio P fs)"

definition io_default_pins :: "'rb platform \<Rightarrow> ('rb, unit) io_cmd" where
  "io_default_pins P =
     bindC (gets gpios) (\<lambda>n.
     bindC (io_gpios_input P [0..<min n 256]) (\<lambda>_.
     bindC (loop_ends (n < 256)) (\<lambda>_.
     bindC (gets pinctrls) (\<lambda>fs.
     bindC (io_pins_gpio P (take 65536 fs)) (\<lambda>_.
     loop_ends (length fs < 65536))))))"

text \<open>A concrete driver: two gpios, pin 0 with a gpio and a uart function.\<close>

definition io_sample :: "aring \<Rightarrow> aring io_driver" where
  "io_sample req = \<lparr>trace = [], request = req, response = a_new 64,
     pinctrls = [\<lparr>pf_pin = 0, pf_function = 0, pf_index = 0, pf_pinctrl = 0x10\<rparr>,
       \<lparr>pf_pin = 0, pf_function = 1, pf_index = 3, pf_pinctrl = 0x20\<rparr>,
       \<lparr>pf_pin = 1, pf_function = 0, pf_index = 1, pf_pinctrl = 0x30\<rparr>],
     gpios = 2, io_transport = None\<rparr>"

definition board0 :: io_flags where
  "board0 = \<lparr>IO_PINCTRL_FLAG_PULLUP = 1, IO_PINCTRL_FLAG_PULLDOWN = 2, IO_PINCTRL_FLAG_OPENDRAIN = 4\<rparr>"

end
