(* ===== verification/Io_Commands.thy ===== *)
theory Io_Commands
  imports Io_State
begin

text \<open>
  The command handlers of the IO driver: information and delay (commands_general.c), gpio
  (commands_gpio.c) and pin control (commands_pinctrl.c).
\<close>

section \<open>General commands\<close>

definition io_protocol_version :: "byte list" where
  "io_protocol_version = ascii ''0.1.0''"

text \<open>
  Status, length and a string with its terminator.  \<open>bad\<close> is the test on the result of
  \<open>ring_buf_put_finish\<close>: the handler asks for a negative value in two places and for a value
  other than 0 in the others.
\<close>

definition io_put_str :: "'rb platform \<Rightarrow> (int \<Rightarrow> bool) \<Rightarrow> nat \<Rightarrow> byte list \<Rightarrow> (('rb, 'z) bufs_scheme, unit) cmd" where
  "io_put_str P bad n str =
     (let str_len = (of_nat n :: byte) in
      bindC (put_bytes P [io_cmd_response_ok, str_len]) (\<lambda>_.
      on_response (bindC (rb_put_claim P (unat str_len)) (\<lambda>(space, ptr).
        if space \<noteq> unat str_len then fail ENOBUFS
        else bindC (rb_store P ptr (strncpy space str)) (\<lambda>_.
             bindC (rb_put_finish P space) (\<lambda>c.
             if bad c then fail ENOBUFS else ret ()))))))"

text \<open>No subsystem is announced: all six capability constants are 0.\<close>

definition io_subsys0 :: byte where
  "io_subsys0 = 0x00 OR 0x00 OR 0x00 OR 0x00 OR 0x00 OR 0x00"

definition io_info_serial :: "'rb platform \<Rightarrow> product \<Rightarrow> (('rb, 'z) bufs_scheme, unit) cmd" where
  "io_info_serial P cfg =
     (let size = length (PRODUCT_SERIAL_FORMAT cfg) + 1 in
      case fst (nvs_get_serial_number size (product_nvs cfg)) of
        Ok serial \<Rightarrow> io_put_str P (\<lambda>c. c \<noteq> 0) size serial
      | _ \<Rightarrow> fail EINVAL)"

definition io_info_uuid :: "'rb platform \<Rightarrow> product \<Rightarrow> (('rb, 'z) bufs_scheme, unit) cmd" where
  "io_info_uuid P cfg =
     (case fst (nvs_get_uuid_str 37 (product_nvs cfg)) of
        Ok str \<Rightarrow> io_put_str P (\<lambda>c. c \<noteq> 0) 37 str
      | _ \<Rightarrow> fail EINVAL)"

definition io_handle_cmd_info :: "'rb platform \<Rightarrow> product \<Rightarrow> ('rb, unit) io_cmd" where
  "io_handle_cmd_info P cfg =
     bindC (io_get_utf8 P 0) (\<lambda>id.
     bindC (io_put_utf8 P io_cmd_info) (\<lambda>_.
     if id = 0x01 then put_bytes P ([io_cmd_response_ok, 0x02] @ sys_put_le16 (of_nat IO_MAX_PACKET_SIZE))
     else if id = 0x02 then put_bytes P ([io_cmd_response_ok, 0x02] @ sys_put_le16 (of_nat IO_RING_BUF_SIZE))
     else if id = 0x03
     then io_put_str P (\<lambda>c. c < 0) (length (PRODUCT_MANUFACTURER cfg) + 1) (PRODUCT_MANUFACTURER cfg)
     else if id = 0x04
     then io_put_str P (\<lambda>c. c < 0) (length (PRODUCT_DESCRIPTOR cfg) + 1) (PRODUCT_DESCRIPTOR cfg)
     else if id = 0x05 then io_info_serial P cfg
     else if id = 0x06 then io_info_uuid P cfg
     else if id = 0x07
     then io_put_str P (\<lambda>c. c \<noteq> 0) (length (REPO_VERSION_STRING cfg) + 1) (REPO_VERSION_STRING cfg)
     else if id = 0x08 then io_put_str P (\<lambda>c. c \<noteq> 0) (length io_protocol_version + 1) io_protocol_version
     else if id = 0x09 then put_bytes P [io_cmd_response_ok, 1, io_subsys0]
     else if id = 0x0a
     then bindC (gets gpios) (\<lambda>n. put_bytes P ([io_cmd_response_ok, 2] @ sys_put_le16 (of_nat n)))
     else put_bytes P [io_cmd_response_enotsup]))"

definition io_handle_cmd_delay :: "'rb platform \<Rightarrow> ('rb, unit) io_cmd" where
  "io_handle_cmd_delay P =
     bindC (get_le32 P) (\<lambda>delay_us.
     bindC (hwv P (SleepMicros delay_us)) (\<lambda>_.
     put_bytes P [ucast io_cmd_delay, io_cmd_response_ok]))"

section \<open>Gpio commands\<close>

definition gpio_flags_len :: byte where "gpio_flags_len = 1"
definition gpio_flags_output :: byte where "gpio_flags_output = 0x01"
definition gpio_flags_active_low :: byte where "gpio_flags_active_low = 0x02"
definition gpio_flags_pull_up :: byte where "gpio_flags_pull_up = 0x04"
definition gpio_flags_pull_down :: byte where "gpio_flags_pull_down = 0x08"
definition gpio_flags_open_drain :: byte where "gpio_flags_open_drain = 0x10"

lemmas gpio_flag_defs = gpio_flags_len_def gpio_flags_output_def gpio_flags_active_low_def
  gpio_flags_pull_up_def gpio_flags_pull_down_def gpio_flags_open_drain_def

definition io_handle_cmd_gpio_caps :: "'rb platform \<Rightarrow> io_flags \<Rightarrow> ('rb, unit) io_cmd" where
  "io_handle_cmd_gpio_caps P board =
     bindC (io_put_utf8 P io_cmd_gpio_caps) (\<lambda>_.
     bindC (put_bytes P [io_cmd_response_ok]) (\<lambda>_.
     bindC (put_bytes P [1, 0x01 OR 0x02]) (\<lambda>_.
     put_bytes P [gpio_flags_len,
       gpio_flags_output OR gpio_flags_active_low OR gpio_flags_pull_up OR gpio_flags_pull_down OR
       (if IO_PINCTRL_FLAG_OPENDRAIN board = 0 then 0 else gpio_flags_open_drain)])))"

text \<open>The flags handed to the gpio driver; every pin is an input in addition.\<close>

definition gpio_flags_of :: "byte \<Rightarrow> gpio_flag list" where
  "gpio_flags_of flags =
     [GPIO_INPUT]
     @ (if flags AND gpio_flags_output \<noteq> 0 then [GPIO_OUTPUT] else [])
     @ (if flags AND gpio_flags_active_low \<noteq> 0 then [GPIO_ACTIVE_LOW] else [])
     @ (if flags AND gpio_flags_pull_up \<noteq> 0 then [GPIO_PULL_UP] else [])
     @ (if flags AND gpio_flags_pull_down \<noteq> 0 then [GPIO_PULL_DOWN] else [])
     @ (if flags AND gpio_flags_open_drain \<noteq> 0 then [GPIO_OPEN_DRAIN] else [])"

definition io_handle_cmd_gpio_cfg :: "'rb platform \<Rightarrow> ('rb, unit) io_cmd" where
  "io_handle_cmd_gpio_cfg P =
     bindC (io_put_utf8 P io_cmd_gpio_cfg) (\<lambda>_.
     bindC (get_u8 P) (\<lambda>gpion.
     bindC (get_u8 P) (\<lambda>flags_len.
     if flags_len \<noteq> gpio_flags_len
     then bindC (get_skip P (unat flags_len)) (\<lambda>_. put_bytes P [io_cmd_response_enotsup])
     else bindC (get_u8 P) (\<lambda>flags.
          bindC (gets gpios) (\<lambda>n.
          if n < unat gpion then put_bytes P [io_cmd_response_enotsup]
          else let fs = gpio_flags_of flags in
               if GPIO_PULL_UP \<in> set fs \<and> GPIO_PULL_DOWN \<in> set fs
               then put_bytes P [io_cmd_response_enotsup]
               else if GPIO_OPEN_DRAIN \<in> set fs \<and> GPIO_OUTPUT \<notin> set fs
               then put_bytes P [io_cmd_response_enotsup]
               else bindC (io_gpio (unat gpion)) (\<lambda>pin.
                    bindC (hw P (GpioConfigure pin fs)) (\<lambda>r.
                    if r < 0 then put_bytes P [io_cmd_response_eio]
                    else put_bytes P [io_cmd_response_ok])))))))"

definition gpio_cmd_write_bit :: byte where "gpio_cmd_write_bit = 0x01"
definition gpio_cmd_write_out :: byte where "gpio_cmd_write_out = 0x02"
definition gpio_cmd_toggle_out :: byte where "gpio_cmd_toggle_out = 0x04"
definition gpio_cmd_read_in :: byte where "gpio_cmd_read_in = 0x08"
definition gpio_cmd_wait_in :: byte where "gpio_cmd_wait_in = 0x10"

lemmas gpio_cmd_defs = gpio_cmd_write_bit_def gpio_cmd_write_out_def gpio_cmd_toggle_out_def
  gpio_cmd_read_in_def gpio_cmd_wait_in_def

text \<open>
  The steps of \<open>gpio_ctrl\<close> give the status byte with which the handler returns early, or nothing
  when it goes on.  The wait polls the input until it has the requested level or the time has
  expired.
\<close>

definition gpio_write :: "'rb platform \<Rightarrow> nat \<Rightarrow> byte \<Rightarrow> ('rb, byte option) io_cmd" where
  "gpio_write P gpion cmd =
     (if cmd AND gpio_cmd_write_out \<noteq> 0
      then bindC (io_gpio gpion) (\<lambda>pin.
           bindC (hw P (GpioSet pin (uint (cmd AND gpio_cmd_write_bit)))) (\<lambda>r.
           ret (if r < 0 then Some io_cmd_response_eio else None)))
      else ret None)"

definition gpio_toggle :: "'rb platform \<Rightarrow> nat \<Rightarrow> byte \<Rightarrow> ('rb, byte option) io_cmd" where
  "gpio_toggle P gpion cmd =
     (if cmd AND gpio_cmd_toggle_out \<noteq> 0
      then bindC (io_gpio gpion) (\<lambda>pin.
           bindC (hw P (GpioToggle pin)) (\<lambda>r.
           ret (if r < 0 then Some io_cmd_response_eio else None)))
      else ret None)"

definition gpio_read :: "'rb platform \<Rightarrow> nat \<Rightarrow> byte \<Rightarrow> ('rb, byte option \<times> byte) io_cmd" where
  "gpio_read P gpion cmd =
     (if cmd AND gpio_cmd_read_in \<noteq> 0
      then bindC (io_gpio gpion) (\<lambda>pin.
           bindC (hw P (GpioGet pin)) (\<lambda>r.
           ret (if r < 0 then (Some io_cmd_response_eio, 0) else (None, of_int r))))
      else ret (None, 0))"

fun gpio_wait_loop :: "'rb platform \<Rightarrow> nat \<Rightarrow> nat \<Rightarrow> u32 \<Rightarrow> ('rb, byte option) io_cmd" where
  "gpio_wait_loop P 0 gpion wait_val = spin"
| "gpio_wait_loop P (Suc fuel) gpion wait_val =
     bindC (io_gpio gpion) (\<lambda>pin.
     bindC (hw P (GpioGet pin)) (\<lambda>r.
     if r < 0 then ret (Some io_cmd_response_eio)
     else if of_int r = wait_val then ret None
     else bindC (hwv P (SleepMillis 1)) (\<lambda>_.
          bindC (hw P TimepointExpired) (\<lambda>expired.
          if expired = 0 then gpio_wait_loop P fuel gpion wait_val else ret None))))"

definition gpio_wait :: "'rb platform \<Rightarrow> nat \<Rightarrow> byte \<Rightarrow> u32 \<Rightarrow> ('rb, byte option) io_cmd" where
  "gpio_wait P gpion cmd wait_state =
     (if cmd AND gpio_cmd_wait_in \<noteq> 0
      then bindC (hwv P (TimepointCalcMillis (drop_bit 1 wait_state))) (\<lambda>_.
           bindC (gpio_wait_loop P (p_fuel P) gpion (wait_state AND 1)) (\<lambda>status.
           case status of Some e \<Rightarrow> ret (Some e)
           | None \<Rightarrow> bindC (hw P TimepointExpired) (\<lambda>expired.
               ret (if expired \<noteq> 0 then Some io_cmd_response_etimedout else None))))
      else ret None)"

definition io_handle_cmd_gpio_ctrl :: "'rb platform \<Rightarrow> ('rb, unit) io_cmd" where
  "io_handle_cmd_gpio_ctrl P =
     bindC (io_put_utf8 P io_cmd_gpio_ctrl) (\<lambda>_.
     bindC (get_u8 P) (\<lambda>gpion.
     bindC (get_u8 P) (\<lambda>cmd.
     bindC (if cmd AND gpio_cmd_wait_in \<noteq> 0 then get_le32 P else ret 0) (\<lambda>wait_state.
     bindC (gpio_write P (unat gpion) cmd) (\<lambda>w.
     case w of Some e \<Rightarrow> put_bytes P [e] | None \<Rightarrow>
     bindC (gpio_toggle P (unat gpion) cmd) (\<lambda>t.
     case t of Some e \<Rightarrow> put_bytes P [e] | None \<Rightarrow>
     bindC (gpio_read P (unat gpion) cmd) (\<lambda>(r, read_val).
     case r of Some e \<Rightarrow> put_bytes P [e] | None \<Rightarrow>
     bindC (gpio_wait P (unat gpion) cmd wait_state) (\<lambda>x.
     case x of Some e \<Rightarrow> put_bytes P [e] | None \<Rightarrow>
     bindC (put_bytes P [io_cmd_response_ok]) (\<lambda>_.
     whenC (cmd AND gpio_cmd_read_in \<noteq> 0) (put_bytes P [read_val]))))))))))"

section \<open>Pin control commands\<close>

definition pinctrl_flags_len :: byte where "pinctrl_flags_len = 1"
definition pinctrl_flags_pull_up :: byte where "pinctrl_flags_pull_up = 0x01"
definition pinctrl_flags_pull_down :: byte where "pinctrl_flags_pull_down = 0x02"
definition pinctrl_flags_open_drain :: byte where "pinctrl_flags_open_drain = 0x04"

lemmas pinctrl_flag_defs = pinctrl_flags_len_def pinctrl_flags_pull_up_def
  pinctrl_flags_pull_down_def pinctrl_flags_open_drain_def

text \<open>The functions of a pin are appended one by one and counted in the byte claimed before.\<close>

fun pins_caps_loop :: "'rb platform \<Rightarrow> byte \<Rightarrow> pin_function list \<Rightarrow> nat \<Rightarrow> byte \<Rightarrow> ('rb, unit) io_cmd" where
  "pins_caps_loop P pin [] ptr len = ret ()"
| "pins_caps_loop P pin (f # fs) ptr len =
     (if pf_pin f \<noteq> pin then pins_caps_loop P pin fs ptr len
      else bindC (put_bytes P [pf_function f, pf_index f]) (\<lambda>_.
           bindC (store_response P ptr [len + 1]) (\<lambda>_.
           pins_caps_loop P pin fs ptr (len + 1))))"

definition io_handle_cmd_pins_caps :: "'rb platform \<Rightarrow> io_flags \<Rightarrow> ('rb, unit) io_cmd" where
  "io_handle_cmd_pins_caps P board =
     bindC (io_put_utf8 P io_cmd_pins_caps) (\<lambda>_.
     bindC (get_u8 P) (\<lambda>pin.
     bindC (gets gpios) (\<lambda>n.
     if n < unat pin then put_bytes P [io_cmd_response_enotsup]
     else bindC (put_bytes P [io_cmd_response_ok]) (\<lambda>_.
          bindC (put_bytes P [pinctrl_flags_len, pinctrl_flags_pull_up OR pinctrl_flags_pull_down OR
            (if IO_PINCTRL_FLAG_OPENDRAIN board = 0 then 0 else pinctrl_flags_open_drain)]) (\<lambda>_.
          bindC (put_later P 1) (\<lambda>ptr.
          bindC (store_response P ptr [0]) (\<lambda>_.
          bindC (gets pinctrls) (\<lambda>fs.
          bindC (pins_caps_loop P pin (take 65536 fs) ptr 0) (\<lambda>_.
          loop_ends (length fs < 65536))))))))))"

text \<open>
  Any negative result of the two default loops is answered with the error status; the loops stop
  where they failed.
\<close>

definition io_handle_cmd_pins_default :: "'rb platform \<Rightarrow> ('rb, unit) io_cmd" where
  "io_handle_cmd_pins_default P =
     bindC (io_put_utf8 P io_cmd_pins_default) (\<lambda>_.
     bindC (attempt (io_default_pins P)) (\<lambda>failed.
     put_bytes P [if failed then io_cmd_response_eio else io_cmd_response_ok]))"

text \<open>The search keeps the last match; a table index is returned instead of a pointer.\<close>

fun pins_find :: "pin_function list \<Rightarrow> nat \<Rightarrow> byte \<Rightarrow> byte \<Rightarrow> byte \<Rightarrow> nat option \<Rightarrow> nat option" where
  "pins_find [] i pin func index acc = acc"
| "pins_find (f # fs) i pin func index acc =
     pins_find fs (Suc i) pin func index
       (if pf_pin f = pin \<and> pf_function f = func \<and> pf_index f = index then Some i else acc)"

definition pinctrl_adjust :: "io_flags \<Rightarrow> byte \<Rightarrow> u32 \<Rightarrow> u32" where
  "pinctrl_adjust board flags v =
     v OR (if flags AND pinctrl_flags_pull_up \<noteq> 0 then IO_PINCTRL_FLAG_PULLUP board else 0)
       OR (if flags AND pinctrl_flags_pull_down \<noteq> 0 then IO_PINCTRL_FLAG_PULLDOWN board else 0)
       OR (if flags AND pinctrl_flags_open_drain \<noteq> 0 then IO_PINCTRL_FLAG_OPENDRAIN board else 0)"

definition pins_gpio_flags :: "byte \<Rightarrow> gpio_flag list" where
  "pins_gpio_flags flags =
     [GPIO_INPUT] @ (if flags AND pinctrl_flags_pull_up \<noteq> 0 then [GPIO_PULL_UP] else [])
     @ (if flags AND pinctrl_flags_pull_down \<noteq> 0 then [GPIO_PULL_DOWN] else [])"

definition pins_apply :: "'rb platform \<Rightarrow> io_flags \<Rightarrow> nat \<Rightarrow> byte \<Rightarrow> byte \<Rightarrow> byte \<Rightarrow> ('rb, unit) io_cmd" where
  "pins_apply P board i func index flags =
     bindC (gets pinctrls) (\<lambda>fs.
     bindC (array_get fs i) (\<lambda>f.
     bindC (array_set pinctrls pinctrls_update i
       (f\<lparr>pf_pinctrl := pinctrl_adjust board flags (pf_pinctrl f)\<rparr>)) (\<lambda>_.
     bindC (if func = IO_PIN_FUNC_GPIO
            then bindC (io_gpio (unat index)) (\<lambda>pin. hw P (GpioConfigure pin (pins_gpio_flags flags)))
            else ret 0) (\<lambda>r.
     if r < 0 then put_bytes P [io_cmd_response_eio]
     else bindC (gets pinctrls) (\<lambda>fs.
          bindC (array_get fs i) (\<lambda>f.
          bindC (io_configure_pin P (pf_pinctrl f)) (\<lambda>r.
          if r < 0 then put_bytes P [io_cmd_response_eio]
          else put_bytes P [io_cmd_response_ok])))))))"

definition io_handle_cmd_pins_cfg :: "'rb platform \<Rightarrow> io_flags \<Rightarrow> ('rb, unit) io_cmd" where
  "io_handle_cmd_pins_cfg P board =
     bindC (io_put_utf8 P io_cmd_pins_cfg) (\<lambda>_.
     bindC (get_u8 P) (\<lambda>pin.
     bindC (get_u8 P) (\<lambda>func.
     bindC (get_u8 P) (\<lambda>index.
     bindC (get_u8 P) (\<lambda>flags_len.
     if flags_len \<noteq> pinctrl_flags_len
     then bindC (get_skip P (unat flags_len)) (\<lambda>_. put_bytes P [io_cmd_response_enotsup])
     else bindC (get_u8 P) (\<lambda>flags.
          bindC (gets pinctrls) (\<lambda>fs.
          bindC (loop_ends (length fs < 65536)) (\<lambda>_.
          case pins_find fs 0 pin func index None of
            None \<Rightarrow> put_bytes P [io_cmd_response_enotsup]
          | Some i \<Rightarrow> pins_apply P board i func index flags))))))))"

end
