(* ===== verification/Io.thy ===== *)
theory Io
  imports Io_Commands
begin

text \<open>
  The IO driver (io.c): the reset of the driver, the dispatch of the commands of a request, one
  round of the driver thread, and the initialization.  The gpio and pin function tables are
  build-time constants, so they are part of the state the driver starts from.
\<close>

section \<open>Reset and dispatch\<close>

definition io_reset :: "'rb platform \<Rightarrow> ('rb, unit) io_cmd" where
  "io_reset P =
     bindC (modify (io_transport_update (\<lambda>_. None))) (\<lambda>_.
     bindC (io_default_pins P) (\<lambda>_.
     bindC (on_request (rb_reset P)) (\<lambda>_.
     on_response (rb_reset P))))"

definition io_dispatch :: "'rb platform \<Rightarrow> product \<Rightarrow> io_flags \<Rightarrow> u32 \<Rightarrow> ('rb, unit) io_cmd" where
  "io_dispatch P cfg board command =
     (if command = io_cmd_info then io_handle_cmd_info P cfg
      else if command = io_cmd_delay then io_handle_cmd_delay P
      else if command = io_cmd_pins_caps then io_handle_cmd_pins_caps P board
      else if command = io_cmd_pins_default then io_handle_cmd_pins_default P
      else if command = io_cmd_pins_cfg then io_handle_cmd_pins_cfg P board
      else if command = io_cmd_gpio_caps then io_handle_cmd_gpio_caps P board
      else if command = io_cmd_gpio_cfg then io_handle_cmd_gpio_cfg P
      else if command = io_cmd_gpio_ctrl then io_handle_cmd_gpio_ctrl P
      else fail ENOTSUP)"

text \<open>One round of the loop up to the dispatch, as in the debug access port driver.\<close>

definition io_next_command :: "'rb platform \<Rightarrow> byte \<Rightarrow> bool \<Rightarrow> ('rb, u32 \<times> byte \<times> bool) io_cmd" where
  "io_next_command P num_commands queued =
     (let (num_commands, queued) =
        (if queued \<and> num_commands = 0 then (1, False) else (num_commands, queued)) in
      bindC (io_get_utf8 P 0xffffffff) (\<lambda>command.
      let queued = (queued \<or> command = io_cmd_queue);
          command = (if command = io_cmd_queue then io_cmd_multi else command) in
      if command = io_cmd_multi
      then bindC (get_u8 P) (\<lambda>num_commands.
           bindC (io_put_utf8 P command) (\<lambda>_.
           bindC (put_bytes P [num_commands]) (\<lambda>_.
           bindC (io_get_utf8 P command) (\<lambda>command.
           ret (command, num_commands, queued)))))
      else ret (command, num_commands, queued)))"

fun io_request_loop :: "'rb platform \<Rightarrow> product \<Rightarrow> io_flags \<Rightarrow> nat \<Rightarrow> byte \<Rightarrow> bool \<Rightarrow> ('rb, unit) io_cmd" where
  "io_request_loop P cfg board 0 num_commands queued = spin"
| "io_request_loop P cfg board (Suc fuel) num_commands queued =
     bindC (io_next_command P num_commands queued) (\<lambda>(command, num_commands, queued).
     bindC (io_dispatch P cfg board command) (\<lambda>_.
     if 0 < num_commands - 1 \<or> queued
     then io_request_loop P cfg board fuel (num_commands - 1) queued
     else ret ()))"

definition io_handle_request :: "'rb platform \<Rightarrow> product \<Rightarrow> io_flags \<Rightarrow> ('rb, unit) io_cmd" where
  "io_handle_request P cfg board = io_request_loop P cfg board (p_fuel P) 1 False"

section \<open>The driver thread\<close>

fun io_configure_transports :: "'rb platform \<Rightarrow> nat list \<Rightarrow> ('rb, unit) io_cmd" where
  "io_configure_transports P [] = ret ()"
| "io_configure_transports P (i # is) =
     bindC (hw P (TransportConfigure i)) (\<lambda>r.
     bindC (whenC (r = 0) (modify (io_transport_update (\<lambda>_. Some i)))) (\<lambda>_.
     io_configure_transports P is))"

text \<open>The thread ignores the result of the reset.\<close>

definition io_restart :: "'rb platform \<Rightarrow> ('rb, unit) io_cmd" where
  "io_restart P = bindC (attempt (io_reset P)) (\<lambda>_. ret ())"

definition io_answer :: "'rb platform \<Rightarrow> product \<Rightarrow> io_flags \<Rightarrow> nat \<Rightarrow> ('rb, unit) io_cmd" where
  "io_answer P cfg board tr =
     bindC (on_response (rb_reset P)) (\<lambda>_.
     bindC (attempt (io_handle_request P cfg board)) (\<lambda>failed.
     bindC (whenC failed
       (bindC (on_response (rb_reset P)) (\<lambda>_.
        bindC (on_response (rb_put P [io_cmd_response_enotsup])) (\<lambda>n. fatal_check (n = 1))))) (\<lambda>_.
     bindC (on_response (rb_get_claim P IO_RING_BUF_SIZE)) (\<lambda>(response_len, ptr).
     bindC (on_response (rb_load P ptr response_len)) (\<lambda>bs.
     bindC (hw P (TransportSend tr bs)) (\<lambda>r.
     if r < 0 then io_restart P
     else bindC (on_response (rb_get_finish P (nat r))) (\<lambda>_.
          on_request (rb_reset P))))))))"

text \<open>
  The command is decoded from all bytes that were claimed, not only from those received; a failed
  decoding may leave a partial value in \<open>command\<close>.
\<close>

definition io_serve :: "'rb platform \<Rightarrow> product \<Rightarrow> io_flags \<Rightarrow> nat \<Rightarrow> ('rb, unit) io_cmd" where
  "io_serve P cfg board tr =
     bindC (on_request (rb_put_claim P IO_MAX_PACKET_SIZE)) (\<lambda>(request_len, ptr).
     bindC (hw_full P (TransportRecv tr request_len)) (\<lambda>(r, bs).
     bindC (on_request (rb_store P ptr bs)) (\<lambda>_.
     if r < 0 then io_restart P
     else bindC (on_request (rb_put_finish P (nat r))) (\<lambda>_.
          bindC (on_request (rb_load P ptr request_len)) (\<lambda>mem.
          if snd (utf8_decode (Some mem) (Some 0xffffffff)) = Some io_cmd_queue then ret ()
          else io_answer P cfg board tr)))))"

definition io_thread_round :: "'rb platform \<Rightarrow> product \<Rightarrow> io_flags \<Rightarrow> nat \<Rightarrow> ('rb, unit) io_cmd" where
  "io_thread_round P cfg board n_transports =
     bindC (gets io_transport) (\<lambda>tr.
     bindC (whenC (tr = None)
       (bindC (io_configure_transports P [0..<n_transports]) (\<lambda>_. hwv P (SleepMillis 50)))) (\<lambda>_.
     bindC (gets io_transport) (\<lambda>tr.
     case tr of None \<Rightarrow> ret () | Some i \<Rightarrow> io_serve P cfg board i)))"

section \<open>Initialization\<close>

fun io_gpios_ready :: "'rb platform \<Rightarrow> nat list \<Rightarrow> ('rb, unit) io_cmd" where
  "io_gpios_ready P [] = ret ()"
| "io_gpios_ready P (i # is) =
     bindC (hw P (GpioReady (IO_GPIO i))) (\<lambda>r.
     bindC (fatal_check (r \<noteq> 0)) (\<lambda>_. io_gpios_ready P is))"

fun io_init_transports :: "'rb platform \<Rightarrow> nat list \<Rightarrow> ('rb, unit) io_cmd" where
  "io_init_transports P [] = ret ()"
| "io_init_transports P (i # is) =
     bindC (hw P (TransportInit i)) (\<lambda>r.
     if r < 0 then fail (DriverError r) else io_init_transports P is)"

definition io_init :: "'rb platform \<Rightarrow> nat \<Rightarrow> ('rb, unit) io_cmd" where
  "io_init P n_transports =
     bindC (gets gpios) (\<lambda>n.
     bindC (io_gpios_ready P [0..<min n 256]) (\<lambda>_.
     bindC (loop_ends (n < 256)) (\<lambda>_.
     bindC (on_request (rb_reset P)) (\<lambda>_.
     bindC (on_response (rb_reset P)) (\<lambda>_.
     bindC (io_reset P) (\<lambda>_.
     io_init_transports P [0..<n_transports]))))))"

end
