(* ===== verification/Io_Safety.thy ===== *)
theory Io_Safety
  imports Io
begin

text \<open>
  Safety of the IO driver: every command handler keeps the tables of the driver well formed and
  accesses no array out of range, with the exception of the two gpio commands, which trust the
  gpio number of the request; and every request is handled to its end.
\<close>

section \<open>The invariant\<close>

text \<open>
  What the devicetree gives: the tables are short enough for the loop counters, and a gpio
  function names an existing gpio.
\<close>

definition io_inv :: "'rb io_driver \<Rightarrow> bool" where
  "io_inv s \<longleftrightarrow> gpios s < 256 \<and> length (pinctrls s) < 65536
     \<and> (\<forall>f \<in> set (pinctrls s). pf_function f = IO_PIN_FUNC_GPIO \<longrightarrow> unat (pf_index f) < gpios s)"

lemma io_inv_updates [simp]:
  "io_inv (s\<lparr>request := r\<rparr>) = io_inv s" "io_inv (s\<lparr>response := r\<rparr>) = io_inv s"
  "io_inv (s\<lparr>trace := h\<rparr>) = io_inv s" "io_inv (s\<lparr>io_transport := n\<rparr>) = io_inv s"
  by (simp_all add: io_inv_def)

lemma io_inv_set:
  assumes "io_inv s" "i < length (pinctrls s)" "f = pinctrls s ! i"
  shows "io_inv (pinctrls_update (\<lambda>xs. xs[i := f\<lparr>pf_pinctrl := v\<rparr>]) s)"
proof -
  have "f \<in> set (pinctrls s)" using assms(2,3) by simp
  then show ?thesis
    using assms(1) unfolding io_inv_def by (auto dest!: set_update_subset_insert [THEN subsetD])
qed

section \<open>The handlers\<close>

lemma safe_sum [safe_intros]:
  "(\<And>e. x = Inl e \<Longrightarrow> safe sp I (m e)) \<Longrightarrow> (\<And>a. x = Inr a \<Longrightarrow> safe sp I (k a)) \<Longrightarrow>
   safe sp I (case x of Inl e \<Rightarrow> m e | Inr a \<Rightarrow> k a)"
  by (cases x) simp_all

text \<open>The rest of a command may rely on more than the invariant, if what was read shows it.\<close>

lemma safe_gets_to:
  assumes "\<And>s. I s \<Longrightarrow> J (f s) s" "\<And>v s. J v s \<Longrightarrow> I s" "\<And>v. safe sp (J v) (k v)"
  shows "safe sp I (bindC (gets f) k)"
  using assms unfolding safe_def by (simp add: bindC_def gets_def) blast

lemma safe_array_get_bind:
  "i < length xs \<Longrightarrow> safe sp I (k (xs ! i)) \<Longrightarrow> safe sp I (bindC (array_get xs i) k)"
  by (simp add: array_get_def)

lemma safe_io_utf8 [safe_intros]:
  "(\<And>r s. I s \<Longrightarrow> I (s\<lparr>request := r\<rparr>)) \<Longrightarrow> safe sp I (io_get_utf8 P v)"
  "(\<And>r s. I s \<Longrightarrow> I (s\<lparr>response := r\<rparr>)) \<Longrightarrow> safe sp I (io_put_utf8 P v)"
proof -
  have "safe sp (\<lambda>_. True) (utf8_rbuf_get P v)" "safe sp (\<lambda>_. True) (utf8_rbuf_put P v)"
    unfolding utf8_rbuf_get_def utf8_rbuf_put_def by (rule safe_intros)+
  note this [safe_intros]
  show "(\<And>r s. I s \<Longrightarrow> I (s\<lparr>request := r\<rparr>)) \<Longrightarrow> safe sp I (io_get_utf8 P v)"
    "(\<And>r s. I s \<Longrightarrow> I (s\<lparr>response := r\<rparr>)) \<Longrightarrow> safe sp I (io_put_utf8 P v)"
    unfolding io_get_utf8_def io_put_utf8_def by (rule safe_intros | assumption)+
qed

lemma safe_io_configure_pin [safe_intros]:
  "(\<And>h s. I s \<Longrightarrow> I (s\<lparr>trace := h\<rparr>)) \<Longrightarrow> safe sp I (io_configure_pin P v)"
  unfolding io_configure_pin_def by (rule safe_intros | assumption)+

lemma safe_loop_ends [safe_intros]: "b \<or> sp \<Longrightarrow> safe sp I (loop_ends b)"
  by (auto simp: loop_ends_def safe_def)

lemma safe_io_put_str [safe_intros]:
  "(\<And>r s. I s \<Longrightarrow> I (s\<lparr>response := r\<rparr>)) \<Longrightarrow> safe sp I (io_put_str P bad n str)"
  unfolding io_put_str_def Let_def by (rule safe_intros | assumption)+

lemma safe_io_info [safe_intros]: "safe sp io_inv (io_handle_cmd_info P cfg)"
proof -
  have "safe sp io_inv (io_info_serial P cfg)" "safe sp io_inv (io_info_uuid P cfg)"
    unfolding io_info_serial_def io_info_uuid_def Let_def
    by (auto split: outcome.split intro!: safe_intros)
  note this [safe_intros]
  show ?thesis
    unfolding io_handle_cmd_info_def by (rule safe_intros | (simp; fail))+
qed

lemma safe_io_delay [safe_intros]: "safe sp io_inv (io_handle_cmd_delay P)"
  unfolding io_handle_cmd_delay_def by (rule safe_intros | (simp; fail))+

lemma safe_io_gpio_caps [safe_intros]: "safe sp io_inv (io_handle_cmd_gpio_caps P board)"
  unfolding io_handle_cmd_gpio_caps_def by (rule safe_intros | (simp; fail))+

lemma safe_io_default_pins [safe_intros]: "safe sp io_inv (io_default_pins P)"
proof -
  have input: "safe sp io_inv (io_gpios_input P is)" for "is"
    by (induction "is") (simp_all only: io_gpios_input.simps, (rule safe_intros | assumption | (simp; fail))+)
  have pins: "safe sp io_inv (io_pins_gpio P fs)" for fs
    by (induction fs) (simp_all only: io_pins_gpio.simps, (rule safe_intros | assumption | (simp; fail))+)
  show ?thesis
    unfolding io_default_pins_def
    by (rule safe_bind_gets safe_intros input pins | (simp add: io_inv_def; fail))+
qed

lemma safe_io_pins_default [safe_intros]: "safe sp io_inv (io_handle_cmd_pins_default P)"
  unfolding io_handle_cmd_pins_default_def by (rule safe_intros | (simp; fail))+

lemma safe_io_pins_caps [safe_intros]: "safe sp io_inv (io_handle_cmd_pins_caps P board)"
proof -
  have loop: "safe sp io_inv (pins_caps_loop P pin fs ptr len)" for pin fs ptr len
    by (induction fs arbitrary: len)
       (simp_all only: pins_caps_loop.simps, (rule safe_intros | assumption | (simp; fail))+)
  show ?thesis
    unfolding io_handle_cmd_pins_caps_def
    by (rule safe_bind_gets safe_intros loop | (simp add: io_inv_def; fail))+
qed

text \<open>The search gives an entry of the table that has the pin, function and index asked for.\<close>

lemma pins_find_Some:
  "pins_find fs i pin func index acc = Some j \<Longrightarrow> acc = Some j
     \<or> i \<le> j \<and> j < i + length fs \<and> pf_pin (fs ! (j - i)) = pin
       \<and> pf_function (fs ! (j - i)) = func \<and> pf_index (fs ! (j - i)) = index"
proof (induction fs arbitrary: i acc)
  case (Cons f fs)
  from Cons.IH [OF Cons.prems [simplified]] show ?case
    by (auto simp: Suc_le_eq nth_Cons' split: if_splits)
qed simp

lemma pins_find_entry:
  assumes "pins_find fs 0 pin func index None = Some j"
  shows "j < length fs" "pf_pin (fs ! j) = pin" "pf_function (fs ! j) = func" "pf_index (fs ! j) = index"
  using pins_find_Some [OF assms] by auto

text \<open>An entry of the table is changed in its \<open>pinctrl\<close> value only.\<close>

definition io_entry :: "nat \<Rightarrow> byte \<Rightarrow> byte \<Rightarrow> 'rb io_driver \<Rightarrow> bool" where
  "io_entry i func index s \<longleftrightarrow> io_inv s \<and> i < length (pinctrls s)
     \<and> pf_function (pinctrls s ! i) = func \<and> pf_index (pinctrls s ! i) = index"

lemma io_entry_updates [simp]:
  "io_entry i func index (s\<lparr>request := r\<rparr>) = io_entry i func index s"
  "io_entry i func index (s\<lparr>response := r\<rparr>) = io_entry i func index s"
  "io_entry i func index (s\<lparr>trace := h\<rparr>) = io_entry i func index s"
  by (simp_all add: io_entry_def)

lemma safe_io_gpio [safe_intros]: "(\<And>s. I s \<Longrightarrow> n < gpios s) \<Longrightarrow> safe sp I (io_gpio n)"
  unfolding io_gpio_def by (rule safe_bind_gets) simp

lemma safe_pins_apply: "safe sp (io_entry i func index :: 'a io_driver \<Rightarrow> bool) (pins_apply P board i func index flags)"
proof -
  have set: "safe sp (io_entry i func index :: 'a io_driver \<Rightarrow> bool) (array_set pinctrls pinctrls_update i (f\<lparr>pf_pinctrl := v\<rparr>))"
    if "pf_function f = func" "pf_index f = index" for f v
  proof (rule safe_array_set)
    fix s :: "'a io_driver" assume s: "io_entry i func index s"
    have "pinctrls s ! i \<in> set (pinctrls s)" using s by (simp add: io_entry_def)
    then have "func = IO_PIN_FUNC_GPIO \<Longrightarrow> unat index < gpios s"
      using s by (auto simp: io_entry_def io_inv_def)
    then show "i < length (pinctrls s)
        \<and> io_entry i func index (pinctrls_update (\<lambda>xs. xs[i := f\<lparr>pf_pinctrl := v\<rparr>]) s)"
      using s that by (auto simp: io_entry_def io_inv_def dest!: set_update_subset_insert [THEN subsetD])
  qed
  have gpio: "unat index < gpios s" if "func = IO_PIN_FUNC_GPIO" "io_entry i func index s" for s :: "'a io_driver"
    using that nth_mem [of i "pinctrls s"] unfolding io_entry_def io_inv_def by metis
  show ?thesis
    unfolding pins_apply_def
    by (rule safe_bind_gets safe_array_get_bind safe_intros set gpio | assumption | (simp add: io_entry_def; fail))+
qed

lemma safe_io_pins_cfg [safe_intros]: "safe sp io_inv (io_handle_cmd_pins_cfg P board)"
proof -
  have find: "safe sp io_inv (bindC (gets pinctrls) (\<lambda>fs. bindC (loop_ends (length fs < 65536)) (\<lambda>_.
      case pins_find fs 0 pin func index None of None \<Rightarrow> put_bytes P [io_cmd_response_enotsup]
      | Some i \<Rightarrow> pins_apply P board i func index flags)))" for pin func index flags
  proof (rule safe_gets_to)
    show "io_inv s \<Longrightarrow> io_inv s \<and> length (pinctrls s) < 65536
        \<and> (case pins_find (pinctrls s) 0 pin func index None of None \<Rightarrow> True
           | Some i \<Rightarrow> io_entry i func index s)" for s :: "'a io_driver"
      by (auto simp: io_inv_def io_entry_def dest: pins_find_entry split: option.split)
    fix fs :: "pin_function list"
    have none: "safe sp (\<lambda>s :: 'a io_driver. io_inv s \<and> True) (put_bytes P [io_cmd_response_enotsup])"
      by (rule safe_intros) simp
    have entry: "(\<lambda>s :: 'a io_driver. io_inv s \<and> io_entry i func index s) = io_entry i func index" for i
      by (auto simp: io_entry_def)
    show "safe sp (\<lambda>s :: 'a io_driver. io_inv s \<and> length fs < 65536
        \<and> (case pins_find fs 0 pin func index None of None \<Rightarrow> True | Some i \<Rightarrow> io_entry i func index s))
      (bindC (loop_ends (length fs < 65536)) (\<lambda>_.
        case pins_find fs 0 pin func index None of None \<Rightarrow> put_bytes P [io_cmd_response_enotsup]
        | Some i \<Rightarrow> pins_apply P board i func index flags))"
    proof (cases "length fs < 65536")
      case True
      then show ?thesis
        using none safe_pins_apply [of sp _ func index P board flags]
        by (cases "pins_find fs 0 pin func index None") (simp_all add: loop_ends_def entry)
    qed (simp add: safe_def)
  qed simp
  note find [safe_intros]
  show ?thesis
    unfolding io_handle_cmd_pins_cfg_def by (rule find safe_intros | (simp; fail))+
qed

section \<open>Properties\<close>

text \<open>
  C23: every command of the IO driver except the two gpio commands comes to an end on every
  platform, whatever the request holds, accesses no array out of range, and keeps the tables of
  the driver well formed.
\<close>

theorem io_command_safe:
  assumes "io_inv s" "command \<noteq> io_cmd_gpio_cfg" "command \<noteq> io_cmd_gpio_ctrl"
  shows "fst (io_dispatch P cfg board command s) \<notin> {Spin, Fault} \<and> io_inv (snd (io_dispatch P cfg board command s))"
proof -
  have "safe False io_inv (io_dispatch P cfg board command)"
    using assms(2,3) unfolding io_dispatch_def
    by - (rule safe_if safe_io_info safe_io_delay safe_io_pins_caps safe_io_pins_default
        safe_io_pins_cfg safe_io_gpio_caps safe_prims(2) | (simp; fail))+
  from safeD [OF this assms(1)] show ?thesis by simp
qed

lemma io_command_safe_witness:
  "fst (io_dispatch (array_platform (\<lambda>_ _. (0, [])) 1) product0 board0 io_cmd_pins_cfg
     (io_sample (a_of [0, 0, 0, 1, 3]))) \<notin> {Spin, Fault}"
  using io_command_safe [of "io_sample (a_of [0, 0, 0, 1, 3])" io_cmd_pins_cfg]
  by (simp add: io_inv_def io_sample_def io_cmd_ids io_consts)

end
