(* ===== verification/Timing.thy ===== *)
theory Timing
  imports Platform
begin

text \<open>
  The kernel's timepoints, as the two polling loops with a timeout use them.  The time a loop has
  waited since the timepoint was set is read off the trace; the law of the timer is that a
  timepoint whose delay has been waited for is expired.  A sleep or busy wait takes at least as
  long as asked for.
\<close>

definition waited_us :: "hw_call \<Rightarrow> nat" where
  "waited_us c = (case c of BusyWaitMicros n \<Rightarrow> unat n | SleepMicros n \<Rightarrow> unat n
     | SleepMillis n \<Rightarrow> 1000 * unat n | _ \<Rightarrow> 0)"

definition due_step :: "nat option \<Rightarrow> hw_call \<Rightarrow> nat option" where
  "due_step d c = (case c of TimepointCalcMicros n \<Rightarrow> Some (unat n)
     | TimepointCalcMillis n \<Rightarrow> Some (1000 * unat n)
     | _ \<Rightarrow> map_option (\<lambda>t. t - waited_us c) d)"

text \<open>The microseconds left until the timepoint set last expires.\<close>

definition due :: "hist \<Rightarrow> nat option" where
  "due h = foldl due_step None (map fst h)"

definition timer_ok :: "'rb platform \<Rightarrow> bool" where
  "timer_ok P \<longleftrightarrow> (\<forall>h. due h = Some 0 \<longrightarrow> fst (p_hw P h TimepointExpired) \<noteq> 0)"

lemma due_append [simp]: "due (h @ [(c, a)]) = due_step (due h) c"
  by (simp add: due_def)

lemma due_step_simps [simp]:
  "due_step d (TimepointCalcMicros n) = Some (unat n)"
  "due_step d (TimepointCalcMillis n) = Some (1000 * unat n)"
  "due_step d (SleepMillis n) = map_option (\<lambda>t. t - 1000 * unat n) d"
  "due_step d (BusyWaitMicros n) = map_option (\<lambda>t. t - unat n) d"
  "due_step d (GpioGet p) = d" "due_step d TimepointExpired = d"
  by (simp_all add: due_step_def waited_us_def option.map_ident)

lemma hw_eq: "hw P c s = (Ok (fst (p_hw P (trace s) c)), s\<lparr>trace := trace s @ [(c, p_hw P (trace s) c)]\<rparr>)"
  by (simp add: hw_def hw_full_def bindC_def)

lemma hwv_eq: "hwv P c s = (Ok (), s\<lparr>trace := trace s @ [(c, p_hw P (trace s) c)]\<rparr>)"
  by (simp add: hwv_def hw_full_def bindC_def)

section \<open>Waiting loops\<close>

text \<open>At most \<open>d\<close> microseconds are left until the timepoint expires.\<close>

definition wait_left :: "('s \<Rightarrow> hist) \<Rightarrow> ('s \<Rightarrow> bool) \<Rightarrow> nat \<Rightarrow> 's \<Rightarrow> bool" where
  "wait_left tr I d s \<longleftrightarrow> I s \<and> (\<exists>t \<le> d. due (tr s) = Some t)"

lemma ends_wait_calls:
  assumes "\<And>h s. I s \<Longrightarrow> I (s\<lparr>trace := h\<rparr>)"
  shows "ends (wait_left trace I d) (hw P (GpioGet p)) (wait_left trace I d)"
    "ends (wait_left trace I d) (hwv P (SleepMillis 1)) (wait_left trace I (d - 1000))"
    "ends (wait_left trace I d) (hwv P (BusyWaitMicros 1)) (wait_left trace I (d - 1))"
    "ends I (hwv P (TimepointCalcMillis n)) (wait_left trace I (1000 * unat n))"
    "ends I (hwv P (TimepointCalcMicros n)) (wait_left trace I (unat n))"
  using assms by (auto simp: ends_def wait_left_def hw_eq hwv_eq)

lemma ends_poll:
  assumes "timer_ok P" "\<And>h s. I s \<Longrightarrow> I (s\<lparr>trace := h\<rparr>)"
    "0 < d \<Longrightarrow> ends (wait_left trace I d) m I"
  shows "ends (wait_left trace I d) (bindC (hw P TimepointExpired) (\<lambda>e. if e = 0 then m else ret a)) I"
proof (rule endsI, goal_cases)
  case (1 s)
  let ?s = "s\<lparr>trace := trace s @ [(TimepointExpired, p_hw P (trace s) TimepointExpired)]\<rparr>"
  have s: "wait_left trace I d ?s" using 1 assms(2) by (auto simp: wait_left_def)
  have "fst (p_hw P (trace s) TimepointExpired) = 0 \<Longrightarrow> 0 < d"
    using 1 assms(1) by (cases d) (auto simp: wait_left_def timer_ok_def)
  then show ?case
    using endsD(1) [OF assms(3) s] by (simp add: bindC_simps(1) [OF hw_eq])
next
  case (2 s b t)
  let ?s = "s\<lparr>trace := trace s @ [(TimepointExpired, p_hw P (trace s) TimepointExpired)]\<rparr>"
  have s: "wait_left trace I d ?s" using 2 assms(2) by (auto simp: wait_left_def)
  have "fst (p_hw P (trace s) TimepointExpired) = 0 \<Longrightarrow> 0 < d"
    using 2 assms(1) by (cases d) (auto simp: wait_left_def timer_ok_def)
  then show ?case
    using endsD(2) [OF assms(3) s, of b t] s 2(2)
    by (auto simp: bindC_simps(1) [OF hw_eq] wait_left_def split: if_splits)
qed

end
