(* ===== verification/Io_Ends.thy ===== *)
theory Io_Ends
  imports Io_Safety Timing
begin

text \<open>
  Every request the IO driver is handed comes to an end: each round of the command loop takes at
  least one byte off the request, and the wait of \<open>gpio_ctrl\<close> is over when its timepoint has
  expired.  Nothing is assumed about the bytes of the request.
\<close>

section \<open>What is left of the request\<close>

definition io_left :: "('rb \<Rightarrow> rview) \<Rightarrow> ('rb \<Rightarrow> bool) \<Rightarrow> nat \<Rightarrow> 'rb io_driver \<Rightarrow> bool" where
  "io_left view ok k s \<longleftrightarrow> gpios s < 256 \<and> length (pinctrls s) < 65536
     \<and> (\<exists>bs. rb_reads view ok (request s) bs \<and> length bs \<le> k)"

text \<open>At least one byte less.\<close>

definition io_less :: "('rb \<Rightarrow> rview) \<Rightarrow> ('rb \<Rightarrow> bool) \<Rightarrow> nat \<Rightarrow> 'rb io_driver \<Rightarrow> bool" where
  "io_less view ok k s \<longleftrightarrow> 0 < k \<and> io_left view ok (k - 1) s"

lemma io_left_updates [simp]:
  "io_left view ok k (s\<lparr>response := r\<rparr>) = io_left view ok k s"
  "io_left view ok k (s\<lparr>trace := h\<rparr>) = io_left view ok k s"
  "io_left view ok k (pinctrls_update (\<lambda>xs. xs[i := f]) s) = io_left view ok k s"
  by (simp_all add: io_left_def)

lemma io_less_left: "io_less view ok k s \<Longrightarrow> io_left view ok k s"
  by (auto simp: io_less_def io_left_def)

lemma ends_io_gpio: "ends I (io_gpio n) I"
  by (auto simp: ends_def io_gpio_def bindC_def gets_def split: if_splits)

lemma ends_arrays:
  "ends I (array_get xs i) I"
  "ends (io_left view ok k) (array_set pinctrls pinctrls_update i f) (io_left view ok k)"
  by (auto simp: ends_def array_get_def array_set_def split: if_splits)

context ring_buffer
begin

text \<open>A read of the request buffer takes at least \<open>d\<close> bytes off it when it succeeds.\<close>

definition takes :: "nat \<Rightarrow> ('rb, 'a) cmd \<Rightarrow> bool" where
  "takes d m \<longleftrightarrow> (\<forall>r bs. rb_reads view ok r bs \<longrightarrow> fst (m r) \<noteq> Spin
     \<and> (\<forall>a r'. m r = (Ok a, r') \<longrightarrow> (\<exists>n\<ge>d. n \<le> length bs \<and> rb_reads view ok r' (drop n bs))))"

lemma takesI:
  "(\<And>r bs. rb_reads view ok r bs \<Longrightarrow> fst (m r) \<noteq> Spin) \<Longrightarrow>
   (\<And>r bs a r'. rb_reads view ok r bs \<Longrightarrow> m r = (Ok a, r') \<Longrightarrow>
      \<exists>n\<ge>d. n \<le> length bs \<and> rb_reads view ok r' (drop n bs)) \<Longrightarrow> takes d m"
  by (simp add: takes_def)

lemma takes_bind_ret: "takes d m \<Longrightarrow> takes d (bindC m (\<lambda>a. ret (f a)))"
  by (force simp: takes_def bindC_def split: outcome.splits prod.splits)

lemma takes_fail_as: "takes d m \<Longrightarrow> takes d (fail_as e m)"
  by (force simp: takes_def fail_as_def split: outcome.splits prod.splits)

lemma takes_get: "0 < n \<Longrightarrow> takes 1 (bindC (rb_get P n) (\<lambda>bs. if length bs \<noteq> n then fail e else ret bs))"
proof (rule takesI, goal_cases)
  case (1 r bs)
  obtain r' where "rb_get P n r = (Ok (take n bs), r')"
    using reads_get [OF 1(2)] .
  then show ?case by (simp add: bindC_simps)
next
  case (2 r bs a r')
  obtain r1 where r1: "rb_get P n r = (Ok (take n bs), r1)" "rb_reads view ok r1 (drop n bs)"
    using reads_get [OF 2(2)] .
  then have "n \<le> length bs" "r' = r1"
    using 2(3) by (auto simp: bindC_simps split: if_splits)
  then show ?case using r1(2) 2(1) by (intro exI [of _ n]) simp
qed

lemma takes_le32: "takes 1 (ring_buf_get_le32 P)"
proof (rule takesI)
  show "fst (ring_buf_get_le32 P r) \<noteq> Spin" for r
    using safe_ring_helpers(3) [of False P] by (simp add: safe_def)
  fix r bs a r' assume r: "rb_reads view ok r bs" "ring_buf_get_le32 P r = (Ok a, r')"
  show "\<exists>n\<ge>1. n \<le> length bs \<and> rb_reads view ok r' (drop n bs)"
    using reads_le(3,4) [OF r(1)] r(2) by (cases "4 \<le> length bs") (auto intro!: exI [of _ 4])
qed

lemma takes_skip: "takes 0 (ring_buf_get_skip P n)"
proof (rule takesI)
  show "fst (ring_buf_get_skip P n r) \<noteq> Spin" for r
    using safe_ring_helpers(1) [of False P n] by (simp add: safe_def)
  fix r bs a r' assume r: "rb_reads view ok r bs" "ring_buf_get_skip P n r = (Ok a, r')"
  show "\<exists>k\<ge>0. k \<le> length bs \<and> rb_reads view ok r' (drop k bs)"
    using reads_le(5,6) [OF r(1), of n] r(2) by (cases "n \<le> length bs") (auto intro!: exI [of _ n])
qed

lemma utf8_decode_takes:
  "utf8_decode (Some bs) x = (Inr n, y) \<Longrightarrow> 1 \<le> n \<and> n \<le> length bs"
  by (auto simp: utf8_decode_def utf8_lead_def split: list.splits option.splits sum.splits prod.splits if_splits)

lemma takes_utf8: "takes 1 (utf8_rbuf_get P v)"
proof (rule takesI)
  have "safe False (\<lambda>_. True) (utf8_rbuf_get P v)"
    unfolding utf8_rbuf_get_def by (rule safe_intros)+
  then show "fst (utf8_rbuf_get P v r) \<noteq> Spin" for r
    by (simp add: safe_def)
  fix r bs a r' assume r: "rb_reads view ok r bs" "utf8_rbuf_get P v r = (Ok a, r')"
  obtain r1 ptr where c: "rb_get_claim P 4 r = (Ok (min 4 (length bs), ptr), r1)"
    "rb_load P ptr (min 4 (length bs)) r1 = (Ok (take 4 bs), r1)"
    "\<And>k. k \<le> min 4 (length bs) \<Longrightarrow>
      \<exists>r2. rb_get_finish P k r1 = (Ok 0, r2) \<and> rb_reads view ok r2 (drop k bs)"
    using reads_claim [OF r(1), of 4] by metis
  obtain n y where n: "utf8_decode (Some (take 4 bs)) (Some v) = (Inr n, y)"
    "bindC (rb_get_finish P n) (\<lambda>_. ret (n, the y)) r1 = (Ok a, r')"
    using r(2) c(1,2) by (auto simp: utf8_rbuf_get_def bindC_Ok_iff split: sum.splits prod.splits)
  have "1 \<le> n" "n \<le> min 4 (length bs)"
    using utf8_decode_takes [OF n(1)] by simp_all
  then show "\<exists>n\<ge>1. n \<le> length bs \<and> rb_reads view ok r' (drop n bs)"
    using c(3) [of n] n(2) by (intro exI [of _ n]) (auto simp: bindC_Ok_iff)
qed

lemma ends_takes:
  assumes "takes d m"
  shows "ends (io_left view ok k) (on_request m) (io_left view ok k)"
    "0 < d \<Longrightarrow> ends (io_left view ok k) (on_request m) (io_less view ok k)"
proof -
  have *: "fst (on_request m s) \<noteq> Spin \<and> (\<forall>a t. on_request m s = (Ok a, t) \<longrightarrow>
      io_left view ok k t \<and> (0 < d \<longrightarrow> io_less view ok k t))"
    if s: "io_left view ok k s" for s :: "'rb io_driver"
  proof -
    obtain bs where bs: "rb_reads view ok (request s) bs" "length bs \<le> k"
      using s by (auto simp: io_left_def)
    have m: "fst (m (request s)) \<noteq> Spin"
      "\<And>a r'. m (request s) = (Ok a, r') \<Longrightarrow> \<exists>n\<ge>d. n \<le> length bs \<and> rb_reads view ok r' (drop n bs)"
      using assms bs(1) by (auto simp: takes_def)
    have "io_left view ok k (s\<lparr>request := r'\<rparr>) \<and> (0 < d \<longrightarrow> io_less view ok k (s\<lparr>request := r'\<rparr>))"
      if "m (request s) = (Ok a, r')" for a r'
      using m(2) [OF that] s bs(2) by (force simp: io_less_def io_left_def)
    then show ?thesis
      using m(1) by (auto simp: on_request_def prod_eq_iff)
  qed
  then show "ends (io_left view ok k) (on_request m) (io_left view ok k)"
    "0 < d \<Longrightarrow> ends (io_left view ok k) (on_request m) (io_less view ok k)"
    by (auto simp: ends_def)
qed

lemma ends_reads:
  "ends (io_left view ok k) (get_u8 P) (io_left view ok k)"
  "ends (io_left view ok k) (get_le32 P) (io_left view ok k)"
  "ends (io_left view ok k) (get_skip P n) (io_left view ok k)"
  "ends (io_left view ok k) (io_get_utf8 P v) (io_left view ok k)"
  "ends (io_left view ok k) (io_get_utf8 P v) (io_less view ok k)"
proof -
  have "takes 1 (bindC (utf8_rbuf_get P v) (\<lambda>(_, v). ret v))"
    using takes_bind_ret [OF takes_utf8, of v snd] by (simp add: case_prod_unfold)
  then show "ends (io_left view ok k) (io_get_utf8 P v) (io_left view ok k)"
    "ends (io_left view ok k) (io_get_utf8 P v) (io_less view ok k)"
    unfolding io_get_utf8_def by (simp_all add: ends_takes [where d = 1])
  show "ends (io_left view ok k) (get_u8 P) (io_left view ok k)"
    unfolding get_u8_def Platform.get_bytes_def
    by (rule ends_bindC, rule ends_takes, rule takes_get, simp, rule ends_ret)
  show "ends (io_left view ok k) (get_le32 P) (io_left view ok k)"
    unfolding get_le32_def by (rule ends_takes, rule takes_fail_as, rule takes_le32)
  show "ends (io_left view ok k) (get_skip P n) (io_left view ok k)"
    unfolding get_skip_def by (rule ends_takes, rule takes_fail_as, rule takes_skip)
qed

section \<open>The handlers\<close>

lemma ends_outputs:
  "ends (io_left view ok k) (put_bytes P bs) (io_left view ok k)"
  "ends (io_left view ok k) (io_put_utf8 P v) (io_left view ok k)"
  "ends (io_left view ok k) (put_later P n) (io_left view ok k)"
  "ends (io_left view ok k) (store_response P n bs) (io_left view ok k)"
  "ends (io_left view ok k) (io_put_str P bad n bs) (io_left view ok k)"
  "ends (io_left view ok k) (hw P c) (io_left view ok k)"
  "ends (io_left view ok k) (hwv P c) (io_left view ok k)"
  "ends (io_left view ok k) (io_configure_pin P v) (io_left view ok k)"
  by (rule ends_safe, (rule safe_intros | (simp; fail))+)+

lemmas ends_io = ends_same ends_if ends_option ends_prod ends_reads(1-4) ends_outputs ends_io_gpio ends_arrays
  ends_stop

lemma ends_simple_handlers:
  "ends (io_left view ok k) (io_handle_cmd_info P cfg) (io_left view ok k)"
  "ends (io_left view ok k) (io_handle_cmd_delay P) (io_left view ok k)"
  "ends (io_left view ok k) (io_handle_cmd_gpio_caps P board) (io_left view ok k)"
  "ends (io_left view ok k) (io_handle_cmd_gpio_cfg P) (io_left view ok k)"
proof -
  have info: "ends (io_left view ok k) (io_info_serial P cfg) (io_left view ok k)"
    "ends (io_left view ok k) (io_info_uuid P cfg) (io_left view ok k)"
    unfolding io_info_serial_def io_info_uuid_def Let_def
    by (auto split: outcome.split intro: ends_io)
  show "ends (io_left view ok k) (io_handle_cmd_info P cfg) (io_left view ok k)"
    unfolding io_handle_cmd_info_def by (rule ends_io info)+
  show "ends (io_left view ok k) (io_handle_cmd_delay P) (io_left view ok k)"
    unfolding io_handle_cmd_delay_def by (rule ends_io)+
  show "ends (io_left view ok k) (io_handle_cmd_gpio_caps P board) (io_left view ok k)"
    unfolding io_handle_cmd_gpio_caps_def by (rule ends_io)+
  show "ends (io_left view ok k) (io_handle_cmd_gpio_cfg P) (io_left view ok k)"
    unfolding io_handle_cmd_gpio_cfg_def Let_def by (rule ends_io)+
qed

text \<open>The loops over the tables end because the tables are shorter than their counters reach.\<close>

lemma safe_left_default_pins: "safe False (io_left view ok k) (io_default_pins P)"
proof -
  have input: "safe False (io_left view ok k) (io_gpios_input P is)" for "is"
    by (induction "is") (simp_all only: io_gpios_input.simps, (rule safe_intros | assumption | (simp; fail))+)
  have pins: "safe False (io_left view ok k) (io_pins_gpio P fs)" for fs
    by (induction fs) (simp_all only: io_pins_gpio.simps, (rule safe_intros | assumption | (simp; fail))+)
  show ?thesis
    unfolding io_default_pins_def
    by (rule safe_bind_gets safe_intros input pins | (simp add: io_left_def; fail))+
qed

lemma ends_table_handlers:
  "ends (io_left view ok k) (io_handle_cmd_pins_default P) (io_left view ok k)"
  "ends (io_left view ok k) (io_handle_cmd_pins_caps P board) (io_left view ok k)"
  "ends (io_left view ok k) (io_handle_cmd_pins_cfg P board) (io_left view ok k)"
proof -
  note safe_left_default_pins [safe_intros]
  show "ends (io_left view ok k) (io_handle_cmd_pins_default P) (io_left view ok k)"
    unfolding io_handle_cmd_pins_default_def
    by (rule ends_safe, (rule safe_intros | (simp; fail))+)
  have loop: "ends (io_left view ok k) (pins_caps_loop P pin fs ptr len) (io_left view ok k)" for pin fs ptr len
    by (induction fs arbitrary: len) (simp_all only: pins_caps_loop.simps, (rule ends_io | assumption)+)
  have loop_ends: "ends (io_left view ok k) (loop_ends b) (io_left view ok k)" if b for b
    using that by (simp add: loop_ends_def ends_ret)
  show "ends (io_left view ok k) (io_handle_cmd_pins_caps P board) (io_left view ok k)"
    unfolding io_handle_cmd_pins_caps_def
    by (rule ends_bind_gets ends_io loop loop_ends | (simp add: io_left_def; fail))+
  have entry: "ends (io_left view ok k) (pins_apply P board i func index flags) (io_left view ok k)"
    for i func index flags
    unfolding pins_apply_def by (rule ends_io)+
  show "ends (io_left view ok k) (io_handle_cmd_pins_cfg P board) (io_left view ok k)"
    unfolding io_handle_cmd_pins_cfg_def
    by (rule ends_bind_gets ends_io entry loop_ends | (simp add: io_left_def; fail))+
qed

end

text \<open>The wait of \<open>gpio_ctrl\<close>: one millisecond per poll.\<close>

lemma ends_gpio_wait_loop:
  assumes "timer_ok P" "\<And>h s. I s \<Longrightarrow> I (s\<lparr>trace := h\<rparr>)" "0 < fuel"
  shows "ends (wait_left trace I (1000 * fuel)) (gpio_wait_loop P fuel n v) I"
  using assms(3)
proof (induction fuel)
  case (Suc fuel)
  have stop: "ends (wait_left trace I d) (ret a) I" for d a
    by (rule ends_ret) (simp add: wait_left_def)
  have step: "1000 * Suc fuel - 1000 = 1000 * fuel" by simp
  show ?case
    unfolding gpio_wait_loop.simps
    apply (rule ends_bindC, rule ends_io_gpio)
    apply (rule ends_bindC, rule ends_wait_calls, erule assms(2))
    apply (rule ends_if stop)+
    apply (rule ends_bindC, rule ends_wait_calls(2), erule assms(2))
    unfolding step
    apply (rule ends_poll, rule assms(1), erule assms(2))
    using Suc.IH by simp
qed simp

lemma ends_gpio_wait:
  assumes "timer_ok P" "\<And>h s. I s \<Longrightarrow> I (s\<lparr>trace := h\<rparr>)" "2 ^ 31 \<le> p_fuel P"
  shows "ends I (gpio_wait P n cmd wait_state) I"
proof -
  have "unat wait_state < 2 ^ 32"
    using unsigned_less [of wait_state] by simp
  then have "unat (drop_bit 1 wait_state) < 2 ^ 31"
    by (simp add: unsigned_drop_bit_eq drop_bit_eq_div unat_div)
  then have short: "wait_left trace I (1000 * unat (drop_bit 1 wait_state)) s \<Longrightarrow>
      wait_left trace I (1000 * p_fuel P) s" for s
    using assms(3) by (fastforce simp: wait_left_def)
  have loop: "ends (wait_left trace I (1000 * unat (drop_bit 1 wait_state)))
      (gpio_wait_loop P (p_fuel P) n v) I" for v
    by (rule ends_pre [OF ends_gpio_wait_loop short], rule assms(1), erule assms(2))
       (use assms(3) in simp)
  have hw: "ends I (hw P c) I" for c
    using assms(2) by (simp add: ends_def hw_eq)
  show ?thesis
    unfolding gpio_wait_def
    apply (rule ends_if)
     apply (rule ends_bindC, rule ends_wait_calls(4), erule assms(2))
     apply (rule ends_bindC, rule loop)
     apply (rule ends_same ends_option hw)+
    done
qed

section \<open>The request loop\<close>

context ring_buffer
begin

lemma ends_gpio_ctrl:
  assumes "timer_ok P" "2 ^ 31 \<le> p_fuel P"
  shows "ends (io_left view ok k) (io_handle_cmd_gpio_ctrl P) (io_left view ok k)"
proof -
  have wait: "ends (io_left view ok k) (gpio_wait P n cmd ws) (io_left view ok k)" for n cmd ws
    using assms by (intro ends_gpio_wait) simp_all
  have steps: "ends (io_left view ok k) (gpio_write P n cmd) (io_left view ok k)"
    "ends (io_left view ok k) (gpio_toggle P n cmd) (io_left view ok k)"
    "ends (io_left view ok k) (gpio_read P n cmd) (io_left view ok k)" for n cmd
    unfolding gpio_write_def gpio_toggle_def gpio_read_def by (rule ends_io)+
  show ?thesis
    unfolding io_handle_cmd_gpio_ctrl_def by (rule ends_io wait steps)+
qed

lemma ends_io_dispatch:
  assumes "timer_ok P" "2 ^ 31 \<le> p_fuel P"
  shows "ends (io_left view ok k) (io_dispatch P cfg board command) (io_left view ok k)"
  unfolding io_dispatch_def
  by (intro ends_if ends_simple_handlers ends_table_handlers ends_gpio_ctrl [OF assms] ends_stop)

lemma ends_io_next_command:
  "ends (io_left view ok k) (io_next_command P n q) (io_less view ok k)"
proof -
  have less: "ends (io_less view ok k) m (io_less view ok k)"
    if "\<And>k. ends (io_left view ok k) m (io_left view ok k)" for m :: "('rb io_driver, 'x) cmd"
    using that [of "k - 1"] by (auto simp: ends_def io_less_def)
  have ops: "ends (io_less view ok k) (get_u8 P) (io_less view ok k)"
    "ends (io_less view ok k) (io_put_utf8 P v) (io_less view ok k)"
    "ends (io_less view ok k) (put_bytes P bs) (io_less view ok k)"
    "ends (io_less view ok k) (io_get_utf8 P v) (io_less view ok k)" for v bs
    by (rule less, rule ends_reads ends_outputs)+
  show ?thesis
    unfolding io_next_command_def Let_def
    apply (rule ends_prod)
    apply (rule ends_bindC, rule ends_reads(5))
    apply (rule ops ends_same ends_if)+
    done
qed

lemma ends_io_request_loop:
  assumes "timer_ok P" "2 ^ 31 \<le> p_fuel P" "k < fuel"
  shows "ends (io_left view ok k) (io_request_loop P cfg board fuel n q) (\<lambda>_. True)"
  using assms(3)
proof (induction fuel arbitrary: k n q)
  case (Suc fuel)
  have rest: "ends (io_less view ok k) (bindC (io_dispatch P cfg board command) (\<lambda>_.
      if b then io_request_loop P cfg board fuel n' q' else ret ())) (\<lambda>_. True)" for command n' q' b
  proof (cases k)
    case (Suc k')
    then have "ends (io_left view ok k') (bindC (io_dispatch P cfg board command) (\<lambda>_.
      if b then io_request_loop P cfg board fuel n' q' else ret ())) (\<lambda>_. True)"
      using Suc.IH [of k' n' q'] Suc.prems
      by (intro ends_bindC [OF ends_io_dispatch [OF assms(1,2)]] ends_if ends_ret) simp_all
    then show ?thesis
      by (rule ends_pre) (simp add: io_less_def Suc)
  qed (simp add: ends_def io_less_def)
  show ?case
    unfolding io_request_loop.simps
    by (rule ends_bindC, rule ends_io_next_command, rule ends_prod, rule ends_prod, rule rest)
qed simp

end

section \<open>Properties\<close>



end
