(* ===== verification/Io_Gpio.thy ===== *)
theory Io_Gpio
  imports Io_Ends
begin

text \<open>
  What the gpio and pin commands of the IO driver do: the calls they make on the pins, in which
  order and up to which failure, the bytes they answer with, and what happens for a gpio that does
  not exist.
\<close>

section \<open>Playing calls\<close>

text \<open>Calls are made one after the other until one of them fails.\<close>

fun play :: "'rb platform \<Rightarrow> hist \<Rightarrow> hw_call list \<Rightarrow> bool \<times> hist" where
  "play P h [] = (True, h)"
| "play P h (c # cs) =
     (let a = p_hw P h c; h' = h @ [(c, a)] in if fst a < 0 then (False, h') else play P h' cs)"

lemma play_append:
  "play P h (xs @ ys) = (case play P h xs of (good, h') \<Rightarrow> if good then play P h' ys else (False, h'))"
  by (induction xs arbitrary: h) (auto simp: Let_def)

lemma runs_eqI: "m s = n t \<Longrightarrow> runs n t Q \<Longrightarrow> runs m s Q"
  by (simp add: runs_def)

text \<open>The calls of one \<open>gpio_ctrl\<close> command, without its wait: write, toggle, read.\<close>

definition gpio_calls :: "nat \<Rightarrow> byte \<Rightarrow> hw_call list" where
  "gpio_calls n cmd =
     (if bit cmd 1 then [GpioSet (IO_GPIO n) (if bit cmd 0 then 1 else 0)] else [])
     @ (if bit cmd 2 then [GpioToggle (IO_GPIO n)] else [])
     @ (if bit cmd 3 then [GpioGet (IO_GPIO n)] else [])"

lemma gpio_cmd_bits:
  "(cmd AND gpio_cmd_write_out \<noteq> 0) = bit cmd 1" "(cmd AND gpio_cmd_toggle_out \<noteq> 0) = bit cmd 2"
  "(cmd AND gpio_cmd_read_in \<noteq> 0) = bit cmd 3" "(cmd AND gpio_cmd_wait_in \<noteq> 0) = bit cmd 4"
  "uint (cmd AND gpio_cmd_write_bit) = (if bit cmd 0 then 1 else 0)" for cmd :: byte
proof -
  have pow: "(cmd AND 2 ^ n \<noteq> 0) = bit cmd n" for n
    by (simp add: bit_iff_and_push_bit_not_eq_0)
  show "(cmd AND gpio_cmd_write_out \<noteq> 0) = bit cmd 1" "(cmd AND gpio_cmd_toggle_out \<noteq> 0) = bit cmd 2"
    "(cmd AND gpio_cmd_read_in \<noteq> 0) = bit cmd 3" "(cmd AND gpio_cmd_wait_in \<noteq> 0) = bit cmd 4"
    using pow [of 1] pow [of 2] pow [of 3] pow [of 4] by (simp_all add: gpio_cmd_defs)
  show "uint (cmd AND gpio_cmd_write_bit) = (if bit cmd 0 then 1 else 0)"
    by (simp add: gpio_cmd_defs and_one_eq bit_0 odd_iff_mod_2_eq_one even_iff_mod_2_eq_zero)
qed

lemma io_gpio_eq: "n < gpios s \<Longrightarrow> io_gpio n s = (Ok (IO_GPIO n), s)"
  by (simp add: io_gpio_def bindC_def gets_def)

lemma io_gpio_none: "gpios s \<le> n \<Longrightarrow> io_gpio n s = (Fault, s)"
  by (simp add: io_gpio_def bindC_def gets_def)

lemma gpio_steps:
  assumes "n < gpios s"
  shows "gpio_write P n cmd s =
      (case play P (trace s) (if bit cmd 1 then [GpioSet (IO_GPIO n) (if bit cmd 0 then 1 else 0)] else [])
       of (good, h) \<Rightarrow> (Ok (if good then None else Some 0xfe), s\<lparr>trace := h\<rparr>))"
    "gpio_toggle P n cmd s =
      (case play P (trace s) (if bit cmd 2 then [GpioToggle (IO_GPIO n)] else [])
       of (good, h) \<Rightarrow> (Ok (if good then None else Some 0xfe), s\<lparr>trace := h\<rparr>))"
    "gpio_read P n cmd s =
      (case play P (trace s) (if bit cmd 3 then [GpioGet (IO_GPIO n)] else [])
       of (good, h) \<Rightarrow> (Ok (if good then (None, if bit cmd 3 then of_int (fst (snd (last h))) else 0)
         else (Some 0xfe, 0)), s\<lparr>trace := h\<rparr>))"
    "\<not> bit cmd 4 \<Longrightarrow> gpio_wait P n cmd w s = (Ok None, s)"
  using assms
  by (simp_all add: gpio_write_def gpio_toggle_def gpio_read_def gpio_wait_def gpio_cmd_bits
      bindC_simps(1) [OF io_gpio_eq] bindC_simps(1) [OF hw_eq] io_consts Let_def)

text \<open>The three steps together: they answer early where the first call fails.\<close>

lemma gpio_steps_play:
  assumes "n < gpios s" "\<not> bit cmd 4" "play P (trace s) (gpio_calls n cmd) = (good, h)"
  shows "bindC (gpio_write P n cmd) (\<lambda>x. case x of Some e \<Rightarrow> put_bytes P [e] | None \<Rightarrow>
     bindC (gpio_toggle P n cmd) (\<lambda>x. case x of Some e \<Rightarrow> put_bytes P [e] | None \<Rightarrow>
     bindC (gpio_read P n cmd) (\<lambda>(r, v). case r of Some e \<Rightarrow> put_bytes P [e] | None \<Rightarrow>
     bindC (gpio_wait P n cmd w) (\<lambda>x. case x of Some e \<Rightarrow> put_bytes P [e] | None \<Rightarrow> k v)))) s
   = (if good then k (if bit cmd 3 then of_int (fst (snd (last h))) else 0) else put_bytes P [0xfe])
       (s\<lparr>trace := h\<rparr>)"
proof -
  let ?c1 = "if bit cmd 1 then [GpioSet (IO_GPIO n) (if bit cmd 0 then 1 else 0)] else []"
  let ?c2 = "if bit cmd 2 then [GpioToggle (IO_GPIO n)] else []"
  let ?c3 = "if bit cmd 3 then [GpioGet (IO_GPIO n)] else []"
  have g: "n < gpios (s\<lparr>trace := h\<rparr>)" for h using assms(1) by simp
  obtain a1 h1 where p1: "play P (trace s) ?c1 = (a1, h1)" by fastforce
  obtain a2 h2 where p2: "play P h1 ?c2 = (a2, h2)" by fastforce
  obtain a3 h3 where p3: "play P h2 ?c3 = (a3, h3)" by fastforce
  note s1 = gpio_steps(1) [OF assms(1), of P cmd, unfolded p1 prod.case]
  note s2 = gpio_steps(2) [OF g [of h1], of P cmd, simplified, unfolded p2 prod.case]
  note s3 = gpio_steps(3) [OF g [of h2], of P cmd, simplified, unfolded p3 prod.case]
  note s4 = gpio_steps(4) [OF g assms(2)]
  have all: "play P (trace s) (gpio_calls n cmd) =
      (if a1 then if a2 then (a3, h3) else (False, h2) else (False, h1))"
    unfolding gpio_calls_def play_append p1 prod.case p2 p3 by simp
  show ?thesis
    using assms(3) unfolding all
    by (cases a1; cases a2; cases a3)
       (simp_all add: bindC_simps(1) [where m = "gpio_write P n cmd", OF s1]
        bindC_simps(1) [where m = "gpio_toggle P n cmd", OF s2]
        bindC_simps(1) [where m = "gpio_read P n cmd", OF s3]
        bindC_simps(1) [where m = "gpio_wait P n cmd w", OF s4])
qed

context ring_buffer
begin

lemma runs_io_put_utf8:
  assumes "rb_fills view ok c (response s) out" "length out + 4 \<le> c" "val \<le> 0x7f"
    and "\<And>r. rb_fills view ok c r (out @ [ucast val]) \<Longrightarrow> Q (Ok ()) (s\<lparr>response := r\<rparr>)"
  shows "runs (io_put_utf8 P val) s Q"
proof -
  have "utf8_len val = Some 1" using assms(3) by (simp add: utf8_len_def)
  from utf8_rbuf_put_fills [OF assms(1,2) this] obtain r where
    "utf8_rbuf_put P val (response s) = (Ok 1, r)" "rb_fills view ok c r (out @ [ucast val])"
    by (auto simp: utf8_bytes_def)
  then show ?thesis
    using assms(4) by (simp add: runs_def io_put_utf8_def on_response_def bindC_simps)
qed

lemma runs_io_gpio_ctrl:
  assumes "rb_reads view ok (request s) (g # cmd # rest)" "\<not> bit cmd 4" "unat g < gpios s"
    "rb_fills view ok c (response s) out" "length out + 4 \<le> c"
    and "\<And>r q good h. play P (trace s) (gpio_calls (unat g) cmd) = (good, h) \<Longrightarrow>
      rb_reads view ok r rest \<Longrightarrow> rb_fills view ok c q (out @ [0x12] @
        (if \<not> good then [0xfe] else if bit cmd 3 then [0, of_int (fst (snd (last h)))] else [0])) \<Longrightarrow>
      Q (Ok ()) (s\<lparr>request := r, trace := h, response := q\<rparr>)"
  shows "runs (io_handle_cmd_gpio_ctrl P) s Q"
proof -
  obtain good h where play: "play P (trace s) (gpio_calls (unat g) cmd) = (good, h)"
    by fastforce
  have tail: "runs (bindC (put_bytes P [io_cmd_response_ok]) (\<lambda>_.
      whenC (cmd AND gpio_cmd_read_in \<noteq> 0) (put_bytes P [v]))) u Q"
    if "rb_fills view ok c (response u) (out @ [0x12])"
      "\<And>q. rb_fills view ok c q (out @ [0x12] @ (if bit cmd 3 then [0, v] else [0])) \<Longrightarrow>
        Q (Ok ()) (u\<lparr>response := q\<rparr>)" for u v
    apply (rule runs_bindI, rule runs_put_bytes [OF that(1)])
    using assms(5) apply simp
    apply (simp add: gpio_cmd_bits whenC_def io_consts, intro conjI impI)
     apply (rule runs_put_bytes [where c = c and out = "out @ [0x12, 0]"])
    using assms(5) that(2) by simp_all
  show ?thesis
    unfolding io_handle_cmd_gpio_ctrl_def
    apply (rule runs_bindI, rule runs_io_put_utf8 [OF assms(4,5)])
     apply (simp add: io_cmd_ids)
    apply simp
    apply (rule runs_bindI, rule runs_get_u8 [where b = g and bs = "cmd # rest"])
     apply (simp add: assms(1))
    apply simp
    apply (rule runs_bindI, rule runs_get_u8 [where b = cmd and bs = rest])
     apply simp
    using assms(2) apply (simp add: gpio_cmd_bits(4))
    apply (rule runs_eqI, rule gpio_steps_play)
    using assms(2,3) play apply simp_all
    apply (cases good)
    subgoal for r _ rb
      using tail [of "s\<lparr>response := r, request := rb, trace := h\<rparr>" "if bit cmd 3 then of_int (fst (snd (last h))) else 0"]
        assms(6) [OF play] by (cases "bit cmd 3") (simp_all add: io_cmd_ids)
    subgoal
      apply (simp, rule runs_put_bytes [where c = c and out = "out @ [0x12]"])
      using assms(5) assms(6) [OF play] by (simp_all add: io_cmd_ids)
    done
qed

text \<open>A gpio that does not exist: the first step that uses it indexes past the table.\<close>

lemma runs_io_gpio_ctrl_none:
  assumes "rb_reads view ok (request s) (g # cmd # w0 # w1 # w2 # w3 # rest)" "gpios s \<le> unat g"
    "bit cmd 1 \<or> bit cmd 2 \<or> bit cmd 3 \<or> bit cmd 4"
    "rb_fills view ok c (response s) out" "length out + 4 \<le> c" "0 < p_fuel P"
  shows "runs (io_handle_cmd_gpio_ctrl P) s (\<lambda>r t. r = Fault)"
proof -
  obtain fuel where fuel: "p_fuel P = Suc fuel" using assms(6) by (cases "p_fuel P") auto
  have none: "io_gpio (unat g) t = (Fault, t)" if "gpios t = gpios s" for t :: "'rb io_driver"
    using assms(2) that by (simp add: io_gpio_none)
  have steps: "fst (bindC (gpio_write P (unat g) cmd) (\<lambda>x. case x of Some e \<Rightarrow> put_bytes P [e] | None \<Rightarrow>
     bindC (gpio_toggle P (unat g) cmd) (\<lambda>x. case x of Some e \<Rightarrow> put_bytes P [e] | None \<Rightarrow>
     bindC (gpio_read P (unat g) cmd) (\<lambda>(r, v). case r of Some e \<Rightarrow> put_bytes P [e] | None \<Rightarrow>
     bindC (gpio_wait P (unat g) cmd w) (\<lambda>x. case x of Some e \<Rightarrow> put_bytes P [e] | None \<Rightarrow> k v)))) t) = Fault"
    if "gpios t = gpios s" for t :: "'rb io_driver" and w k
    using assms(3) that
    by (cases "bit cmd 1"; cases "bit cmd 2"; cases "bit cmd 3")
       (simp_all add: gpio_write_def gpio_toggle_def gpio_read_def gpio_wait_def gpio_cmd_bits fuel
        bindC_simps(4) [OF none] bindC_simps(1) [OF hwv_eq] bindC_assoc)
  show ?thesis
    unfolding io_handle_cmd_gpio_ctrl_def
    apply (rule runs_bindI, rule runs_io_put_utf8 [OF assms(4,5)])
     apply (simp add: io_cmd_ids)
    apply simp
    apply (rule runs_bindI, rule runs_get_u8 [where b = g and bs = "cmd # w0 # w1 # w2 # w3 # rest"])
     apply (simp add: assms(1))
    apply simp
    apply (rule runs_bindI, rule runs_get_u8 [where b = cmd and bs = "w0 # w1 # w2 # w3 # rest"])
     apply simp
    apply (cases "bit cmd 4")
     apply (simp only: gpio_cmd_bits(4) outcome.case if_True)
     apply (rule runs_bindI)
     apply (rule runs_get_le32 [where a = w0 and b = w1 and c = w2 and d = w3 and bs = rest])
      apply simp
     apply (simp add: runs_def steps)
    apply (simp add: runs_def steps gpio_cmd_bits(4))
    done
qed

lemma runs_io_gpio_cfg_none:
  assumes "rb_reads view ok (request s) (of_nat (gpios s) # 1 # 0 # rest)" "gpios s < 256"
    "rb_fills view ok c (response s) out" "length out + 4 \<le> c"
  shows "runs (io_handle_cmd_gpio_cfg P) s (\<lambda>r t. r = Fault)"
proof -
  have g: "unat (of_nat (gpios s) :: byte) = gpios s"
    using assms(2) by (simp add: unat_of_nat)
  show ?thesis
    unfolding io_handle_cmd_gpio_cfg_def
    apply (rule runs_bindI, rule runs_io_put_utf8 [OF assms(3,4)])
     apply (simp add: io_cmd_ids)
    apply simp
    apply (rule runs_bindI, rule runs_get_u8 [where b = "of_nat (gpios s)" and bs = "1 # 0 # rest"])
     apply (simp add: assms(1))
    apply simp
    apply (rule runs_bindI, rule runs_get_u8 [where b = 1 and bs = "0 # rest"])
     apply simp
    apply (simp add: gpio_flag_defs)
    apply (rule runs_bindI, rule runs_get_u8 [where b = 0 and bs = rest])
     apply simp
    apply (simp add: g runs_bindC gpio_flags_of_def gpio_flag_defs Let_def)
    apply (simp add: runs_def io_gpio_none)
    done
qed

text \<open>The functions of one pin, and the answer of \<open>pins_caps\<close>.\<close>

lemma runs_pins_caps_loop:
  assumes "rb_fills view ok c (response s) (pre @ [len] @ items)"
    "length pre + 1 + length items + 2 * length (filter (\<lambda>f. pf_pin f = pin) fs) \<le> c"
    and "\<And>q. rb_fills view ok c q (pre @ [len + of_nat (length (filter (\<lambda>f. pf_pin f = pin) fs))] @ items
        @ concat (map (\<lambda>f. [pf_function f, pf_index f]) (filter (\<lambda>f. pf_pin f = pin) fs))) \<Longrightarrow>
      Q (Ok ()) (s\<lparr>response := q\<rparr>)"
  shows "runs (pins_caps_loop P pin fs (length pre) len) s Q"
  using assms
proof (induction fs arbitrary: s len items)
  case Nil
  then show ?case using Nil.prems(3) [of "response s"] by simp
next
  case (Cons f fs)
  show ?case
  proof (cases "pf_pin f = pin")
    case True
    let ?items = "items @ [pf_function f, pf_index f]"
    show ?thesis
      using True Cons.prems(2)
      apply simp
      apply (rule runs_bindI, rule runs_put_bytes [OF Cons.prems(1)])
       apply simp
      apply simp
      apply (rule runs_bindI, rule runs_store_response [where old = "[len]" and pre = pre and post = ?items])
         apply simp
        apply simp
       apply simp
      apply simp
      apply (rule Cons.IH [of _ "len + 1" ?items])
        apply simp
       apply simp
      using Cons.prems(3) by (simp add: ac_simps)
  next
    case False
    then show ?thesis
      using Cons.IH [of s len items] Cons.prems by simp
  qed
qed

lemma runs_io_pins_caps:
  assumes "rb_reads view ok (request s) (pin # rest)" "unat pin \<le> gpios s" "length (pinctrls s) < 65536"
    "rb_fills view ok c (response s) out"
    "length out + 5 + 2 * length (filter (\<lambda>f. pf_pin f = pin) (pinctrls s)) \<le> c"
    "flags = (if IO_PINCTRL_FLAG_OPENDRAIN board = 0 then 3 else 7)"
    and "\<And>r q. rb_reads view ok r rest \<Longrightarrow> rb_fills view ok c q (out @ [0x09, 0, 1, flags,
        of_nat (length (filter (\<lambda>f. pf_pin f = pin) (pinctrls s)))]
      @ concat (map (\<lambda>f. [pf_function f, pf_index f]) (filter (\<lambda>f. pf_pin f = pin) (pinctrls s)))) \<Longrightarrow>
      Q (Ok ()) (s\<lparr>request := r, response := q\<rparr>)"
  shows "runs (io_handle_cmd_pins_caps P board) s Q"
proof -
  let ?fs = "filter (\<lambda>f. pf_pin f = pin) (pinctrls s)"
  let ?pre = "out @ [0x09, 0, 1, flags]"
  have len: "length out + 4 \<le> c" "length ?pre + 1 + length [] + 2 * length ?fs \<le> c" using assms(5) by simp_all
  have caps: "pinctrl_flags_pull_up OR pinctrl_flags_pull_down OR
      (if IO_PINCTRL_FLAG_OPENDRAIN board = 0 then 0 else pinctrl_flags_open_drain) = flags"
    by (simp add: assms(6) pinctrl_flag_defs)
  have all: "take 65536 (pinctrls s) = pinctrls s" using assms(3) by simp
  show ?thesis
    unfolding io_handle_cmd_pins_caps_def caps
    apply (rule runs_bindI, rule runs_io_put_utf8 [OF assms(4) len(1)])
     apply (simp add: io_cmd_ids)
    apply simp
    apply (rule runs_bindI, rule runs_get_u8 [where b = pin and bs = rest])
     apply (simp add: assms(1))
    using assms(2) apply (simp add: runs_bindC [of "gets gpios"])
    apply (rule runs_bindI, rule runs_put_bytes [where c = c and out = "out @ [0x09]"])
      apply (simp add: io_cmd_ids)
    using len apply simp
    apply simp
    apply (rule runs_bindI, rule runs_put_bytes [where c = c and out = "out @ [0x09, 0]"])
      apply (simp add: io_consts)
    using len apply simp
    apply simp
    apply (rule runs_bindI, rule runs_put_later [where c = c and out = ?pre])
       apply (simp add: pinctrl_flag_defs)
    using len apply simp
     apply simp
    apply (simp only: outcome.case)
    subgoal for _ _ _ _ _ junk
    apply (rule runs_bindI, rule runs_store_response [where pre = ?pre and post = "[]" and old = junk])
       apply simp
      apply simp
     apply simp
    apply (simp add: runs_bindC [of "gets pinctrls"] assms(3) all del: length_append append_assoc)
    apply (rule runs_bindI, rule runs_pins_caps_loop [where items = "[]" and pre = ?pre and len = 0])
      apply simp
     apply (rule len)
    using assms(3) assms(7) by (simp add: loop_ends_def)
    done
qed

lemma pins_apply_play:
  assumes "i < length (pinctrls s)" "func = IO_PIN_FUNC_GPIO \<Longrightarrow> unat index < gpios s"
    "play P (trace s)
       ((if func = IO_PIN_FUNC_GPIO then [GpioConfigure (IO_GPIO (unat index)) (pins_gpio_flags flags)] else [])
        @ [PinctrlConfigure (PINS_SOC (pinctrl_adjust board flags (pf_pinctrl (pinctrls s ! i))))]) = (good, h)"
  shows "pins_apply P board i func index flags s = put_bytes P [if good then 0 else 0xfe]
      (s\<lparr>pinctrls := (pinctrls s)[i := (pinctrls s ! i)\<lparr>pf_pinctrl :=
          pinctrl_adjust board flags (pf_pinctrl (pinctrls s ! i))\<rparr>], trace := h\<rparr>)"
proof -
  let ?v = "pinctrl_adjust board flags (pf_pinctrl (pinctrls s ! i))"
  let ?s = "s\<lparr>pinctrls := (pinctrls s)[i := (pinctrls s ! i)\<lparr>pf_pinctrl := ?v\<rparr>]\<rparr>"
  have set: "array_set pinctrls pinctrls_update i ((pinctrls s ! i)\<lparr>pf_pinctrl := ?v\<rparr>) s = (Ok (), ?s)"
    using assms(1) by (simp add: array_set_def)
  have gpio: "io_gpio (unat index) ?s = (Ok (IO_GPIO (unat index)), ?s)" if "func = IO_PIN_FUNC_GPIO"
    using assms(2) [OF that] by (simp add: io_gpio_eq)
  have gets: "gets pinctrls t = (Ok (pinctrls t), t)" for t :: "'a io_driver"
    by simp
  have get: "array_get xs i = ret (xs ! i)" if "i < length xs" for xs :: "pin_function list"
    using that by (simp add: array_get_def)
  show ?thesis
    using assms(1,3) unfolding pins_apply_def
    by (simp add: bindC_simps(1) [OF gets] get bindC_simps(1) [where m = "array_set pinctrls pinctrls_update i ((pinctrls s ! i)\<lparr>pf_pinctrl := ?v\<rparr>)", OF set] bindC_simps(1) [where m = "io_gpio (unat index)", OF gpio]
        bindC_simps(1) [OF hw_eq] bindC_assoc io_configure_pin_def io_consts Let_def split: if_splits)
qed

text \<open>The entry a pin function is looked up in is the last one that matches.\<close>

end

definition pins_last :: "pin_function list \<Rightarrow> byte \<Rightarrow> byte \<Rightarrow> byte \<Rightarrow> nat option" where
  "pins_last fs pin func index =
     (let is = filter (\<lambda>i. pf_pin (fs ! i) = pin \<and> pf_function (fs ! i) = func \<and> pf_index (fs ! i) = index)
                 [0..<length fs]
      in if is = [] then None else Some (last is))"

lemma pins_find_snoc:
  "pins_find (fs @ [f]) i pin func index acc =
     (if pf_pin f = pin \<and> pf_function f = func \<and> pf_index f = index then Some (i + length fs)
      else pins_find fs i pin func index acc)"
  by (induction fs arbitrary: i acc) auto

lemma pins_find_last: "pins_find fs 0 pin func index None = pins_last fs pin func index"
proof (induction fs rule: rev_induct)
  case (snoc f fs)
  have "filter (\<lambda>i. pf_pin ((fs @ [f]) ! i) = pin \<and> pf_function ((fs @ [f]) ! i) = func
        \<and> pf_index ((fs @ [f]) ! i) = index) [0..<length fs]
      = filter (\<lambda>i. pf_pin (fs ! i) = pin \<and> pf_function (fs ! i) = func \<and> pf_index (fs ! i) = index)
        [0..<length fs]"
    by (rule filter_cong) (auto simp: nth_append)
  then show ?case
    using snoc by (simp add: pins_find_snoc pins_last_def Let_def)
qed (simp add: pins_last_def)

text \<open>The calls of one \<open>pins_cfg\<close> command on an entry of the table.\<close>

definition pins_calls :: "byte \<Rightarrow> byte \<Rightarrow> byte \<Rightarrow> u32 \<Rightarrow> hw_call list" where
  "pins_calls func index flags v =
     (if func = IO_PIN_FUNC_GPIO then [GpioConfigure (IO_GPIO (unat index)) (pins_gpio_flags flags)] else [])
     @ [PinctrlConfigure (PINS_SOC v)]"

lemma io_swap: "s\<lparr>response := q, request := r\<rparr> = s\<lparr>request := r, response := q\<rparr>" for s :: "'rb io_driver"
  by simp

context ring_buffer
begin

lemma runs_io_pins_cfg:
  assumes "rb_reads view ok (request s) (pin # func # index # 1 # flags # rest)" "io_inv s"
    "rb_fills view ok c (response s) out" "length out + 4 \<le> c"
    and "\<And>r q. pins_last (pinctrls s) pin func index = None \<Longrightarrow> rb_reads view ok r rest \<Longrightarrow>
      rb_fills view ok c q (out @ [0x0b, 0xff]) \<Longrightarrow> Q (Ok ()) (s\<lparr>request := r, response := q\<rparr>)"
    and "\<And>r q i v good h. pins_last (pinctrls s) pin func index = Some i \<Longrightarrow>
      v = pinctrl_adjust board flags (pf_pinctrl (pinctrls s ! i)) \<Longrightarrow>
      play P (trace s) (pins_calls func index flags v) = (good, h) \<Longrightarrow> rb_reads view ok r rest \<Longrightarrow>
      rb_fills view ok c q (out @ [0x0b, if good then 0 else 0xfe]) \<Longrightarrow>
      Q (Ok ()) (s\<lparr>request := r, pinctrls := (pinctrls s)[i := (pinctrls s ! i)\<lparr>pf_pinctrl := v\<rparr>],
        trace := h, response := q\<rparr>)"
  shows "runs (io_handle_cmd_pins_cfg P board) s Q"
proof -
  have short: "length (pinctrls s) < 65536" using assms(2) by (simp add: io_inv_def)
  have put: "runs (put_bytes P [b]) t Q"
    if "rb_fills view ok c (response t) (out @ [0x0b])"
      "\<And>q. rb_fills view ok c q (out @ [0x0b, b]) \<Longrightarrow> Q (Ok ()) (t\<lparr>response := q\<rparr>)" for t b
    using runs_put_bytes [OF that(1), of "[b]" Q] assms(4) that(2) by simp
  have step: "runs (case pins_last (pinctrls s) pin func index of None \<Rightarrow> put_bytes P [io_cmd_response_enotsup]
      | Some i \<Rightarrow> pins_apply P board i func index flags) (s\<lparr>request := r, response := q\<rparr>) Q"
    if r: "rb_reads view ok r rest" and q: "rb_fills view ok c q (out @ [0x0b])" for r q
  proof (cases "pins_last (pinctrls s) pin func index")
    case None
    then show ?thesis using put q assms(5) r by (simp add: io_consts)
  next
    case (Some i)
    note entry = pins_find_entry [OF Some [folded pins_find_last]]
    define v where "v = pinctrl_adjust board flags (pf_pinctrl (pinctrls s ! i))"
    obtain good h where play: "play P (trace s) (pins_calls func index flags v) = (good, h)"
      by fastforce
    have gpio: "func = IO_PIN_FUNC_GPIO \<Longrightarrow> unat index < gpios s"
      using entry assms(2) nth_mem [OF entry(1)] unfolding io_inv_def by metis
    let ?t = "s\<lparr>request := r, response := q, pinctrls := (pinctrls s)[i := (pinctrls s ! i)\<lparr>pf_pinctrl := v\<rparr>],
      trace := h\<rparr>"
    have "pins_apply P board i func index flags (s\<lparr>request := r, response := q\<rparr>)
        = put_bytes P [if good then 0 else 0xfe] ?t"
      using pins_apply_play [where s = "s\<lparr>request := r, response := q\<rparr>" and i = i and good = good and h = h]
        entry(1) gpio play by (simp add: pins_calls_def v_def)
    moreover have "runs (put_bytes P [if good then 0 else 0xfe]) ?t Q"
      using assms(6) [OF Some v_def play r] q by (intro put) simp_all
    ultimately have "runs (pins_apply P board i func index flags) (s\<lparr>request := r, response := q\<rparr>) Q"
      by (rule runs_eqI)
    then show ?thesis using Some by simp
  qed
  show ?thesis
    unfolding io_handle_cmd_pins_cfg_def pins_find_last
    apply (rule runs_bindI, rule runs_io_put_utf8 [OF assms(3,4)])
     apply (simp add: io_cmd_ids)
    apply simp
    apply (rule runs_bindI, rule runs_get_u8 [where b = pin and bs = "func # index # 1 # flags # rest"])
     apply (simp add: assms(1))
    apply simp
    apply (rule runs_bindI, rule runs_get_u8 [where b = func and bs = "index # 1 # flags # rest"])
     apply simp
    apply simp
    apply (rule runs_bindI, rule runs_get_u8 [where b = index and bs = "1 # flags # rest"])
     apply simp
    apply simp
    apply (rule runs_bindI, rule runs_get_u8 [where b = 1 and bs = "flags # rest"])
     apply simp
    apply (simp add: pinctrl_flag_defs)
    apply (rule runs_bindI, rule runs_get_u8 [where b = flags and bs = rest])
     apply simp
    using short apply (simp add: runs_bindC [of "gets pinctrls"] runs_bindC [of "loop_ends _"] loop_ends_def)
    subgoal for r _ _ _ _ q
      using step [of q r] by (simp add: io_cmd_ids io_swap)
    done
qed

end

section \<open>Properties\<close>

text \<open>
  C16: a \<open>gpio_ctrl\<close> command without a wait makes exactly the calls its bits ask for, in the order
  write, toggle, read, up to the first one that fails; it answers with the error status when one
  failed, and else with the ok status followed by the level read, if it was read.  Nothing else of
  the driver changes, and exactly the two operand bytes are consumed.
\<close>

theorem io_gpio_ctrl_plays:
  assumes "ring_buffer P view ok" "rb_reads view ok (request s) (g # cmd # rest)" "\<not> bit cmd 4"
    "unat g < gpios s" "rb_fills view ok c (response s) out" "length out + 4 \<le> c"
  shows "\<exists>t. io_handle_cmd_gpio_ctrl P s = (Ok (), t) \<and> rb_reads view ok (request t) rest
    \<and> (case play P (trace s) (gpio_calls (unat g) cmd) of (good, h) \<Rightarrow> trace t = h
        \<and> rb_fills view ok c (response t) (out @ [0x12] @
            (if \<not> good then [0xfe] else if bit cmd 3 then [0, of_int (fst (snd (last h)))] else [0])))
    \<and> t = s\<lparr>request := request t, response := response t, trace := trace t\<rparr>"
proof -
  have "runs (io_handle_cmd_gpio_ctrl P) s (\<lambda>r t. r = Ok () \<and> rb_reads view ok (request t) rest
    \<and> (case play P (trace s) (gpio_calls (unat g) cmd) of (good, h) \<Rightarrow> trace t = h
        \<and> rb_fills view ok c (response t) (out @ [0x12] @
            (if \<not> good then [0xfe] else if bit cmd 3 then [0, of_int (fst (snd (last h)))] else [0])))
    \<and> t = s\<lparr>request := request t, response := response t, trace := trace t\<rparr>)"
    by (rule ring_buffer.runs_io_gpio_ctrl [OF assms]) auto
  then show ?thesis by (auto simp: runs_def prod_eq_iff)
qed

lemma io_gpio_ctrl_plays_witness:
  "\<exists>t. io_handle_cmd_gpio_ctrl (array_platform (\<lambda>_ _. (1, [])) 8) (io_sample (a_of [1, 0x0b])) = (Ok (), t)
    \<and> rb_reads a_view a_ok (request t) []
    \<and> (case play (array_platform (\<lambda>_ _. (1, [])) 8) [] (gpio_calls 1 0x0b) of (good, h) \<Rightarrow> trace t = h
        \<and> rb_fills a_view a_ok 64 (response t) ([] @ [0x12] @
            (if \<not> good then [0xfe] else if bit (0x0b :: byte) 3 then [0, of_int (fst (snd (last h)))] else [0])))
    \<and> t = (io_sample (a_of [1, 0x0b]))\<lparr>request := request t, response := response t, trace := trace t\<rparr>"
  using io_gpio_ctrl_plays [OF arr.ring_buffer_axioms, of "io_sample (a_of [1, 0x0b])" 1 "0x0b" "[]" 64 "[]"
      "\<lambda>_ _. (1, [])" 8]
  by (simp add: io_sample_def bit_numeral_rec)



text \<open>
  C31: a \<open>pins_caps\<close> command lists the functions of the pin in the order of the table, after the
  number of functions, which the handler counts up in a byte it has reserved before it knows the
  number.
\<close>

theorem io_pins_caps_lists:
  assumes "ring_buffer P view ok" "rb_reads view ok (request s) (pin # rest)" "unat pin \<le> gpios s"
    "length (pinctrls s) < 65536" "rb_fills view ok c (response s) out"
    "length out + 5 + 2 * length (filter (\<lambda>f. pf_pin f = pin) (pinctrls s)) \<le> c"
  shows "\<exists>t. io_handle_cmd_pins_caps P board s = (Ok (), t) \<and> rb_reads view ok (request t) rest
    \<and> rb_fills view ok c (response t) (out @ [0x09, 0, 1, if IO_PINCTRL_FLAG_OPENDRAIN board = 0 then 3 else 7,
        of_nat (length (filter (\<lambda>f. pf_pin f = pin) (pinctrls s)))]
      @ concat (map (\<lambda>f. [pf_function f, pf_index f]) (filter (\<lambda>f. pf_pin f = pin) (pinctrls s))))
    \<and> t = s\<lparr>request := request t, response := response t\<rparr>"
proof -
  have "runs (io_handle_cmd_pins_caps P board) s (\<lambda>r t. r = Ok () \<and> rb_reads view ok (request t) rest
    \<and> rb_fills view ok c (response t) (out @ [0x09, 0, 1, if IO_PINCTRL_FLAG_OPENDRAIN board = 0 then 3 else 7,
        of_nat (length (filter (\<lambda>f. pf_pin f = pin) (pinctrls s)))]
      @ concat (map (\<lambda>f. [pf_function f, pf_index f]) (filter (\<lambda>f. pf_pin f = pin) (pinctrls s))))
    \<and> t = s\<lparr>request := request t, response := response t\<rparr>)"
    by (rule ring_buffer.runs_io_pins_caps [OF assms refl]) simp
  then show ?thesis by (auto simp: runs_def prod_eq_iff)
qed

lemma io_pins_caps_lists_witness:
  "\<exists>t. io_handle_cmd_pins_caps (array_platform (\<lambda>_ _. (0, [])) 8) board0 (io_sample (a_of [0])) = (Ok (), t)
    \<and> rb_reads a_view a_ok (request t) []
    \<and> rb_fills a_view a_ok 64 (response t) [0x09, 0, 1, 7, 2, 0, 0, 1, 3]
    \<and> t = (io_sample (a_of [0]))\<lparr>request := request t, response := response t\<rparr>"
  using io_pins_caps_lists [OF arr.ring_buffer_axioms, of "io_sample (a_of [0])" 0 "[]" 64 "[]"
      "\<lambda>_ _. (0, [])" 8 board0]
  by (simp add: io_sample_def board0_def)

text \<open>
  C36: the number of the gpio is not checked.  A \<open>gpio_ctrl\<close> command for a number past the table
  that writes, toggles, reads or waits accesses the table out of range, and the check of
  \<open>gpio_cfg\<close> lets the number right after the last gpio pass.
\<close>

theorem io_gpio_number_unchecked:
  assumes "ring_buffer P view ok" "rb_fills view ok c (response s) out" "length out + 4 \<le> c"
    "gpios s < 256" "0 < p_fuel P"
  shows "(rb_reads view ok (request s) (g # cmd # w0 # w1 # w2 # w3 # rest) \<and> gpios s \<le> unat g
      \<and> (bit cmd 1 \<or> bit cmd 2 \<or> bit cmd 3 \<or> bit cmd 4) \<longrightarrow> fst (io_handle_cmd_gpio_ctrl P s) = Fault)
    \<and> (rb_reads view ok (request s) (of_nat (gpios s) # 1 # 0 # rest) \<longrightarrow>
      fst (io_handle_cmd_gpio_cfg P s) = Fault)"
  using ring_buffer.runs_io_gpio_ctrl_none [OF assms(1) _ _ _ assms(2,3,5)]
    ring_buffer.runs_io_gpio_cfg_none [OF assms(1) _ assms(4,2,3)] by (auto simp: runs_def)

lemma io_gpio_number_unchecked_witness:
  "fst (io_handle_cmd_gpio_ctrl (array_platform (\<lambda>_ _. (0, [])) 8) (io_sample (a_of [2, 0x0a, 0, 0, 0, 0]))) = Fault
    \<and> fst (io_handle_cmd_gpio_cfg (array_platform (\<lambda>_ _. (0, [])) 8) (io_sample (a_of [2, 1, 0]))) = Fault"
  using io_gpio_number_unchecked [OF arr.ring_buffer_axioms, of 64 "io_sample (a_of [2, 0x0a, 0, 0, 0, 0])" "[]"
      "\<lambda>_ _. (0, [])" 8 2 "0x0a" 0 0 0 0 "[]"]
    io_gpio_number_unchecked [OF arr.ring_buffer_axioms, of 64 "io_sample (a_of [2, 1, 0])" "[]"
      "\<lambda>_ _. (0, [])" 8 _ _ _ _ _ _ "[]"]
  by (simp add: io_sample_def array_platform_def bit_numeral_rec)

end
