(* ===== verification/Uart.thy ===== *)
theory Uart
  imports Timing Ring_Buffer
begin

text \<open>
  The serial ports, as the two receive interrupts (dap.c and vcp.c) use them: the loop that throws
  the received bytes away, the bytes a port delivers in a part of the trace, and the laws of its
  driver.
\<close>

text \<open>\<open>while (uart_fifo_read(dev, &drop, 1) > 0)\<close>\<close>

fun uart_drop :: "'rb platform \<Rightarrow> uart \<Rightarrow> nat \<Rightarrow> ('z traced_scheme, unit) cmd" where
  "uart_drop P u 0 = spin"
| "uart_drop P u (Suc fuel) =
     bindC (hw P (UartFifoRead u 1)) (\<lambda>r.
     if 0 < r then uart_drop P u fuel else ret ())"

text \<open>The bytes read from the port and the number of reads.\<close>

fun fifo_bytes :: "uart \<Rightarrow> hist \<Rightarrow> byte list" where
  "fifo_bytes u [] = []"
| "fifo_bytes u ((c, a) # h) =
     (case c of UartFifoRead v n \<Rightarrow> if v = u then snd a else [] | _ \<Rightarrow> []) @ fifo_bytes u h"

fun fifo_reads :: "uart \<Rightarrow> hist \<Rightarrow> nat" where
  "fifo_reads u [] = 0"
| "fifo_reads u ((c, a) # h) =
     (case c of UartFifoRead v n \<Rightarrow> if v = u then 1 else 0 | _ \<Rightarrow> 0) + fifo_reads u h"

text \<open>How often the port has been asked whether an interrupt is pending.\<close>

fun irq_polls :: "uart \<Rightarrow> hist \<Rightarrow> nat" where
  "irq_polls u [] = 0"
| "irq_polls u ((c, a) # h) = (if c = UartCall u IrqPending then 1 else 0) + irq_polls u h"

text \<open>A read gives at most the bytes asked for.\<close>

definition fifo_ok :: "'rb platform \<Rightarrow> uart \<Rightarrow> bool" where
  "fifo_ok P u \<longleftrightarrow> (\<forall>h n. fst (p_hw P h (UartFifoRead u n)) \<le> int n
     \<and> length (snd (p_hw P h (UartFifoRead u n))) = nat (fst (p_hw P h (UartFifoRead u n))))"

text \<open>The port stops asking for attention once it has been asked \<open>n\<close> times.\<close>

definition irq_quiet :: "'rb platform \<Rightarrow> uart \<Rightarrow> nat \<Rightarrow> bool" where
  "irq_quiet P u n \<longleftrightarrow> (\<forall>h. n \<le> irq_polls u h \<longrightarrow> fst (p_hw P h (UartCall u IrqPending)) = 0)"

text \<open>The port has nothing left once it has been read \<open>n\<close> times.\<close>

definition fifo_drained :: "'rb platform \<Rightarrow> uart \<Rightarrow> nat \<Rightarrow> bool" where
  "fifo_drained P u n \<longleftrightarrow> (\<forall>h. n \<le> fifo_reads u h \<longrightarrow> fst (p_hw P h (UartIrqRxReady u)) = 0
     \<and> (\<forall>k. fst (p_hw P h (UartFifoRead u k)) \<le> 0))"

lemma fifo_append [simp]:
  "fifo_bytes u (g @ h) = fifo_bytes u g @ fifo_bytes u h"
  "fifo_reads u (g @ h) = fifo_reads u g + fifo_reads u h"
  "irq_polls u (g @ h) = irq_polls u g + irq_polls u h"
  by (induction g) auto

lemma fifo_read_bounds:
  assumes "fifo_ok P u" "p_hw P h (UartFifoRead u n) = (r, bs)"
  shows "length bs = nat r" "length bs \<le> n"
proof -
  have "r \<le> int n" "length bs = nat r"
    using assms(1) unfolding fifo_ok_def by (metis assms(2) fst_conv, metis assms(2) fst_conv snd_conv)
  then show "length bs = nat r" "length bs \<le> n" by simp_all
qed

lemma bindC_modify: "bindC (modify f) k s = k () (f s)"
  by (simp add: bindC_def modify_def)

lemma uart_drop_ends:
  assumes "fifo_drained P u n" "0 < fuel" "n < fifo_reads u (trace s) + fuel"
  shows "\<exists>h ys. uart_drop P u fuel s = (Ok (), s\<lparr>trace := h\<rparr>) \<and> fifo_bytes u h = fifo_bytes u (trace s) @ ys"
  using assms(2,3)
proof (induction fuel arbitrary: s)
  case (Suc fuel)
  let ?c = "UartFifoRead u 1"
  let ?t = "s\<lparr>trace := trace s @ [(?c, p_hw P (trace s) ?c)]\<rparr>"
  have step: "uart_drop P u (Suc fuel) s
      = (if 0 < fst (p_hw P (trace s) ?c) then uart_drop P u fuel ?t else (Ok (), ?t))"
    unfolding uart_drop.simps bindC_simps(1) [OF hw_eq] by (simp add: ret_def)
  show ?case
  proof (cases "0 < fst (p_hw P (trace s) ?c)")
    case True
    then have "fifo_reads u (trace s) < n"
      using assms(1) unfolding fifo_drained_def by (meson not_le)
    then have "\<exists>h ys. uart_drop P u fuel ?t = (Ok (), ?t\<lparr>trace := h\<rparr>)
        \<and> fifo_bytes u h = fifo_bytes u (trace ?t) @ ys"
      using Suc.prems by (intro Suc.IH) (simp_all del: One_nat_def)
    then show ?thesis using step True by (auto simp del: One_nat_def)
  next
    case False
    then show ?thesis using step by (auto intro: exI [of _ "trace ?t"] simp del: One_nat_def)
  qed
qed simp

lemma no_room: "min a (min (c - n) (c - p)) = 0 \<Longrightarrow> (0::nat) < a \<Longrightarrow> p < c \<Longrightarrow> n \<le> c \<Longrightarrow> n = c"
  by (auto simp: min_def split: if_splits)

text \<open>
  A serial port whose answers satisfy the laws: it has the bytes of a list to give, one element of
  the list at each read, and sends what it is given.
\<close>

definition serial_hw :: "byte list list \<Rightarrow> hist \<Rightarrow> hw_call \<Rightarrow> answer" where
  "serial_hw xss h c = (case c of
     UartFifoRead u n \<Rightarrow>
       (let xs = (if fifo_reads u h < length xss then take n (xss ! fifo_reads u h) else [])
        in (int (length xs), xs))
   | UartIrqUpdate u \<Rightarrow> (1, [])
   | UartIrqRxReady u \<Rightarrow> (if fifo_reads u h < length xss then 1 else 0, [])
   | UartCall u IrqPending \<Rightarrow> (if irq_polls u h < length xss then 1 else 0, [])
   | UartCall u (FifoFill bs) \<Rightarrow> (int (length bs), [])
   | _ \<Rightarrow> (0, []))"

lemma serial_hw_laws:
  "p_hw P = serial_hw xss \<Longrightarrow> fifo_ok P u" "p_hw P = serial_hw xss \<Longrightarrow> fifo_drained P u (length xss)"
  "p_hw P = serial_hw xss \<Longrightarrow> irq_quiet P u (length xss)"
  by (auto simp: fifo_ok_def fifo_drained_def irq_quiet_def serial_hw_def Let_def)

end
