(* ===== verification/Dap.thy ===== *)
theory Dap
  imports General Transfers Uart
begin

text \<open>
  The debug access port driver (dap.c): the SWO receive interrupt, the reset of the driver, the
  dispatch of the commands of a request, one round of the driver thread, and the initialization.

  Transports are numbered in the order in which the linker section lists them; their functions
  are platform calls.
\<close>

section \<open>Interrupts\<close>

definition handle_running_led_timer :: "'rb platform \<Rightarrow> ('rb, unit) dap_cmd" where
  "handle_running_led_timer P = hwv P (GpioToggle LED_RUNNING)"

fun swo_uart_loop :: "'rb platform \<Rightarrow> nat \<Rightarrow> ('rb, unit) dap_cmd" where
  "swo_uart_loop P 0 = spin"
| "swo_uart_loop P (Suc fuel) =
     bindC (hw P (UartIrqUpdate UART_SWO)) (\<lambda>update.
     if update = 0 then ret ()
     else bindC (hw P (UartIrqRxReady UART_SWO)) (\<lambda>ready.
     if ready = 0 then ret ()
     else bindC (on_swo (rb_put_claim P DAP_SWO_RING_BUF_SIZE)) (\<lambda>(space, ptr).
     if space = 0
     then bindC (modify (swo_overrun_update (\<lambda>_. True))) (\<lambda>_. uart_drop P UART_SWO (p_fuel P))
     else bindC (hw_full P (UartFifoRead UART_SWO space)) (\<lambda>(r, bs).
          bindC (on_swo (rb_store P ptr bs)) (\<lambda>_.
          bindC (on_swo (rb_put_finish P (nat r))) (\<lambda>c.
          bindC (fatal_check (c = 0)) (\<lambda>_.
          swo_uart_loop P fuel)))))))"

definition swo_uart_isr :: "'rb platform \<Rightarrow> ('rb, unit) dap_cmd" where
  "swo_uart_isr P =
     bindC (hw P (UartErrCheck UART_SWO)) (\<lambda>err.
     bindC (whenC (0 < err) (modify (swo_error_update (\<lambda>_. True)))) (\<lambda>_.
     swo_uart_loop P (p_fuel P)))"

section \<open>Reset\<close>

definition dap_defaults :: "'rb dap_driver \<Rightarrow> 'rb dap_driver" where
  "dap_defaults s = s\<lparr>transport := None, swj_port := dap_port_disabled,
     swj_clock := dap_default_swj_clock_rate,
     swj_delay_ns := 1000000000 div dap_default_swj_clock_rate div 2,
     jtag_count := 0, jtag_index := 0,
     jtag_ir_length := replicate DAP_JTAG_MAX_DEVICE_COUNT 0,
     jtag_ir_before := replicate DAP_JTAG_MAX_DEVICE_COUNT 0,
     jtag_ir_after := replicate DAP_JTAG_MAX_DEVICE_COUNT 0,
     swd_turnaround_cycles := 1, swd_data_phase := False,
     swo_transport := 0, swo_mode := 0, swo_baudrate := 1000000, swo_capture := False,
     swo_error := False, swo_overrun := False,
     transfer_idle_cycles := 0, transfer_wait_retries := 100, transfer_match_retries := 0,
     transfer_match_mask := 0, led_connected := False, led_running := False\<rparr>"

definition dap_reset :: "'rb platform \<Rightarrow> ('rb, unit) dap_cmd" where
  "dap_reset P =
     bindC (dap_configure_pin P PINS_JTAG) (\<lambda>r.
     bindC (fatal_check (r = 0)) (\<lambda>_.
     bindC (config_pin P TCK_SWCLK [GPIO_INPUT]) (\<lambda>_.
     bindC (config_pin P TMS_SWDIO [GPIO_INPUT]) (\<lambda>_.
     bindC (config_pin P TDO [GPIO_INPUT]) (\<lambda>_.
     bindC (config_pin P TDI [GPIO_INPUT]) (\<lambda>_.
     bindC (config_pin P NRESET [GPIO_INPUT]) (\<lambda>_.
     bindC (modify dap_defaults) (\<lambda>_.
     bindC (hwv P TimerStop) (\<lambda>_.
     bindC (set_pin P LED_CONNECT 0) (\<lambda>_.
     bindC (set_pin P LED_RUNNING 0) (\<lambda>_.
     bindC (hwv P (UartIrqRxDisable UART_SWO)) (\<lambda>_.
     bindC (hwv P (UartIrqErrDisable UART_SWO)) (\<lambda>_.
     bindC (gets swo_baudrate) (\<lambda>baudrate.
     bindC (hw P (UartConfigure UART_SWO baudrate)) (\<lambda>r.
     bindC (fatal_check (0 \<le> r)) (\<lambda>_.
     bindC (on_request (rb_reset P)) (\<lambda>_.
     bindC (on_response (rb_reset P)) (\<lambda>_.
     on_swo (rb_reset P)))))))))))))))))))"

section \<open>Dispatch\<close>

definition dap_dispatch :: "'rb platform \<Rightarrow> product \<Rightarrow> byte \<Rightarrow> ('rb, unit) dap_cmd" where
  "dap_dispatch P cfg command =
     (if command = dap_cmd_info then dap_handle_cmd_info P cfg
      else if command = dap_cmd_host_status then dap_handle_cmd_host_status P
      else if command = dap_cmd_connect then dap_handle_cmd_connect P
      else if command = dap_cmd_disconnect then dap_handle_cmd_disconnect P
      else if command = dap_cmd_transfer_configure then dap_handle_cmd_transfer_configure P
      else if command = dap_cmd_transfer then dap_handle_cmd_transfer P
      else if command = dap_cmd_transfer_block then dap_handle_cmd_transfer_block P
      else if command = dap_cmd_transfer_abort then dap_handle_cmd_transfer_abort P
      else if command = dap_cmd_write_abort then dap_handle_cmd_write_abort P
      else if command = dap_cmd_delay then dap_handle_cmd_delay P
      else if command = dap_cmd_reset_target then dap_handle_cmd_reset_target P
      else if command = dap_cmd_swj_pins then dap_handle_cmd_swj_pins P
      else if command = dap_cmd_swj_clock then dap_handle_cmd_swj_clock P
      else if command = dap_cmd_swj_sequence then dap_handle_cmd_swj_sequence P
      else if command = dap_cmd_swd_configure then dap_handle_cmd_swd_configure P
      else if command = dap_cmd_jtag_sequence then dap_handle_cmd_jtag_sequence P
      else if command = dap_cmd_jtag_configure then dap_handle_cmd_jtag_configure P
      else if command = dap_cmd_jtag_idcode then dap_handle_cmd_jtag_idcode P
      else if command = dap_cmd_swo_transport then dap_handle_cmd_swo_transport P
      else if command = dap_cmd_swo_mode then dap_handle_cmd_swo_mode P
      else if command = dap_cmd_swo_baudrate then dap_handle_cmd_swo_baudrate P
      else if command = dap_cmd_swo_control then dap_handle_cmd_swo_control P
      else if command = dap_cmd_swo_status then dap_handle_cmd_swo_status P
      else if command = dap_cmd_swo_data then dap_handle_cmd_swo_data P
      else if command = dap_cmd_swd_sequence then dap_handle_cmd_swd_sequence P
      else if command = dap_cmd_swo_extended_status then dap_handle_cmd_swo_extended_status P
      else fail ENOTSUP)"

text \<open>
  One round of the loop up to the dispatch: the command to run, the commands left in the chain
  and whether another chain may follow.
\<close>

definition dap_next_command :: "'rb platform \<Rightarrow> byte \<Rightarrow> bool \<Rightarrow> ('rb, byte \<times> byte \<times> bool) dap_cmd" where
  "dap_next_command P num_commands queued =
     (let (num_commands, queued) =
        (if queued \<and> num_commands = 0 then (1, False) else (num_commands, queued)) in
      bindC (get_u8 P) (\<lambda>command.
      let queued = (queued \<or> command = dap_cmd_queue_commands);
          command = (if command = dap_cmd_queue_commands then dap_cmd_execute_commands else command) in
      if command = dap_cmd_execute_commands
      then bindC (get_u8 P) (\<lambda>num_commands.
           bindC (put_bytes P [command]) (\<lambda>_.
           bindC (put_bytes P [num_commands]) (\<lambda>_.
           bindC (get_u8 P) (\<lambda>command.
           ret (command, num_commands, queued)))))
      else ret (command, num_commands, queued)))"

text \<open>The number of commands left is a byte, so a chain of zero commands wraps around to 255.\<close>

fun dap_request_loop :: "'rb platform \<Rightarrow> product \<Rightarrow> nat \<Rightarrow> byte \<Rightarrow> bool \<Rightarrow> ('rb, unit) dap_cmd" where
  "dap_request_loop P cfg 0 num_commands queued = spin"
| "dap_request_loop P cfg (Suc fuel) num_commands queued =
     bindC (dap_next_command P num_commands queued) (\<lambda>(command, num_commands, queued).
     bindC (dap_dispatch P cfg command) (\<lambda>_.
     if 0 < num_commands - 1 \<or> queued
     then dap_request_loop P cfg fuel (num_commands - 1) queued
     else ret ()))"

definition dap_handle_request :: "'rb platform \<Rightarrow> product \<Rightarrow> ('rb, unit) dap_cmd" where
  "dap_handle_request P cfg = dap_request_loop P cfg (p_fuel P) 1 False"

section \<open>The driver thread\<close>

text \<open>
  The configuration round over all transports: \<open>continue\<close> goes on with the next transport, so the
  last one that can be configured is selected.
\<close>

fun dap_configure_transports :: "'rb platform \<Rightarrow> nat list \<Rightarrow> ('rb, unit) dap_cmd" where
  "dap_configure_transports P [] = ret ()"
| "dap_configure_transports P (i # is) =
     bindC (hw P (TransportConfigure i)) (\<lambda>r.
     bindC (whenC (r = 0) (modify (transport_update (\<lambda>_. Some i)))) (\<lambda>_.
     dap_configure_transports P is))"

text \<open>A request is handled and answered; a failed command is answered with a single error byte.\<close>

definition dap_answer :: "'rb platform \<Rightarrow> product \<Rightarrow> nat \<Rightarrow> ('rb, unit) dap_cmd" where
  "dap_answer P cfg tr =
     bindC (on_response (rb_reset P)) (\<lambda>_.
     bindC (attempt (dap_handle_request P cfg)) (\<lambda>failed.
     bindC (whenC failed
       (bindC (on_response (rb_reset P)) (\<lambda>_.
        bindC (on_response (rb_put P [dap_cmd_response_error])) (\<lambda>n. fatal_check (n = 1))))) (\<lambda>_.
     bindC (on_response (rb_get_claim P DAP_RING_BUF_SIZE)) (\<lambda>(response_len, ptr).
     bindC (on_response (rb_load P ptr response_len)) (\<lambda>bs.
     bindC (hw P (TransportSend tr bs)) (\<lambda>r.
     if r < 0 then dap_reset P
     else bindC (on_response (rb_get_finish P (nat r))) (\<lambda>_.
          on_request (rb_reset P))))))))"

text \<open>
  One round of the thread.  The first byte is looked at where the claim of this round points to,
  also when nothing was received.
\<close>

definition dap_serve :: "'rb platform \<Rightarrow> product \<Rightarrow> nat \<Rightarrow> ('rb, unit) dap_cmd" where
  "dap_serve P cfg tr =
     bindC (on_request (rb_put_claim P DAP_MAX_PACKET_SIZE)) (\<lambda>(request_len, ptr).
     bindC (hw_full P (TransportRecv tr request_len)) (\<lambda>(r, bs).
     bindC (on_request (rb_store P ptr bs)) (\<lambda>_.
     if r < 0 then dap_reset P
     else bindC (on_request (rb_put_finish P (nat r))) (\<lambda>_.
          bindC (on_request (rb_load P ptr 1)) (\<lambda>first.
          if first = [dap_cmd_queue_commands] then ret () else dap_answer P cfg tr)))))"

definition dap_thread_round :: "'rb platform \<Rightarrow> product \<Rightarrow> nat \<Rightarrow> ('rb, unit) dap_cmd" where
  "dap_thread_round P cfg n_transports =
     bindC (gets transport) (\<lambda>tr.
     bindC (whenC (tr = None)
       (bindC (dap_configure_transports P [0..<n_transports]) (\<lambda>_. hwv P (SleepMillis 50)))) (\<lambda>_.
     bindC (gets transport) (\<lambda>tr.
     case tr of None \<Rightarrow> ret () | Some i \<Rightarrow> dap_serve P cfg i)))"

section \<open>Initialization\<close>

fun dap_init_transports :: "'rb platform \<Rightarrow> nat list \<Rightarrow> ('rb, unit) dap_cmd" where
  "dap_init_transports P [] = ret ()"
| "dap_init_transports P (i # is) =
     bindC (hw P (TransportInit i)) (\<lambda>r.
     if r < 0 then fail (DriverError r) else dap_init_transports P is)"

text \<open>
  \<open>same_led\<close> says whether the two led pins of the devicetree are one pin; the buffers are given
  initialized in the state.
\<close>

definition dap_init :: "'rb platform \<Rightarrow> bool \<Rightarrow> nat \<Rightarrow> ('rb, unit) dap_cmd" where
  "dap_init P same_led n_transports =
     bindC (modify (led_combined_update (\<lambda>_. same_led))) (\<lambda>_.
     bindC (config_pin P LED_CONNECT [GPIO_OUTPUT_INACTIVE]) (\<lambda>_.
     bindC (config_pin P LED_RUNNING [GPIO_OUTPUT_INACTIVE]) (\<lambda>_.
     bindC (config_pin P VTREF [GPIO_INPUT]) (\<lambda>_.
     bindC (hw P (DeviceReady UART_SWO)) (\<lambda>ready.
     if ready = 0 then fail ENODEV
     else bindC (hwv P (UartIrqRxDisable UART_SWO)) (\<lambda>_.
          bindC (hwv P (UartIrqTxDisable UART_SWO)) (\<lambda>_.
          bindC (on_request (rb_reset P)) (\<lambda>_.
          bindC (on_response (rb_reset P)) (\<lambda>_.
          bindC (on_swo (rb_reset P)) (\<lambda>_.
          bindC (dap_reset P) (\<lambda>_.
          dap_init_transports P [0..<n_transports])))))))))))"

end
