(* ===== verification/Dap_Safety.thy ===== *)
theory Dap_Safety
  imports Dap
begin

text \<open>
  Safety of the debug access port driver: on every platform, whatever the host sends and whatever
  the target and the drivers answer, every handler keeps the invariant of the driver and accesses
  no array out of range; and every handler comes to an end, except the three that wait for the
  platform.
\<close>

section \<open>The ports\<close>

lemma safe_cycles [safe_intros]:
  assumes "\<And>h s. I s \<Longrightarrow> I (s\<lparr>trace := h\<rparr>)"
  shows "safe sp I (jtag_tck_cycle P)" "safe sp I (jtag_tdi_cycle P b)" "safe sp I (jtag_tdo_cycle P)"
    "safe sp I (jtag_tdio_cycle P b)" "safe sp I (swd_read_cycle P)" "safe sp I (swd_write_cycle P b)"
    "safe sp I (swd_swclk_cycle P)"
  unfolding jtag_tck_cycle_def jtag_tdi_cycle_def jtag_tdo_cycle_def jtag_tdio_cycle_def
    swd_read_cycle_def swd_write_cycle_def swd_swclk_cycle_def
  by (rule safe_intros assms | assumption)+

lemma safe_shift [safe_intros]:
  assumes "\<And>h s. I s \<Longrightarrow> I (s\<lparr>trace := h\<rparr>)"
  shows "safe sp I (jtag_shift_out P n x)" "safe sp I (jtag_shift_in P i n y)"
    "safe sp I (jtag_sequence_bits P n b c)" "safe sp I (swd_read_bits P n b)"
    "safe sp I (swd_write_bits P n b)" "safe sp I (swd_read_data P i n x y)"
    "safe sp I (swd_write_data P n x y)"
proof -
  show "safe sp I (jtag_shift_out P n x)"
    by (induction n arbitrary: x) (simp_all, (rule safe_intros assms | assumption)+)
  show "safe sp I (jtag_shift_in P i n y)"
    by (induction n arbitrary: i y) (simp_all, (rule safe_intros assms | assumption)+)
  show "safe sp I (jtag_sequence_bits P n b c)"
    by (induction n arbitrary: b c) (simp_all, (rule safe_intros assms | assumption)+)
  show "safe sp I (swd_read_bits P n b)"
    by (induction n arbitrary: b) (simp_all, (rule safe_intros assms | assumption)+)
  show "safe sp I (swd_write_bits P n b)"
    by (induction n arbitrary: b) (simp_all, (rule safe_intros assms | assumption)+)
  show "safe sp I (swd_read_data P i n x y)"
    by (induction n arbitrary: i x y) (simp_all, (rule safe_intros assms | assumption)+)
  show "safe sp I (swd_write_data P n x y)"
    by (induction n arbitrary: x y) (simp_all, (rule safe_intros assms | assumption)+)
qed

lemma dap_inv_arrays:
  assumes "dap_inv s"
  shows "unat (jtag_index s) < 4" "length (jtag_ir_before s) = 4" "length (jtag_ir_length s) = 4"
    "length (jtag_ir_after s) = 4" "unat (swd_turnaround_cycles s) + 33 \<le> 255"
  using assms by (simp_all add: dap_inv_def dap_consts)

lemma safe_jtag_set_ir [safe_intros]: "safe sp dap_inv (jtag_set_ir P ir)"
  unfolding jtag_set_ir_def
  by (rule safe_bind_gets safe_intros | simp add: dap_inv_arrays)+

lemma safe_jtag_transfer [safe_intros]: "safe sp dap_inv (jtag_transfer P req d)"
  unfolding jtag_transfer_def jtag_transfer_read_def jtag_transfer_write_def
  by (rule safe_intros | simp)+

lemma safe_swd_transfer [safe_intros]: "safe sp dap_inv (swd_transfer P req d)"
proof -
  have other: "safe sp dap_inv (swd_transfer_other P ack d)" for ack
    unfolding swd_transfer_other_def
    by (rule safe_bind_gets safe_intros | simp add: dap_inv_arrays)+
  have ok: "safe sp dap_inv (swd_transfer_ok P req ack d)" for ack
    unfolding swd_transfer_ok_def by (rule safe_intros | simp)+
  have retry: "safe sp dap_inv (swd_transfer_retry P req ack d)" for ack
    unfolding swd_transfer_retry_def by (rule safe_intros | simp)+
  have reqs: "safe sp dap_inv (swd_request P req)"
    unfolding swd_request_def by (rule safe_intros | simp)+
  show ?thesis
    unfolding swd_transfer_def
    by (rule safe_intros other ok retry reqs | simp)+
qed

lemma safe_port_transfer [safe_intros]: "safe sp dap_inv (port_transfer P req d)"
proof -
  have "safe sp dap_inv (port_transfer_loop P n req ack d)" for n ack d
    by (induction n arbitrary: ack d) (simp_all, (rule safe_intros | simp)+)
  then show ?thesis
    unfolding port_transfer_def by (intro safe_intros)
qed

lemma safe_port_set_ir [safe_intros]: "safe sp dap_inv (port_set_ir P l ir)"
  unfolding port_set_ir_def by (rule safe_intros | simp)+


section \<open>The handlers\<close>

lemma turnaround_bounds:
  "1 \<le> unat ((x AND 3) + 1 :: byte)" "unat ((x AND 3) + 1 :: byte) \<le> 4"
proof -
  have "x AND 3 = take_bit 2 x"
    by (simp add: take_bit_eq_mask mask_eq_exp_minus_1)
  then have "unat (x AND 3) < 4"
    by (simp add: take_bit_eq_mod unat_mod)
  moreover from this have "unat ((x AND 3) + 1) = unat (x AND 3) + 1"
    by (simp add: unat_word_ariths)
  ultimately show "1 \<le> unat ((x AND 3) + 1 :: byte)" "unat ((x AND 3) + 1 :: byte) \<le> 4"
    by simp_all
qed

lemma dap_inv_sets:
  "dap_inv s \<Longrightarrow> dap_inv (s\<lparr>swo_capture := False, swo_error := b\<rparr>)"
  "dap_inv s \<Longrightarrow> \<not> swo_capture s \<Longrightarrow> port \<in> {0, 1, 2} \<Longrightarrow> dap_inv (s\<lparr>swj_port := port\<rparr>)"
  "dap_inv s \<Longrightarrow> \<not> swo_capture s \<Longrightarrow> dap_inv (s\<lparr>swo_mode := m\<rparr>)"
  "dap_inv s \<Longrightarrow> swj_port s = dap_port_swd \<Longrightarrow> swo_mode s = 1 \<Longrightarrow>
   dap_inv (s\<lparr>swo_capture := True, swo_overrun := b\<rparr>)"
  "dap_inv s \<Longrightarrow> clock \<noteq> 0 \<Longrightarrow>
   dap_inv (s\<lparr>swj_clock := clock, swj_delay_ns := 1000000000 div clock div 2\<rparr>)"
  "dap_inv s \<Longrightarrow> dap_inv (s\<lparr>swd_turnaround_cycles := (x AND 3) + 1\<rparr>)"
  "dap_inv (s\<lparr>swd_data_phase := b\<rparr>) = dap_inv s"
  "dap_inv s \<Longrightarrow> unat i < 4 \<Longrightarrow> dap_inv (s\<lparr>jtag_index := i\<rparr>)"
  "dap_inv s \<Longrightarrow> unat i \<le> 4 \<Longrightarrow> dap_inv (s\<lparr>jtag_count := i\<rparr>)"
  "dap_inv s \<Longrightarrow> dap_inv (jtag_ir_length_update (\<lambda>xs. xs[n := l]) s)"
  "dap_inv s \<Longrightarrow> dap_inv (jtag_ir_before_update (\<lambda>xs. xs[n := v]) s)"
  "dap_inv s \<Longrightarrow> dap_inv (jtag_ir_after_update (\<lambda>xs. xs[n := v]) s)"
  using turnaround_bounds [of x] by (auto simp: dap_inv_def dap_consts word_less_nat_alt)

lemma dap_inv_index:
  "dap_inv u \<Longrightarrow> \<not> jtag_count u \<le> i \<Longrightarrow> dap_inv s \<Longrightarrow> dap_inv (s\<lparr>jtag_index := i\<rparr>)"
  by (rule dap_inv_sets(8)) (simp_all add: dap_inv_def dap_consts not_le word_less_nat_alt)

lemma safe_jtag_configure [safe_intros]: "safe sp dap_inv (dap_handle_cmd_jtag_configure P)"
proof -
  have lengths: "safe sp dap_inv (jtag_configure_lengths P i n a)" if "i + n \<le> 4" for i n a
    using that
    by (induction n arbitrary: i a)
       (simp_all, (rule safe_intros | simp add: dap_inv_sets dap_inv_arrays)+)
  have after: "safe sp dap_inv (jtag_configure_after i n a)" if "i + n \<le> 4" for i n a
    using that
    by (induction n arbitrary: i a)
       (simp_all, (rule safe_bind_gets safe_intros | simp add: dap_inv_sets dap_inv_arrays)+)
  show ?thesis
    unfolding dap_handle_cmd_jtag_configure_def drain_request_def
    by (rule safe_intros lengths after | simp add: DAP_JTAG_MAX_DEVICE_COUNT_def dap_inv_sets)+
qed

lemma safe_jtag_sequence [safe_intros]: "safe sp dap_inv (dap_handle_cmd_jtag_sequence P)"
proof -
  have bytes: "safe sp dap_inv (jtag_sequence_bytes P info n)" for info n
    by (induction n rule: less_induct, subst jtag_sequence_bytes.simps)
       (rule safe_intros | simp)+
  have skip: "safe sp dap_inv (jtag_sequence_skip P n)" for n
    by (induction n rule: less_induct, subst jtag_sequence_skip.simps)
       (rule safe_intros | simp)+
  have loop: "safe sp dap_inv (jtag_sequence_loop P n status)" for n status
    by (induction n arbitrary: status) (simp_all, (rule safe_intros bytes skip | simp)+)
  show ?thesis
    unfolding dap_handle_cmd_jtag_sequence_def by (rule safe_intros loop | simp)+
qed

lemma safe_jtag_idcode [safe_intros]: "safe sp dap_inv (dap_handle_cmd_jtag_idcode P)"
proof -
  have "safe sp dap_inv (jtag_read_idcode P)"
    unfolding jtag_read_idcode_def by (rule safe_intros | simp)+
  note this [safe_intros]
  show ?thesis
    unfolding dap_handle_cmd_jtag_idcode_def
    by (rule safe_bind_gets safe_intros | simp | rule dap_inv_index, assumption)+
qed

lemma safe_swd_handlers [safe_intros]:
  "safe sp dap_inv (dap_handle_cmd_swd_configure P)" "safe sp dap_inv (dap_handle_cmd_swd_sequence P)"
proof -
  show "safe sp dap_inv (dap_handle_cmd_swd_configure P)"
    unfolding dap_handle_cmd_swd_configure_def by (rule safe_intros | simp add: dap_inv_sets)+
  have reads: "safe sp dap_inv (swd_read_bytes P n)" for n
    by (induction n rule: less_induct, subst swd_read_bytes.simps) (rule safe_intros | simp)+
  have writes: "safe sp dap_inv (swd_write_bytes P n)" for n
    by (induction n rule: less_induct, subst swd_write_bytes.simps) (rule safe_intros | simp)+
  have skip: "safe sp dap_inv (swd_sequence_skip P info)" for info
    unfolding swd_sequence_skip_def by (rule safe_intros | simp)+
  have loop: "safe sp dap_inv (swd_sequence_loop P n status)" for n status
    by (induction n arbitrary: status) (simp_all, (rule safe_intros reads writes skip | simp)+)
  show "safe sp dap_inv (dap_handle_cmd_swd_sequence P)"
    unfolding dap_handle_cmd_swd_sequence_def by (rule safe_intros loop | simp)+
qed

lemma safe_transfer_helpers [safe_intros]:
  "safe sp dap_inv (put_later_two P n k)" "safe sp dap_inv (put_request_le32 P v)"
  "safe sp dap_inv (transfer_set_ir P ir x)" "safe sp dap_inv (transfer_port P req x)"
  "safe sp dap_inv (block_cancel P n)"
  unfolding put_later_two_def put_request_le32_def transfer_set_ir_def transfer_port_def block_cancel_def
  by (rule safe_intros | simp)+

lemma safe_transfer_select [safe_intros]: "safe sp dap_inv (transfer_select P index)"
  unfolding transfer_select_def
  by (rule safe_bind_gets safe_intros | simp | rule dap_inv_index, assumption)+

lemma safe_transfer [safe_intros]: "safe sp dap_inv (dap_handle_cmd_transfer P)"
proof -
  have m: "safe sp dap_inv (transfer_match_loop P n req v x)" for n req v x
    by (induction n arbitrary: x) (simp_all, (rule safe_intros | simp)+)
  have match: "safe sp dap_inv (transfer_read_match P req x)" for req x
    unfolding transfer_read_match_def by (rule safe_intros m | simp only: Let_def)+
  have read: "safe sp dap_inv (transfer_read P req x)" for req x
    unfolding transfer_read_def by (rule safe_intros | simp)+
  have writes: "safe sp dap_inv (transfer_write P req x)" for req x
    unfolding transfer_write_def by (rule safe_intros | simp)+
  have operand: "safe sp dap_inv (transfer_operand P req x)" for req x
    unfolding transfer_operand_def by (rule safe_intros | simp)+
  have posted: "safe sp dap_inv (transfer_posted P x)" for x
    unfolding transfer_posted_def by (rule safe_intros | simp)+
  have loop: "safe sp dap_inv (transfer_loop P n x)" for n x
    by (induction n arbitrary: x)
       (simp_all, (rule safe_intros match read writes operand posted | simp)+)
  have cancel: "safe sp dap_inv (transfer_cancel P n)" for n
    by (induction n) (simp_all, (rule safe_intros | simp)+)
  have final: "safe sp dap_inv (transfer_final P ptr x)" for ptr x
    unfolding transfer_final_def by (rule safe_intros | simp)+
  show ?thesis
    unfolding dap_handle_cmd_transfer_def by (rule safe_intros loop cancel final | simp)+
qed

lemma safe_transfer_block [safe_intros]: "safe sp dap_inv (dap_handle_cmd_transfer_block P)"
proof -
  have read: "safe sp dap_inv (block_read P n req ir d ack c)" for n req ir d ack c
    by (induction n arbitrary: req ir d ack c) (simp_all, (rule safe_intros | simp)+)
  have wloop: "safe sp dap_inv (block_write_loop P n req d ack c)" for n req d ack c
    by (induction n arbitrary: req d ack c) (simp_all, (rule safe_intros | simp)+)
  have run: "safe sp dap_inv (block_run P n req)" for n req
    unfolding block_run_def block_write_def by (rule safe_intros read wloop)+
  show ?thesis
    unfolding dap_handle_cmd_transfer_block_def by (rule safe_intros run | simp)+
qed

lemma safe_transfer_others [safe_intros]:
  "safe sp dap_inv (dap_handle_cmd_transfer_configure P)"
  "safe sp dap_inv (dap_handle_cmd_transfer_abort P)" "safe sp dap_inv (dap_handle_cmd_write_abort P)"
  unfolding dap_handle_cmd_transfer_configure_def dap_handle_cmd_transfer_abort_def
    dap_handle_cmd_write_abort_def
  by (rule safe_intros | simp)+

text \<open>Switching the capture off makes room for another port or mode.\<close>

definition dap_inv_idle :: "'rb dap_driver \<Rightarrow> bool" where
  "dap_inv_idle s \<longleftrightarrow> dap_inv s \<and> \<not> swo_capture s"

lemma capture_off:
  "dap_inv s \<Longrightarrow> dap_inv_idle (snd (swo_capture_control P False s))
     \<and> fst (swo_capture_control P False s) \<noteq> Fault
     \<and> (sp \<or> fst (swo_capture_control P False s) \<noteq> Spin)"
  by (auto simp: swo_capture_control_def dap_inv_idle_def hwv_def hw_full_def bindC_def ret_def
      modify_def dap_inv_def)

lemma dap_inv_idle_sets:
  "dap_inv_idle (s\<lparr>trace := h\<rparr>) = dap_inv_idle s" "dap_inv_idle (s\<lparr>request := r\<rparr>) = dap_inv_idle s"
  "dap_inv_idle (s\<lparr>response := r\<rparr>) = dap_inv_idle s"
  "dap_inv_idle s \<Longrightarrow> port \<in> {0, 1, 2} \<Longrightarrow> dap_inv_idle (s\<lparr>swj_port := port\<rparr>)"
  "dap_inv_idle s \<Longrightarrow> dap_inv_idle (s\<lparr>swo_mode := m\<rparr>)"
  by (auto simp: dap_inv_idle_def dap_inv_sets)

lemma safe_capture_off [safe_intros]: "safe sp dap_inv (swo_capture_control P False)"
  using capture_off by (auto simp: safe_def dap_inv_idle_def)

lemma safe_connect [safe_intros]:
  "safe sp dap_inv (connect_swd P)" "safe sp dap_inv (connect_jtag P)"
  "safe sp dap_inv (dap_handle_cmd_connect P)" "safe sp dap_inv (dap_handle_cmd_disconnect P)"
proof -
  show swd: "safe sp dap_inv (connect_swd P)"
    unfolding connect_swd_def
    by (rule safe_bind_to [where J = dap_inv_idle, OF capture_off], assumption)
       (simp add: dap_inv_idle_def, (rule safe_intros | simp add: dap_inv_idle_sets dap_consts)+)
  show jtag: "safe sp dap_inv (connect_jtag P)"
    unfolding connect_jtag_def
    by (rule safe_bind_to [where J = dap_inv_idle, OF capture_off], assumption)
       (simp add: dap_inv_idle_def, (rule safe_intros | simp add: dap_inv_idle_sets dap_consts)+)
  show "safe sp dap_inv (dap_handle_cmd_connect P)"
    unfolding dap_handle_cmd_connect_def by (rule safe_intros swd jtag | simp)+
  show "safe sp dap_inv (dap_handle_cmd_disconnect P)"
    unfolding dap_handle_cmd_disconnect_def
    by (rule safe_bind_to [where J = dap_inv_idle, OF capture_off], assumption)
       (simp add: dap_inv_idle_def, (rule safe_intros | simp add: dap_inv_idle_sets dap_consts)+)
qed

lemma capture_off_mode:
  "dap_inv s \<Longrightarrow> dap_inv_idle (snd (bindC (gets swo_mode) (\<lambda>old.
       whenC (old = swo_mode_uart) (swo_capture_control P False)) s))
     \<and> fst (bindC (gets swo_mode) (\<lambda>old.
       whenC (old = swo_mode_uart) (swo_capture_control P False)) s) \<noteq> Fault
     \<and> (sp \<or> fst (bindC (gets swo_mode) (\<lambda>old.
       whenC (old = swo_mode_uart) (swo_capture_control P False)) s) \<noteq> Spin)"
  using capture_off [of s P sp]
  by (cases "swo_mode s = swo_mode_uart")
     (auto simp: bindC_def gets_def dap_inv_idle_def ret_def swo_mode_uart_def dap_inv_def)

lemma safe_swo_mode [safe_intros]: "safe sp dap_inv (dap_handle_cmd_swo_mode P)"
proof -
  have "safe sp dap_inv (bindC (gets swo_mode) (\<lambda>old.
      bindC (whenC (old = swo_mode_uart) (swo_capture_control P False)) (\<lambda>_.
      bindC (modify (swo_mode_update (\<lambda>_. mode))) (\<lambda>_. ret dap_cmd_response_ok))))" for mode
    unfolding bindC_assoc [symmetric, of "gets swo_mode"]
    by (rule safe_bind_to [where J = dap_inv_idle, OF capture_off_mode], assumption)
       (simp add: dap_inv_idle_def, (rule safe_intros | simp add: dap_inv_idle_sets)+)
  note switch = this
  show ?thesis
    unfolding dap_handle_cmd_swo_mode_def by (rule switch safe_intros | (simp; fail))+
qed

lemma safe_swo_control [safe_intros]: "safe sp dap_inv (dap_handle_cmd_swo_control P)"
proof -
  have on: "dap_inv (snd (swo_capture_control P True s)) \<and> fst (swo_capture_control P True s) = Ok ()"
    if "dap_inv s" "swj_port s = dap_port_swd" "swo_mode s = swo_mode_uart" for s
    using that
    by (auto simp: swo_capture_control_def hwv_def hw_full_def bindC_def ret_def modify_def
        on_swo_def rb_reset_def dap_inv_def swo_mode_uart_def)
  have "safe sp dap_inv (bindC (bindC (gets swj_port) (\<lambda>port. bindC (gets swo_mode) (\<lambda>mode.
      if port \<noteq> dap_port_swd \<or> (control = 1 \<and> mode \<noteq> swo_mode_uart) then ret dap_cmd_response_error
      else bindC (swo_capture_control P (control = 1)) (\<lambda>_. ret dap_cmd_response_ok)))) k)"
    if k: "\<And>a. safe sp dap_inv (k a)" for control :: byte and k :: "byte \<Rightarrow> ('a, unit) dap_cmd"
  proof (rule safe_bindC [OF _ k], rule safeI)
    fix s :: "'a dap_driver" assume "dap_inv s"
    then show "dap_inv (snd (bindC (gets swj_port) (\<lambda>port. bindC (gets swo_mode) (\<lambda>mode.
          if port \<noteq> dap_port_swd \<or> (control = 1 \<and> mode \<noteq> swo_mode_uart) then ret dap_cmd_response_error
          else bindC (swo_capture_control P (control = 1)) (\<lambda>_. ret dap_cmd_response_ok))) s))
      \<and> fst (bindC (gets swj_port) (\<lambda>port. bindC (gets swo_mode) (\<lambda>mode.
          if port \<noteq> dap_port_swd \<or> (control = 1 \<and> mode \<noteq> swo_mode_uart) then ret dap_cmd_response_error
          else bindC (swo_capture_control P (control = 1)) (\<lambda>_. ret dap_cmd_response_ok))) s) \<noteq> Fault
      \<and> (sp \<or> fst (bindC (gets swj_port) (\<lambda>port. bindC (gets swo_mode) (\<lambda>mode.
          if port \<noteq> dap_port_swd \<or> (control = 1 \<and> mode \<noteq> swo_mode_uart) then ret dap_cmd_response_error
          else bindC (swo_capture_control P (control = 1)) (\<lambda>_. ret dap_cmd_response_ok))) s) \<noteq> Spin)"
      using on [of s] capture_off [of s P sp]
      by (cases "control = 1"; cases "swo_capture_control P (control = 1) s")
         (auto simp: bindC_def gets_def ret_def dap_inv_idle_def split: outcome.splits)
  qed
  then show ?thesis
    unfolding dap_handle_cmd_swo_control_def
    by (intro safe_bindC [OF safe_get_put(2)]) (simp_all add: bindC_assoc safe_intros)
qed

lemma safe_swo_others [safe_intros]:
  "safe sp dap_inv (dap_handle_cmd_swo_transport P)" "safe sp dap_inv (dap_handle_cmd_swo_baudrate P)"
  "safe sp dap_inv (dap_handle_cmd_swo_status P)"
  "safe sp dap_inv (dap_handle_cmd_swo_extended_status P)"
  unfolding dap_handle_cmd_swo_transport_def dap_handle_cmd_swo_baudrate_def
    dap_handle_cmd_swo_status_def dap_handle_cmd_swo_extended_status_def
  by (rule safe_intros | simp)+

lemma safe_swo_data [safe_intros]: "safe True dap_inv (dap_handle_cmd_swo_data P)"
proof -
  have "safe True dap_inv (swo_data_loop P n m c)" for n m c
    by (induction n arbitrary: c) (simp_all only: swo_data_loop.simps, (rule safe_intros | simp)+)
  then show ?thesis
    unfolding dap_handle_cmd_swo_data_def by (intro safe_intros) simp_all
qed

lemma safe_info [safe_intros]: "safe sp dap_inv (dap_handle_cmd_info P cfg)"
proof -
  have str: "safe sp dap_inv (info_put_str P n str)" for n str
    unfolding info_put_str_def Let_def by (rule safe_intros | simp)+
  have "safe sp dap_inv (info_serial P cfg)"
    unfolding info_serial_def Let_def by (simp split: outcome.split add: str)
  then show ?thesis
    unfolding dap_handle_cmd_info_def by - (rule safe_intros str | simp)+
qed

lemma safe_general [safe_intros]:
  "safe sp dap_inv (dap_handle_cmd_host_status P)" "safe sp dap_inv (dap_handle_cmd_delay P)"
  "safe sp dap_inv (dap_handle_cmd_reset_target P)" "safe sp dap_inv (dap_handle_cmd_swj_clock P)"
  unfolding dap_handle_cmd_host_status_def dap_handle_cmd_delay_def dap_handle_cmd_reset_target_def
    dap_handle_cmd_swj_clock_def
  by (rule safe_intros | simp add: dap_inv_sets)+

lemma safe_swj_pins [safe_intros]: "safe True dap_inv (dap_handle_cmd_swj_pins P)"
proof -
  have "safe True dap_inv (swj_wait_nreset P n x)" for n x
    by (induction n) (simp_all, (rule safe_intros | simp)+)
  note this [safe_intros]
  show ?thesis
    unfolding dap_handle_cmd_swj_pins_def swj_set_pin_def swj_get_pin_def swj_pin_input_def
    by (rule safe_intros | (simp; fail))+
qed

lemma safe_swj_sequence [safe_intros]: "safe sp dap_inv (dap_handle_cmd_swj_sequence P)"
proof -
  have "safe sp dap_inv (swj_sequence_loop P i n x)" for i n x
    by (induction n arbitrary: i x)
       (simp_all only: swj_sequence_loop.simps, (rule safe_intros | assumption | (simp; fail))+)
  then show ?thesis
    unfolding dap_handle_cmd_swj_sequence_def by (intro safe_intros) simp_all
qed

section \<open>The driver\<close>

lemma safe_dispatch:
  "sp \<or> command \<noteq> dap_cmd_swj_pins \<and> command \<noteq> dap_cmd_swo_data \<Longrightarrow>
   safe sp dap_inv (dap_dispatch P cfg command)"
  unfolding dap_dispatch_def
  by (cases sp) (simp_all only: if_split_eq1 simp_thms, (rule safe_intros impI conjI | (simp; fail))+)

lemma safe_request [safe_intros]: "safe True dap_inv (dap_handle_request P cfg)"
proof -
  have "safe True dap_inv (dap_next_command P n q)" for n q
    unfolding dap_next_command_def Let_def by (rule safe_intros | (simp; fail))+
  note this [safe_intros]
  have "safe True dap_inv (dap_request_loop P cfg fuel n q)" for fuel n q
    by (induction fuel arbitrary: n q)
       (simp_all only: dap_request_loop.simps,
        (rule safe_intros safe_dispatch | assumption | (simp; fail))+)
  then show ?thesis
    by (simp add: dap_handle_request_def)
qed

lemma dap_inv_defaults: "dap_inv (dap_defaults s)"
  by (simp add: dap_inv_def dap_defaults_def dap_consts)

lemma safe_reset [safe_intros]: "safe sp dap_inv (dap_reset P)"
  unfolding dap_reset_def by (rule safe_intros | (simp add: dap_inv_defaults; fail))+

lemma safe_isr [safe_intros]: "safe True dap_inv (swo_uart_isr P)"
proof -
  have overrun: "dap_inv (s\<lparr>swo_overrun := b\<rparr>) = dap_inv s" for s :: "'a dap_driver" and b
    by (simp add: dap_inv_def)
  have drop: "safe True dap_inv (uart_drop P UART_SWO n)" for n
    by (induction n) (simp_all only: uart_drop.simps, (rule safe_intros | assumption | (simp; fail))+)
  have "safe True dap_inv (swo_uart_loop P n)" for n
    by (induction n) (simp_all only: swo_uart_loop.simps,
      (rule safe_intros drop | assumption | (simp add: overrun; fail))+)
  then show ?thesis
    unfolding swo_uart_isr_def by (intro safe_intros) simp_all
qed

lemma safe_timer [safe_intros]: "safe sp dap_inv (handle_running_led_timer P)"
  unfolding handle_running_led_timer_def by (rule safe_intros | (simp; fail))+

lemma safe_round [safe_intros]: "safe True dap_inv (dap_thread_round P cfg n)"
proof -
  have conf: "safe True dap_inv (dap_configure_transports P is)" for "is"
    by (induction "is") (simp_all only: dap_configure_transports.simps,
      (rule safe_intros | assumption | (simp; fail))+)
  have answer: "safe True dap_inv (dap_answer P cfg tr)" for tr
    unfolding dap_answer_def by (rule safe_intros | (simp; fail))+
  have serve: "safe True dap_inv (dap_serve P cfg tr)" for tr
    unfolding dap_serve_def by (rule safe_intros answer | (simp; fail))+
  show ?thesis
    unfolding dap_thread_round_def by (rule safe_intros conf serve | (simp; fail))+
qed

text \<open>A command that establishes the invariant when it returns, whatever the state was.\<close>

definition sets :: "('s \<Rightarrow> bool) \<Rightarrow> ('s, 'a) cmd \<Rightarrow> bool" where
  "sets I m \<longleftrightarrow> (\<forall>s a t. m s = (Ok a, t) \<longrightarrow> I t)"

lemma sets_bindC: "(\<And>a. sets I (k a)) \<Longrightarrow> sets I (bindC m k)"
  by (force simp: sets_def bindC_Ok_iff)

lemma sets_if: "sets I m \<Longrightarrow> sets I n \<Longrightarrow> sets I (if b then m else n)"
  by simp

lemma sets_fail: "sets I (fail e)"
  by (simp add: sets_def)

lemma sets_then:
  assumes "sets I m" "\<And>a. safe True I (k a)"
  shows "sets I (bindC m k)"
  unfolding sets_def bindC_Ok_iff
proof (intro allI impI, elim exE conjE)
  fix s a t b u assume "m s = (Ok b, u)" "k b u = (Ok a, t)"
  then show "I t" using assms safeD(1) [OF assms(2), of u b] by (force simp: sets_def)
qed

lemma sets_dap_reset: "sets dap_inv (dap_reset P)"
  unfolding dap_reset_def
  apply (rule sets_bindC, rule sets_bindC, rule sets_bindC, rule sets_bindC, rule sets_bindC,
    rule sets_bindC, rule sets_bindC, rule sets_then)
   apply (simp add: sets_def dap_inv_defaults)
  apply (rule safe_intros | (simp; fail))+
  done

lemma sets_dap_init: "sets dap_inv (dap_init P same_led n)"
proof -
  have transports: "safe True dap_inv (dap_init_transports P is)" for "is"
    by (induction "is") (simp_all only: dap_init_transports.simps,
      (rule safe_intros | assumption | (simp; fail))+)
  have "sets dap_inv (bindC (dap_reset P) (\<lambda>_. dap_init_transports P [0..<n]))"
    by (rule sets_then [OF sets_dap_reset transports])
  then show ?thesis
    unfolding dap_init_def by - (rule sets_if sets_fail | assumption | rule sets_bindC)+
qed

section \<open>Properties\<close>

text \<open>
  The life of the driver: after a successful initialization, rounds of the thread, receive
  interrupts of the SWO port and ticks of the running led timer, in any order.
\<close>

inductive dap_reachable :: "'rb platform \<Rightarrow> product \<Rightarrow> bool \<Rightarrow> nat \<Rightarrow> 'rb dap_driver \<Rightarrow> bool"
  for P cfg same_led n where
  init: "dap_init P same_led n s = (Ok (), t) \<Longrightarrow> dap_reachable P cfg same_led n t"
| round: "dap_reachable P cfg same_led n s \<Longrightarrow> dap_thread_round P cfg n s = (Ok (), t) \<Longrightarrow>
    dap_reachable P cfg same_led n t"
| isr: "dap_reachable P cfg same_led n s \<Longrightarrow> swo_uart_isr P s = (Ok (), t) \<Longrightarrow>
    dap_reachable P cfg same_led n t"
| tick: "dap_reachable P cfg same_led n s \<Longrightarrow> handle_running_led_timer P s = (Ok (), t) \<Longrightarrow>
    dap_reachable P cfg same_led n t"

inductive_cases dap_reachableE: "dap_reachable P cfg same_led n s"

text \<open>
  C1: in every state the driver can get into, the invariant holds (the port is one of three, the
  chain tables are indexed inside their arrays, the half period belongs to the clock, the
  turnaround is one to four cycles, trace capture runs only in UART mode on an SWD port), and the
  next round of the thread and the next receive interrupt access no array out of range, whatever
  bytes the host sends and whatever the target and the drivers answer.
\<close>

theorem dap_driver_safe:
  assumes "dap_reachable P cfg same_led n s"
  shows "dap_inv s \<and> fst (dap_thread_round P cfg n s) \<noteq> Fault \<and> fst (swo_uart_isr P s) \<noteq> Fault"
proof -
  have "dap_inv s"
    using assms
  proof induction
    case (init s t)
    then show ?case using sets_dap_init by (force simp: sets_def)
  next
    case (round s t)
    then show ?case using safeD(1) [OF safe_round, of s P cfg n] by simp
  next
    case (isr s t)
    then show ?case using safeD(1) [OF safe_isr, of s P] by simp
  next
    case (tick s t)
    then show ?case using safeD(1) [OF safe_timer [where P = P and sp = True], of s] by simp
  qed
  then show ?thesis using safeD(2) [OF safe_round] safeD(2) [OF safe_isr] by blast
qed

text \<open>A platform on which every call succeeds.\<close>

definition quiet_platform :: "aring platform" where
  "quiet_platform = array_platform (\<lambda>_ c. case c of DeviceReady _ \<Rightarrow> (1, []) | _ \<Rightarrow> (0, [])) 8"

lemma dap_driver_safe_witness:
  "\<exists>s. dap_init quiet_platform False 1 (dap_sample 1 (a_new 16)) = (Ok (), s) \<and> dap_inv s
    \<and> fst (dap_thread_round quiet_platform product0 1 s) \<noteq> Fault \<and> fst (swo_uart_isr quiet_platform s) \<noteq> Fault"
proof -
  let ?r = "dap_init quiet_platform False 1 (dap_sample 1 (a_new 16))"
  have "fst ?r = Ok ()"
    by (simp add: dap_init_def dap_reset_def dap_configure_pin_def config_pin_def set_pin_def
        hw_def hwv_def hw_full_def on_request_def on_response_def on_swo_def rb_reset_def
        bindC_def ret_def modify_def gets_def quiet_platform_def array_platform_def)
  then have r: "?r = (Ok (), snd ?r)" by (metis prod.collapse)
  show ?thesis
    by (rule exI [of _ "snd ?r"], rule conjI, rule r, rule dap_driver_safe [OF dap_reachable.init, OF r])
qed

text \<open>
  C5: every command except the two that wait for the platform (\<open>swj_pins\<close> for a timeout,
  \<open>swo_data\<close> for the ring buffers to run empty) comes to an end on every platform, in particular
  transfers however often the target answers WAIT, and never leaves the arrays of the driver.
\<close>

theorem dap_command_ends:
  assumes "dap_inv s" "command \<noteq> dap_cmd_swj_pins" "command \<noteq> dap_cmd_swo_data"
  shows "fst (dap_dispatch P cfg command s) \<notin> {Spin, Fault} \<and> dap_inv (snd (dap_dispatch P cfg command s))"
  using safeD [OF safe_dispatch [of False], of command s P cfg] assms by simp

lemma dap_command_ends_witness:
  "fst (dap_dispatch quiet_platform product0 0x06 (dap_sample 2 (a_of [0, 2, 0, 3]))) \<notin> {Spin, Fault}
    \<and> dap_inv (snd (dap_dispatch quiet_platform product0 0x06 (dap_sample 2 (a_of [0, 2, 0, 3]))))"
  by (rule dap_command_ends) (simp_all add: dap_cmd_ids)

end
