(* ===== verification/Swo_Trace.thy ===== *)
theory Swo_Trace
  imports Dap_Safety
begin

text \<open>
  The path of the trace data: from the receive interrupt through the trace ring buffer to the
  answer of \<open>swo_data\<close>.  Bytes come out in the order in which they went in, whatever the position
  of the ring buffer is, and none is lost or duplicated.
\<close>

context ring_buffer
begin

text \<open>One claim on the trace buffer: the bytes up to the end of the backing array.\<close>

lemma trace_claim:
  assumes "ok r" "r_idle (view r)" "ds = r_data (view r)"
    "n = min m (min (length ds) (r_cap (view r) - r_pos (view r)))"
  shows "rb_get_claim P m r = (Ok (n, r_pos (view r)), snd (p_get_claim P r m))"
    "k \<le> n \<Longrightarrow> rb_load P (r_pos (view r)) k (snd (p_get_claim P r m)) = (Ok (take k ds), snd (p_get_claim P r m))"
    "k \<le> n \<Longrightarrow> \<exists>r2. rb_get_finish P k (snd (p_get_claim P r m)) = (Ok 0, r2) \<and> ok r2 \<and> r_idle (view r2)
       \<and> r_data (view r2) = drop k ds \<and> r_cap (view r2) = r_cap (view r)
       \<and> r_pos (view r2) = (r_pos (view r) + k) mod r_cap (view r)"
proof -
  have idle: "r_got (view r) = 0" using assms(2) by (simp add: r_idle_def)
  note a = get_round [OF assms(1) idle assms(3) refl assms(4)]
  show "rb_get_claim P m r = (Ok (n, r_pos (view r)), snd (p_get_claim P r m))" by (rule a(1))
  assume k: "k \<le> n"
  show "rb_load P (r_pos (view r)) k (snd (p_get_claim P r m)) = (Ok (take k ds), snd (p_get_claim P r m))"
    by (rule a(4) [OF k])
  show "\<exists>r2. rb_get_finish P k (snd (p_get_claim P r m)) = (Ok 0, r2) \<and> ok r2 \<and> r_idle (view r2)
       \<and> r_data (view r2) = drop k ds \<and> r_cap (view r2) = r_cap (view r)
       \<and> r_pos (view r2) = (r_pos (view r) + k) mod r_cap (view r)"
    using a(5) [OF k] assms(2) by (auto simp: r_idle_def)
qed

text \<open>The room of a response that is filled from its start.\<close>

lemma fills_claim_room:
  assumes "rb_fills view ok c r bs" "k = min n (c - length bs)"
  shows "rb_put_claim P n r = (Ok (k, length bs mod c), snd (p_put_claim P r n))"
    "length xs = k \<Longrightarrow> \<exists>r2 r3. rb_store P (length bs mod c) xs (snd (p_put_claim P r n)) = (Ok (), r2)
       \<and> rb_put_finish P k r2 = (Ok 0, r3) \<and> rb_fills view ok c r3 (bs @ xs)"
proof -
  let ?r1 = "snd (p_put_claim P r n)" and ?ptr = "length bs mod c"
  have ok: "ok r" "ok ?r1" and idle: "r_got (view r) = 0" "r_held (view r) = []"
    and v: "r_pos (view r) = 0" "r_cap (view r) = c" "r_data (view r) = bs"
    using assms by (auto simp: rb_fills_def r_idle_def)
  have c: "0 < c" "length bs \<le> c" using r_wfD [OF ok(1)] v idle by simp_all
  have room: "min n (r_put_room (view r)) = k"
    using put_room_linear [OF ok(1) v(1)] v idle assms(2) by simp
  show "rb_put_claim P n r = (Ok (k, ?ptr), ?r1)"
    using put_claim_grant [OF ok(1), of n] room v idle by (simp add: rb_put_claim_def)
  obtain junk where junk: "length junk = k" "view ?r1 = (view r)\<lparr>r_held := junk\<rparr>"
    using put_claim_view [OF ok(1), of n] room idle by auto
  assume xs: "length xs = k"
  have ptr: "?ptr + length xs \<le> c"
    using xs c assms(2) by (cases "length bs = c") auto
  let ?r2 = "p_store P ?r1 ?ptr xs"
  have st: "ok ?r2" "view ?r2 = r_write (view ?r1) (length bs) xs"
    using store [OF ok(2), of "length bs" xs ?ptr] junk v xs ptr by simp_all
  then have v2: "view ?r2 = (view r)\<lparr>r_held := xs\<rparr>"
    using junk v xs by (simp add: r_write_def Let_def)
  show "\<exists>r2 r3. rb_store P ?ptr xs ?r1 = (Ok (), r2)
       \<and> rb_put_finish P k r2 = (Ok 0, r3) \<and> rb_fills view ok c r3 (bs @ xs)"
    using put_finish [OF st(1), of k] v2 v idle ok_ops(4) [OF st(1), of k] xs
    by (auto simp: rb_put_finish_def rb_store_def rb_fills_def r_idle_def)
qed

text \<open>One round of the copy loop, up to its test.\<close>

lemma runs_on_swo:
  "swo_buf s = b0 \<Longrightarrow> m b0 = (r, b) \<Longrightarrow> Q r (s\<lparr>swo_buf := b\<rparr>) \<Longrightarrow> runs (on_swo m) s Q"
  by (simp add: runs_def on_swo_def)

lemma runs_on_response:
  "response s = b0 \<Longrightarrow> m b0 = (r, b) \<Longrightarrow> Q r (s\<lparr>response := b\<rparr>) \<Longrightarrow> runs (on_response m) s Q"
  by (simp add: runs_def on_response_def)

lemma runs_swo_data_round:
  assumes "ok (swo_buf s)" "r_idle (view (swo_buf s))" "rb_fills view ok c (response s) out"
    "ds = r_data (view (swo_buf s))"
    "k = min (min (unat m) (min (length ds) (r_cap (view (swo_buf s)) - r_pos (view (swo_buf s))))) (c - length out)"
    and "\<And>b q. ok b \<Longrightarrow> r_idle (view b) \<Longrightarrow> r_data (view b) = drop k ds \<Longrightarrow>
      r_cap (view b) = r_cap (view (swo_buf s)) \<Longrightarrow>
      r_pos (view b) = (r_pos (view (swo_buf s)) + k) mod r_cap (view (swo_buf s)) \<Longrightarrow>
      rb_fills view ok c q (out @ take k ds) \<Longrightarrow>
      runs (if n + of_nat k < m \<and> k < length ds \<and> length out + k < c
            then swo_data_loop P fuel m (n + of_nat k) else ret (n + of_nat k))
        (s\<lparr>swo_buf := b, response := q\<rparr>) Q"
  shows "runs (swo_data_loop P (Suc fuel) m n) s Q"
proof -
  define x where "x = min (unat m) (min (length ds) (r_cap (view (swo_buf s)) - r_pos (view (swo_buf s))))"
  note a = trace_claim [OF assms(1,2,4) x_def]
  have k: "k = min x (c - length out)" using assms(5) by (simp add: x_def)
  then have "k \<le> x" by simp
  moreover have "x \<le> length ds" by (simp add: x_def min_le_iff_disj)
  ultimately have k: "k = min x (c - length out)" "k \<le> x" "k \<le> length ds" using k by simp_all
  have len: "length (take k ds) = k" using k(3) by simp
  note q = fills_claim_room [OF assms(3) k(1)]
  obtain b where b: "rb_get_finish P k (snd (p_get_claim P (swo_buf s) (unat m))) = (Ok 0, b)" "ok b"
       "r_idle (view b)" "r_data (view b) = drop k ds" "r_cap (view b) = r_cap (view (swo_buf s))"
       "r_pos (view b) = (r_pos (view (swo_buf s)) + k) mod r_cap (view (swo_buf s))"
    using a(3) [OF k(2)] by blast
  obtain q2 q3 where q3:
    "rb_store P (length out mod c) (take k ds) (snd (p_put_claim P (response s) x)) = (Ok (), q2)"
    "rb_put_finish P k q2 = (Ok 0, q3)" "rb_fills view ok c q3 (out @ take k ds)"
    using q(2) [OF len] by blast
  have space: "(0 < p_size P b) = (k < length ds)" "(0 < p_space P q3) = (length out + k < c)"
    using size_get [OF b(2)] b(3,4) space_get [of q3] q3(3) k(3)
    by (auto simp: r_idle_def rb_fills_def)
  show ?thesis
    unfolding swo_data_loop.simps
    apply (rule runs_bindI, rule runs_on_swo, simp, rule a(1), simp only: outcome.case prod.case)
    apply (rule runs_bindI, rule runs_on_response, simp, rule q(1), simp only: outcome.case prod.case)
    apply (rule runs_bindI, rule runs_on_swo, simp, rule a(2) [OF k(2)], simp only: outcome.case)
    apply (rule runs_bindI, rule runs_on_response, simp, rule q3(1), simp only: outcome.case)
    apply (rule runs_bindI, rule runs_on_swo, simp, rule b(1), simp only: outcome.case)
    apply (rule runs_bindI, rule runs_on_response, simp, rule q3(2), simp only: outcome.case)
    using assms(6) [OF b(2-6) q3(3)] by (simp add: runs_bindC space Let_def)
qed

text \<open>
  The whole loop: every round but the first finds data and room, so it copies at least one byte.
\<close>

lemma runs_swo_data_loop:
  assumes "ok (swo_buf s)" "r_idle (view (swo_buf s))" "rb_fills view ok c (response s) out"
    "ds = r_data (view (swo_buf s))" "length ds < fuel" "unat n + length ds < 2 ^ 16"
    and "\<And>k b q. k \<le> length ds \<Longrightarrow> length out + k \<le> c \<Longrightarrow>
      k = length ds \<or> length out + k = c \<or> unat m \<le> unat n + k \<Longrightarrow>
      r_data (view b) = drop k ds \<Longrightarrow> rb_fills view ok c q (out @ take k ds) \<Longrightarrow>
      Q (Ok (n + of_nat k)) (s\<lparr>swo_buf := b, response := q\<rparr>)"
  shows "runs (swo_data_loop P fuel m n) s Q"
  using assms
proof (induction fuel arbitrary: s n out ds)
  case (Suc fuel)
  define k where "k = min (min (unat m) (min (length ds) (r_cap (view (swo_buf s)) - r_pos (view (swo_buf s)))))
    (c - length out)"
  have "length out \<le> c" using Suc.prems(3) r_wfD(4) [of "response s"] by (auto simp: rb_fills_def r_idle_def)
  moreover have "k \<le> length ds" "k \<le> c - length out" unfolding k_def by (simp_all add: min_le_iff_disj)
  ultimately have k: "k \<le> length ds" "length out + k \<le> c" by simp_all
  have n: "unat (n + of_nat k) = unat n + k"
    using Suc.prems(6) k(1) by (simp add: unat_word_ariths unat_of_nat)
  have less: "n + of_nat k < m \<longleftrightarrow> unat n + k < unat m"
    by (simp add: word_less_nat_alt n)
  show ?case
  proof (rule runs_swo_data_round [OF Suc.prems(1-4) k_def])
    fix b q assume b: "ok b" "r_idle (view b)" "r_data (view b) = drop k ds"
      and q: "rb_fills view ok c q (out @ take k ds)"
    let ?t = "s\<lparr>swo_buf := b, response := q\<rparr>"
    show "runs (if n + of_nat k < m \<and> k < length ds \<and> length out + k < c
        then swo_data_loop P fuel m (n + of_nat k) else ret (n + of_nat k)) ?t Q"
    proof (cases "n + of_nat k < m \<and> k < length ds \<and> length out + k < c")
      case True
      have "r_pos (view (swo_buf s)) < r_cap (view (swo_buf s))"
        using r_wfD(2) [OF Suc.prems(1)] .
      moreover have "0 < unat m" "ds \<noteq> []" "length out < c" using True less by auto
      ultimately have "0 < k" unfolding k_def by simp
      have "runs (swo_data_loop P fuel m (n + of_nat k)) ?t Q"
      proof (rule Suc.IH [of ?t "out @ take k ds" "drop k ds"])
        fix j b' q' assume j: "j \<le> length (drop k ds)" "length (out @ take k ds) + j \<le> c"
          "j = length (drop k ds) \<or> length (out @ take k ds) + j = c \<or> unat m \<le> unat (n + of_nat k) + j"
          "r_data (view b') = drop j (drop k ds)" "rb_fills view ok c q' ((out @ take k ds) @ take j (drop k ds))"
        have split: "take (k + j) ds = take k ds @ take j (drop k ds)" "drop (k + j) ds = drop j (drop k ds)"
          by (rule take_add) (simp add: add.commute)
        have "Q (Ok (n + of_nat (k + j))) (s\<lparr>swo_buf := b', response := q'\<rparr>)"
          using j k n by (intro Suc.prems(7)) (auto simp: split simp del: drop_drop)
        then show "Q (Ok (n + of_nat k + of_nat j)) (?t\<lparr>swo_buf := b', response := q'\<rparr>)"
          by (simp add: add.assoc)
      qed (use b q k n \<open>0 < k\<close> Suc.prems(5,6) in simp_all)
      then show ?thesis using True by simp
    next
      case False
      then have "k = length ds \<or> length out + k = c \<or> unat m \<le> unat n + k"
        using k less by auto
      then have "Q (Ok (n + of_nat k)) ?t"
        using k b(3) q by (intro Suc.prems(7))
      then show ?thesis using False by auto
    qed
  qed
qed simp

lemma runs_swo_data_linear:
  assumes "ok (swo_buf s)" "r_idle (view (swo_buf s))" "rb_fills view ok c (response s) out"
    "ds = r_data (view (swo_buf s))" "0 < fuel" "length ds < 2 ^ 16" "r_linear (view (swo_buf s))"
    "k = min (unat m) (min (length ds) (c - length out))"
    and "\<And>b q. r_data (view b) = drop k ds \<Longrightarrow> rb_fills view ok c q (out @ take k ds) \<Longrightarrow>
      Q (Ok (of_nat k)) (s\<lparr>swo_buf := b, response := q\<rparr>)"
  shows "runs (swo_data_loop P fuel m 0) s Q"
proof -
  obtain f where f: "fuel = Suc f" using assms(5) by (cases fuel) auto
  have "length ds \<le> r_cap (view (swo_buf s)) - r_pos (view (swo_buf s))"
    using assms(2,4,7) by (simp add: r_linear_def r_idle_def)
  then have k: "k = min (min (unat m) (min (length ds) (r_cap (view (swo_buf s)) - r_pos (view (swo_buf s)))))
      (c - length out)"
    unfolding assms(8) by (simp add: min.assoc min_absorb1)
  have "k \<le> length ds" unfolding assms(8) by (simp add: min_le_iff_disj)
  then have "unat (of_nat k :: u16) = k"
    using assms(6) by (simp add: unat_of_nat)
  moreover have stops: "k = unat m \<or> k = length ds \<or> k = c - length out"
    unfolding assms(8) by (simp add: min_def)
  ultimately have stops: "unat (of_nat k :: u16) = unat m \<or> k = length ds \<or> k = c - length out" by simp
  from this have stop: "\<not> ((0 :: u16) + of_nat k < m \<and> k < length ds \<and> length out + k < c)"
    using stops by (auto simp: word_less_nat_alt)
  show ?thesis
    unfolding f
    by (rule runs_swo_data_round [OF assms(1-4) k]) (use stop assms(9) in auto)
qed

lemma runs_swo_data:
  assumes "rb_reads view ok (request s) (b0 # b1 # rest)" "rb_fills view ok c (response s) out"
    "length out + 4 \<le> c" "ok (swo_buf s)" "r_idle (view (swo_buf s))" "ds = r_data (view (swo_buf s))"
    "length ds < p_fuel P" "length ds < 2 ^ 16"
    and "\<And>k r b q. k \<le> length ds \<Longrightarrow> length out + 4 + k \<le> c \<Longrightarrow>
      k = length ds \<or> length out + 4 + k = c \<or> unat (sys_get_le16 [b0, b1]) \<le> k \<Longrightarrow>
      (r_linear (view (swo_buf s)) \<Longrightarrow> k \<le> unat (sys_get_le16 [b0, b1])) \<Longrightarrow>
      rb_reads view ok r rest \<Longrightarrow> r_data (view b) = drop k ds \<Longrightarrow>
      rb_fills view ok c q (out @ [0x1c, swo_trace_status s] @ sys_put_le16 (of_nat k) @ take k ds) \<Longrightarrow>
      Q (Ok ()) (s\<lparr>request := r, swo_buf := b, response := q\<rparr>)"
  shows "runs (dap_handle_cmd_swo_data P) s Q"
proof -
  let ?m = "sys_get_le16 [b0, b1]" and ?pre = "out @ [0x1c, swo_trace_status s]"
  have loop: "runs (bindC (swo_data_loop P (p_fuel P) ?m 0)
      (\<lambda>count. store_response P (length ?pre) (sys_put_le16 count))) (s\<lparr>request := r, response := q\<rparr>) Q"
    if r: "rb_reads view ok r rest" and q: "rb_fills view ok c q (?pre @ junk)" and junk: "length junk = 2" for r q junk
  proof -
    let ?t = "s\<lparr>request := r, response := q\<rparr>"
    have fin: "runs (store_response P (length ?pre) (sys_put_le16 (of_nat k))) (?t\<lparr>swo_buf := b, response := q'\<rparr>) Q"
      if k: "k \<le> length ds" "length (?pre @ junk) + k \<le> c"
        "k = length ds \<or> length (?pre @ junk) + k = c \<or> unat ?m \<le> k"
        "r_linear (view (swo_buf s)) \<Longrightarrow> k \<le> unat ?m"
        and b: "r_data (view b) = drop k ds" and q': "rb_fills view ok c q' ((?pre @ junk) @ take k ds)" for k b q'
    proof (rule runs_store_response [where pre = ?pre and old = junk and post = "take k ds"])
      fix q'' assume "rb_fills view ok c q'' (?pre @ sys_put_le16 (of_nat k) @ take k ds)"
      then have "Q (Ok ()) (s\<lparr>request := r, swo_buf := b, response := q''\<rparr>)"
        using k b r junk by (intro assms(9)) simp_all
      then show "Q (Ok ()) (?t\<lparr>swo_buf := b, response := q', response := q''\<rparr>)" by simp
    qed (use q' junk in \<open>simp_all add: sys_put_le16_def\<close>)
    show ?thesis
    proof (cases "r_linear (view (swo_buf s))")
      case True
      define k where "k = min (unat ?m) (min (length ds) (c - length (?pre @ junk)))"
      have "k \<le> length ds" "k \<le> c - length (?pre @ junk)" "k \<le> unat ?m"
        "k = length ds \<or> k = c - length (?pre @ junk) \<or> unat ?m \<le> k"
        unfolding k_def by (simp_all add: min_le_iff_disj min_def)
      then have k: "k \<le> length ds" "length (?pre @ junk) + k \<le> c" "k \<le> unat ?m"
        "k = length ds \<or> length (?pre @ junk) + k = c \<or> unat ?m \<le> k"
        using assms(3) junk by auto
      have lin: "runs (swo_data_loop P (p_fuel P) ?m 0) ?t
          (\<lambda>x u. \<exists>b q'. x = Ok (of_nat k) \<and> u = ?t\<lparr>swo_buf := b, response := q'\<rparr>
            \<and> r_data (view b) = drop k ds \<and> rb_fills view ok c q' ((?pre @ junk) @ take k ds))"
        by (rule runs_swo_data_linear [where k = k and out = "?pre @ junk" and ds = ds])
           (use assms(4-8) q True k_def in auto)
      show ?thesis
        by (rule runs_bindI, rule runs_mono [OF lin]) (use fin [OF k(1,2,4) k(3)] in auto)
    next
      case False
      have loop: "runs (swo_data_loop P (p_fuel P) ?m 0) ?t
          (\<lambda>x u. \<exists>k b q'. k \<le> length ds \<and> length (?pre @ junk) + k \<le> c
            \<and> (k = length ds \<or> length (?pre @ junk) + k = c \<or> unat ?m \<le> k)
            \<and> x = Ok (of_nat k) \<and> u = ?t\<lparr>swo_buf := b, response := q'\<rparr>
            \<and> r_data (view b) = drop k ds \<and> rb_fills view ok c q' ((?pre @ junk) @ take k ds))"
        by (rule runs_swo_data_loop [where out = "?pre @ junk" and ds = ds])
           (use assms(4-8) q in auto)
      show ?thesis
        by (rule runs_bindI, rule runs_mono [OF loop]) (use fin False in auto)
    qed
  qed
  show ?thesis
    unfolding dap_handle_cmd_swo_data_def
    apply (rule runs_bindI, rule runs_get_bytes [OF assms(1)])
     apply simp_all
    apply (rule runs_bindI, rule runs_put_bytes [where c = c and out = out])
    using assms(2,3) apply simp_all
    apply (simp add: runs_bindC [of "gets _"])
    apply (rule runs_bindI, rule runs_put_bytes [where c = c and out = "out @ [0x1c]"])
      apply (simp add: dap_cmd_ids)
     apply simp
    apply simp
    apply (rule runs_bindI, rule runs_put_later [where c = c and out = ?pre])
       apply (simp add: swo_trace_status_def)
      apply simp
     apply simp
    using loop by simp
qed

end

section \<open>The receive interrupt\<close>

text \<open>
  What a run of the interrupt leaves: the bytes it stored and the bytes it dropped are the bytes
  the port delivered, in order, and it dropped bytes only with a full buffer and the overrun flag.
\<close>

definition trace_grown :: "('rb \<Rightarrow> rview) \<Rightarrow> ('rb \<Rightarrow> bool) \<Rightarrow> 'rb dap_driver \<Rightarrow> 'rb dap_driver \<Rightarrow> bool" where
  "trace_grown view ok s t \<longleftrightarrow> (\<exists>xs ys. ok (swo_buf t) \<and> r_idle (view (swo_buf t))
     \<and> r_cap (view (swo_buf t)) = r_cap (view (swo_buf s))
     \<and> r_data (view (swo_buf t)) = r_data (view (swo_buf s)) @ xs
     \<and> fifo_bytes UART_SWO (trace t) = fifo_bytes UART_SWO (trace s) @ xs @ ys
     \<and> (swo_overrun s \<longrightarrow> swo_overrun t) \<and> (ys \<noteq> [] \<longrightarrow> swo_overrun t)
     \<and> (swo_overrun t \<and> \<not> swo_overrun s \<longrightarrow> length (r_data (view (swo_buf t))) = r_cap (view (swo_buf t)))
     \<and> t = s\<lparr>trace := trace t, swo_buf := swo_buf t, swo_overrun := swo_overrun t\<rparr>)"

lemma trace_grown_step:
  assumes "trace_grown view ok (s\<lparr>trace := h, swo_buf := b\<rparr>) t" "fifo_bytes UART_SWO h = fifo_bytes UART_SWO (trace s) @ xs"
    "r_data (view b) = r_data (view (swo_buf s)) @ xs" "r_cap (view b) = r_cap (view (swo_buf s))"
  shows "trace_grown view ok s t"
proof -
  from assms(1) show ?thesis
    unfolding trace_grown_def
  proof (elim exE, goal_cases)
    case (1 us ys)
    then show ?case
      using assms(2-4) by - (rule exI [of _ "xs @ us"], rule exI [of _ ys], elim conjE, simp)
  qed
qed

context ring_buffer
begin

lemma swo_uart_loop_grows:
  assumes "fifo_ok P UART_SWO" "fifo_drained P UART_SWO n" "n < p_fuel P"
    and "ok (swo_buf s)" "r_idle (view (swo_buf s))" "0 < fuel" "n < fifo_reads UART_SWO (trace s) + fuel"
  shows "runs (swo_uart_loop P fuel) s (\<lambda>x t. x = Ok () \<and> trace_grown view ok s t)"
  using assms(4-7)
proof (induction fuel arbitrary: s)
  case (Suc fuel)
  note bs = bindC_simps(1) [OF hw_eq]
  let ?u = "(UartIrqUpdate UART_SWO, p_hw P (trace s) (UartIrqUpdate UART_SWO))"
  let ?h1 = "trace s @ [?u]"
  let ?h2 = "?h1 @ [(UartIrqRxReady UART_SWO, p_hw P ?h1 (UartIrqRxReady UART_SWO))]"
  let ?v = "view (swo_buf s)"
  let ?ptr = "(r_pos ?v + length (r_data ?v)) mod r_cap ?v"
  define k where "k = min DAP_SWO_RING_BUF_SIZE (min (r_cap ?v - length (r_data ?v)) (r_cap ?v - ?ptr))"
  have held: "r_held ?v = []" using Suc.prems(2) by (simp add: r_idle_def)
  note room = put_round [OF Suc.prems(1) held refl refl refl k_def]
  have h: "fifo_bytes UART_SWO ?h2 = fifo_bytes UART_SWO (trace s)" "fifo_reads UART_SWO ?h2 = fifo_reads UART_SWO (trace s)" by simp_all
  have h1: "fifo_reads UART_SWO ?h1 = fifo_reads UART_SWO (trace s)" by simp
  have idle: "trace_grown view ok s (s\<lparr>trace := g\<rparr>)" if "fifo_bytes UART_SWO g = fifo_bytes UART_SWO (trace s)" for g
    using Suc.prems(1,2) that unfolding trace_grown_def by (intro exI [of _ "[]"]) simp
  show ?case
  proof (cases "fst (p_hw P (trace s) (UartIrqUpdate UART_SWO)) = 0 \<or> fst (p_hw P ?h1 (UartIrqRxReady UART_SWO)) = 0")
    case True
    then show ?thesis
      using idle [of ?h1] idle [of ?h2] by (auto simp: runs_def bs ret_def)
  next
    case False
    then have more: "fifo_reads UART_SWO (trace s) < n"
      using assms(2) unfolding fifo_drained_def by (metis h1 not_le)
    let ?s2 = "s\<lparr>trace := ?h2\<rparr>" and ?b1 = "snd (p_put_claim P (swo_buf s) DAP_SWO_RING_BUF_SIZE)"
    have claim: "on_swo (rb_put_claim P DAP_SWO_RING_BUF_SIZE) ?s2 = (Ok (k, ?ptr), ?s2\<lparr>swo_buf := ?b1\<rparr>)"
      using room(1) by (simp add: on_swo_def)
    note claim = bindC_simps(1) [where m = "on_swo (rb_put_claim P DAP_SWO_RING_BUF_SIZE)", OF claim]
    have to_claim: "swo_uart_loop P (Suc fuel) s = (if k = 0
        then uart_drop P UART_SWO (p_fuel P) (?s2\<lparr>swo_buf := ?b1, swo_overrun := True\<rparr>)
        else bindC (hw_full P (UartFifoRead UART_SWO k)) (\<lambda>(r, bs).
          bindC (on_swo (rb_store P ?ptr bs)) (\<lambda>_.
          bindC (on_swo (rb_put_finish P (nat r))) (\<lambda>c.
          bindC (fatal_check (c = 0)) (\<lambda>_.
          swo_uart_loop P fuel)))) (?s2\<lparr>swo_buf := ?b1\<rparr>))"
      using False unfolding swo_uart_loop.simps by (simp add: bs claim bindC_modify del: append_assoc)
    show ?thesis
    proof (cases "k = 0")
      case True
      have full: "length (r_data ?v) = r_cap ?v"
      proof -
        have "?ptr < r_cap ?v" "length (r_data ?v) \<le> r_cap ?v"
          using r_wfD(1,4) [OF Suc.prems(1)] by simp_all
        from no_room [OF True [unfolded k_def] _ this] show ?thesis
          by (simp add: DAP_SWO_RING_BUF_SIZE_def)
      qed
      have b1: "ok ?b1" "view ?b1 = ?v"
        using Suc.prems(1,2) put_claim_view [OF Suc.prems(1), of DAP_SWO_RING_BUF_SIZE] room(1) True
          put_claim_grant [OF Suc.prems(1), of DAP_SWO_RING_BUF_SIZE]
        by (auto simp: rb_put_claim_def r_idle_def)
      let ?s3 = "?s2\<lparr>swo_buf := ?b1, swo_overrun := True\<rparr>"
      obtain g ys where g: "uart_drop P UART_SWO (p_fuel P) ?s3 = (Ok (), ?s3\<lparr>trace := g\<rparr>)"
        "fifo_bytes UART_SWO g = fifo_bytes UART_SWO (trace ?s3) @ ys"
        using uart_drop_ends [OF assms(2), of "p_fuel P" ?s3] assms(3) by auto
      then have "trace_grown view ok s (?s3\<lparr>trace := g\<rparr>)"
        unfolding trace_grown_def using b1 full Suc.prems(2)
        by - (rule exI [of _ "[]"], rule exI [of _ ys], simp)
      then show ?thesis
        using g True by (simp add: runs_def to_claim del: swo_uart_loop.simps append_assoc)
    next
      case data: False
      obtain r xs where a: "p_hw P ?h2 (UartFifoRead UART_SWO k) = (r, xs)" by fastforce
      note xs = fifo_read_bounds [OF assms(1) a]
      obtain b2 b3 where b: "rb_store P ?ptr xs ?b1 = (Ok (), b2)" "rb_put_finish P (length xs) b2 = (Ok 0, b3)"
        "ok b3" "view b3 = ?v\<lparr>r_data := r_data ?v @ xs\<rparr>"
        using room(2) [OF xs(2)] by blast
      have b3: "r_idle (view b3)" "r_data (view b3) = r_data ?v @ xs" "r_cap (view b3) = r_cap ?v"
        using b(4) Suc.prems(2) by (simp_all add: r_idle_def)
      let ?h3 = "?h2 @ [(UartFifoRead UART_SWO k, r, xs)]"
      have round: "swo_uart_loop P (Suc fuel) s = swo_uart_loop P fuel (s\<lparr>trace := ?h3, swo_buf := b3\<rparr>)"
        using data a b(1,2) xs(1) 
        by (simp add: to_claim bindC_def hw_full_def on_swo_def ret_def
          del: swo_uart_loop.simps append_assoc)
      have "runs (swo_uart_loop P fuel) (s\<lparr>trace := ?h3, swo_buf := b3\<rparr>)
          (\<lambda>x t. x = Ok () \<and> trace_grown view ok (s\<lparr>trace := ?h3, swo_buf := b3\<rparr>) t)"
        using b(3) b3(1) more Suc.prems(4) by (intro Suc.IH) simp_all
      then show ?thesis
        using trace_grown_step [where s = s and h = ?h3 and b = b3 and xs = xs and view = view and ok = ok] b3(2,3) by (auto simp: runs_def round simp del: swo_uart_loop.simps)
    qed
  qed
qed simp

end

section \<open>Properties\<close>

lemma isr_fields:
  "t = s\<lparr>trace := h, swo_error := e, trace := a, swo_buf := b, swo_overrun := c\<rparr> \<Longrightarrow>
   t = s\<lparr>trace := trace t, swo_buf := swo_buf t, swo_overrun := swo_overrun t, swo_error := swo_error t\<rparr>"
  by simp



text \<open>
  C8: \<open>swo_data\<close> answers with the status and the oldest trace bytes, in order, and removes
  exactly these from the trace buffer: until the buffer is empty, the response is full or the count
  asked for is reached.  The count is not exceeded when the trace bytes do not wrap around in the
  ring buffer.\<close>

theorem swo_data_in_order:
  assumes "ring_buffer P view ok" "rb_reads view ok (request s) (b0 # b1 # rest)"
    "rb_fills view ok c (response s) out" "length out + 4 \<le> c"
    and "ok (swo_buf s)" "r_idle (view (swo_buf s))" "ds = r_data (view (swo_buf s))"
    "length ds < p_fuel P" "length ds < 2 ^ 16"
  shows "\<exists>t k. dap_handle_cmd_swo_data P s = (Ok (), t) \<and> rb_reads view ok (request t) rest
    \<and> rb_fills view ok c (response t) (out @ [0x1c, swo_trace_status s] @ sys_put_le16 (of_nat k) @ take k ds)
    \<and> r_data (view (swo_buf t)) = drop k ds
    \<and> (k = length ds \<or> length out + 4 + k = c \<or> unat (sys_get_le16 [b0, b1]) \<le> k)
    \<and> (r_linear (view (swo_buf s)) \<longrightarrow> k \<le> unat (sys_get_le16 [b0, b1]))
    \<and> t = s\<lparr>request := request t, swo_buf := swo_buf t, response := response t\<rparr>"
proof -
  have "runs (dap_handle_cmd_swo_data P) s (\<lambda>x t. \<exists>k. x = Ok () \<and> rb_reads view ok (request t) rest
    \<and> rb_fills view ok c (response t) (out @ [0x1c, swo_trace_status s] @ sys_put_le16 (of_nat k) @ take k ds)
    \<and> r_data (view (swo_buf t)) = drop k ds
    \<and> (k = length ds \<or> length out + 4 + k = c \<or> unat (sys_get_le16 [b0, b1]) \<le> k)
    \<and> (r_linear (view (swo_buf s)) \<longrightarrow> k \<le> unat (sys_get_le16 [b0, b1]))
    \<and> t = s\<lparr>request := request t, swo_buf := swo_buf t, response := response t\<rparr>)"
    by (rule ring_buffer.runs_swo_data [OF assms]) auto
  then show ?thesis
    unfolding runs_def by (metis prod.collapse)
qed

lemma swo_data_in_order_witness:
  "\<exists>t k. dap_handle_cmd_swo_data (array_platform (\<lambda>_ _. (0, [])) 8)
      ((dap_sample 2 (a_of [2, 0]))\<lparr>swo_buf := a_of [7, 8, 9]\<rparr>) = (Ok (), t)
    \<and> r_data (a_view (swo_buf t)) = drop k [7, 8, 9] \<and> k \<le> 2"
proof -
  let ?s = "(dap_sample 2 (a_of [2, 0]))\<lparr>swo_buf := a_of [7, 8, 9]\<rparr>"
  have swo: "a_ok (swo_buf ?s)" "r_idle (a_view (swo_buf ?s))" "r_linear (a_view (swo_buf ?s))"
    "[7, 8, 9] = r_data (a_view (swo_buf ?s))"
    using a_of_reads [of "[7, 8, 9]"] by (auto simp: rb_reads_def)
  have bufs: "rb_reads a_view a_ok (request ?s) (2 # 0 # [])" "rb_fills a_view a_ok 64 (response ?s) []"
    by simp_all
  have "unat (sys_get_le16 [2, 0]) = 2" by (simp add: sys_get_le16_def)
  then show ?thesis
    using swo_data_in_order [OF arr.ring_buffer_axioms bufs _ swo(1,2,4), of "\<lambda>_ _. (0, [])" 8] swo(3)
    by (auto simp: array_platform_def)
qed

end
