(* ===== verification/Dap_Tcp.thy ===== *)
theory Dap_Tcp
  imports Ring_Array Util Timing
begin

text \<open>
  The TCP transport of the debug access port (dap/transport\_tcp.c): a listening socket, one
  connection at a time, and packets that are preceded by their length as a 16-bit little endian
  number.

  A socket call that fails answers minus the \<open>errno\<close> it sets, so \<open>-1 * errno\<close> is the answer.  A
  receive gives the bytes it stored through its pointer along with the count it returns.
\<close>

record tcp = traced +
  tcp_bind_sock :: int
  tcp_conn_sock :: int

type_synonym 'a tcp_cmd = "(tcp, 'a) cmd"

section \<open>Connections\<close>

definition CONFIG_DAP_TCP_PORT :: nat where
  "CONFIG_DAP_TCP_PORT = 30047"

definition dap_tcp_transport_init :: "'rb platform \<Rightarrow> unit tcp_cmd" where
  "dap_tcp_transport_init P =
     bindC (hw P (SockCall (SockOpen AF_INET))) (\<lambda>r.
     if r < 0 then fail (DriverError r)
     else bindC (modify (tcp_bind_sock_update (\<lambda>_. r))) (\<lambda>_.
     bindC (hw P (SockCall (SockBind r AF_INET6 CONFIG_DAP_TCP_PORT))) (\<lambda>r2.
     if r2 < 0 then fail (DriverError r2)
     else bindC (hw P (SockCall (SockListen r 4))) (\<lambda>r3.
     if r3 < 0 then fail (DriverError r3) else ret ()))))"

text \<open>The flag of \<open>fcntl.h\<close>.\<close>

definition O_NONBLOCK :: int where
  "O_NONBLOCK = 0x4000"

definition tcp_set_nonblocking :: "'rb platform \<Rightarrow> int \<Rightarrow> bool \<Rightarrow> int tcp_cmd" where
  "tcp_set_nonblocking P sock enabled =
     bindC (hw P (SockCall (FcntlGet sock))) (\<lambda>flags.
     if flags < 0 then ret flags
     else hw P (SockCall (FcntlSet sock (flags OR O_NONBLOCK))))"

definition dap_tcp_transport_configure :: "'rb platform \<Rightarrow> unit tcp_cmd" where
  "dap_tcp_transport_configure P =
     bindC (gets tcp_bind_sock) (\<lambda>sock.
     bindC (tcp_set_nonblocking P sock True) (\<lambda>r.
     if r < 0 then fail (DriverError r)
     else bindC (hw P (SockCall (SockAccept sock))) (\<lambda>r2.
     if r2 < 0 then fail (DriverError r2)
     else bindC (modify (tcp_conn_sock_update (\<lambda>_. r2))) (\<lambda>_.
     bindC (tcp_set_nonblocking P sock True) (\<lambda>r3.
     if r3 < 0 then fail (DriverError r3) else ret ())))))"

section \<open>Packets\<close>

text \<open>
  What follows every transfer on the connection: a closed peer, an error and a short transfer
  close the connection, and each has its own error code.
\<close>

definition tcp_check :: "'rb platform \<Rightarrow> int \<Rightarrow> int \<Rightarrow> unit tcp_cmd" where
  "tcp_check P count want =
     bindC (gets tcp_conn_sock) (\<lambda>sock.
     if count = 0 then bindC (hwv P (SockCall (SockClose sock))) (\<lambda>_. fail ESHUTDOWN)
     else if count < 0 then bindC (hwv P (SockCall (SockClose sock))) (\<lambda>_. fail (DriverError count))
     else if count < want then bindC (hwv P (SockCall (SockClose sock))) (\<lambda>_. fail ENODATA)
     else ret ())"

definition dap_tcp_transport_recv :: "'rb platform \<Rightarrow> nat \<Rightarrow> (int \<times> byte list) tcp_cmd" where
  "dap_tcp_transport_recv P len =
     bindC (gets tcp_conn_sock) (\<lambda>sock.
     bindC (hw_full P (SockCall (SockRecv sock 2))) (\<lambda>(received, bs).
     bindC (tcp_check P received 2) (\<lambda>_.
     let request_len = unat (sys_get_le16 bs) in
     if len < request_len
     then bindC (hwv P (SockCall (SockClose sock))) (\<lambda>_. fail ENOBUFS)
     else if 0 < request_len
     then bindC (hw_full P (SockCall (SockRecv sock request_len))) (\<lambda>(received, bs).
          bindC (tcp_check P received (int request_len)) (\<lambda>_. ret (received, bs)))
     else ret (received, []))))"

definition dap_tcp_transport_send :: "'rb platform \<Rightarrow> byte list \<Rightarrow> int tcp_cmd" where
  "dap_tcp_transport_send P bs =
     (let response_len = of_nat (length bs) :: u16 in
      bindC (gets tcp_conn_sock) (\<lambda>sock.
      bindC (hw P (SockCall (SockSend sock (sys_put_le16 response_len @ bs)))) (\<lambda>sent.
      bindC (tcp_check P sent (int (unat response_len) + 2)) (\<lambda>_. ret (sent - 2)))))"

section \<open>Errors\<close>

lemma tcp_check_runs:
  "tcp_check P count want s = (if 0 < count \<and> want \<le> count then (Ok (), s)
     else (Fail (if count = 0 then ESHUTDOWN else if count < 0 then DriverError count else ENODATA),
       s\<lparr>trace := trace s @ [(SockCall (SockClose (tcp_conn_sock s)),
          p_hw P (trace s) (SockCall (SockClose (tcp_conn_sock s))))]\<rparr>))"
  by (simp add: tcp_check_def bindC_def gets_def hwv_eq fail_def ret_def)

text \<open>
  A call on a connection leaves it open when it succeeds, and closes it, as the last thing it does,
  when it fails.
\<close>

definition tcp_closes :: "tcp \<Rightarrow> 'a outcome \<Rightarrow> tcp \<Rightarrow> bool" where
  "tcp_closes s r t \<longleftrightarrow> (\<exists>h. t = s\<lparr>trace := trace s @ h\<rparr> \<and> (case r of
     Ok _ \<Rightarrow> (\<forall>(c, a)\<in>set h. \<forall>k. c \<noteq> SockCall (SockClose k))
   | Fail e \<Rightarrow> (\<exists>g a. h = g @ [(SockCall (SockClose (tcp_conn_sock s)), a)]
        \<and> (\<forall>(c, a)\<in>set g. \<forall>k. c \<noteq> SockCall (SockClose k)))
   | _ \<Rightarrow> False))"

lemma hw_full_eq: "hw_full P c s = (Ok (p_hw P (trace s) c), s\<lparr>trace := trace s @ [(c, p_hw P (trace s) c)]\<rparr>)"
  by (simp add: hw_full_def)

text \<open>
  C21: Whatever the sockets answer, receiving and sending a packet on the TCP transport comes to
  an end, returns a count or one of the error codes, and closes the connection exactly when it
  fails, as its last call.\<close>

theorem tcp_error_closes:
  "tcp_closes s (fst (dap_tcp_transport_recv P len s)) (snd (dap_tcp_transport_recv P len s))
   \<and> tcp_closes s (fst (dap_tcp_transport_send P bs s)) (snd (dap_tcp_transport_send P bs s))"
proof
  note ops = bindC_def gets_def hw_eq hw_full_eq hwv_eq tcp_check_runs fail_def ret_def Let_def
  show "tcp_closes s (fst (dap_tcp_transport_recv P len s)) (snd (dap_tcp_transport_recv P len s))"
    unfolding dap_tcp_transport_recv_def
    by (simp add: ops split: prod.split outcome.split) (auto simp: tcp_closes_def)
  show "tcp_closes s (fst (dap_tcp_transport_send P bs s)) (snd (dap_tcp_transport_send P bs s))"
    unfolding dap_tcp_transport_send_def
    by (simp add: ops split: prod.split outcome.split) (auto simp: tcp_closes_def)
qed

section \<open>Framing\<close>

text \<open>The bytes that have been received from and sent on a socket.\<close>

fun sock_recvd :: "int \<Rightarrow> hist \<Rightarrow> byte list" where
  "sock_recvd k [] = []"
| "sock_recvd k ((c, a) # h) =
     (case c of SockCall (SockRecv j n) \<Rightarrow> if j = k then snd a else [] | _ \<Rightarrow> []) @ sock_recvd k h"

fun sock_sent :: "int \<Rightarrow> hist \<Rightarrow> byte list" where
  "sock_sent k [] = []"
| "sock_sent k ((c, a) # h) =
     (case c of SockCall (SockSend j bs) \<Rightarrow> if j = k then take (nat (fst a)) bs else [] | _ \<Rightarrow> []) @ sock_sent k h"

lemma sock_append [simp]:
  "sock_recvd k (g @ h) = sock_recvd k g @ sock_recvd k h" "sock_sent k (g @ h) = sock_sent k g @ sock_sent k h"
  by (induction g) auto

text \<open>
  The laws of a connection that holds: a receive that waits for all its bytes takes them from the
  stream the peer has sent, and a send takes all it is given.
\<close>

definition stream_ok :: "'rb platform \<Rightarrow> int \<Rightarrow> byte list \<Rightarrow> bool" where
  "stream_ok P k xs \<longleftrightarrow> (\<forall>h n. p_hw P h (SockCall (SockRecv k n))
     = (let ys = take n (drop (length (sock_recvd k h)) xs) in (int (length ys), ys)))"

definition send_ok :: "'rb platform \<Rightarrow> int \<Rightarrow> bool" where
  "send_ok P k \<longleftrightarrow> (\<forall>h bs. fst (p_hw P h (SockCall (SockSend k bs))) = int (length bs))"

definition frame :: "byte list \<Rightarrow> byte list" where
  "frame bs = sys_put_le16 (of_nat (length bs)) @ bs"

definition packet_ok :: "nat \<Rightarrow> byte list \<Rightarrow> bool" where
  "packet_ok len bs \<longleftrightarrow> 0 < length bs \<and> length bs \<le> len \<and> length bs < 2 ^ 16"

lemma tcp_recv_frame:
  assumes "stream_ok P (tcp_conn_sock s) xs" "packet_ok len bs"
    "drop (length (sock_recvd (tcp_conn_sock s) (trace s))) xs = frame bs @ rest"
  shows "\<exists>h. dap_tcp_transport_recv P len s = (Ok (int (length bs), bs), s\<lparr>trace := h\<rparr>)
    \<and> drop (length (sock_recvd (tcp_conn_sock s) h)) xs = rest"
proof -
  let ?k = "tcp_conn_sock s" and ?w = "sys_put_le16 (of_nat (length bs))"
  have law: "p_hw P h (SockCall (SockRecv ?k n)) =
      (let ys = take n (drop (length (sock_recvd ?k h)) xs) in (int (length ys), ys))" for h n
    using assms(1) by (simp add: stream_ok_def)
  have len: "unat (of_nat (length bs) :: u16) = length bs" "bs \<noteq> []" "length bs \<le> len"
    using assms(2) by (auto simp: packet_ok_def unat_of_nat)
  define h1 where "h1 = trace s @ [(SockCall (SockRecv ?k 2), 2, ?w)]"
  have first: "p_hw P (trace s) (SockCall (SockRecv ?k 2)) = (2, ?w)"
    using assms(3) by (simp add: law frame_def Let_def)
  have rest: "drop (length (sock_recvd ?k h1)) xs = bs @ rest"
    using arg_cong [OF assms(3), of "drop 2"] by (simp add: h1_def frame_def add.commute)
  have second: "p_hw P h1 (SockCall (SockRecv ?k (length bs))) = (int (length bs), bs)"
    by (simp add: law rest Let_def)
  define h2 where "h2 = h1 @ [(SockCall (SockRecv ?k (length bs)), int (length bs), bs)]"
  have "drop (length (sock_recvd ?k h2)) xs = rest"
    using arg_cong [OF rest, of "drop (length bs)"] by (simp add: h2_def add.commute)
  moreover have "dap_tcp_transport_recv P len s = (Ok (int (length bs), bs), s\<lparr>trace := h2\<rparr>)"
    using len first second
    by (simp add: dap_tcp_transport_recv_def bindC_def gets_def hw_full_eq tcp_check_runs Let_def ret_def
      flip: h1_def h2_def)
  ultimately show ?thesis by blast
qed

text \<open>Receiving a number of packets, and sending a list of packets.\<close>

fun tcp_recv_packets :: "'rb platform \<Rightarrow> nat \<Rightarrow> nat \<Rightarrow> byte list list tcp_cmd" where
  "tcp_recv_packets P len 0 = ret []"
| "tcp_recv_packets P len (Suc n) =
     bindC (dap_tcp_transport_recv P len) (\<lambda>(r, bs).
     bindC (tcp_recv_packets P len n) (\<lambda>bss. ret (take (nat r) bs # bss)))"

fun tcp_send_packets :: "'rb platform \<Rightarrow> byte list list \<Rightarrow> unit tcp_cmd" where
  "tcp_send_packets P [] = ret ()"
| "tcp_send_packets P (bs # bss) =
     bindC (dap_tcp_transport_send P bs) (\<lambda>r.
     bindC (fatal_check (r = int (length bs))) (\<lambda>_. tcp_send_packets P bss))"

lemma tcp_recv_frames:
  assumes "stream_ok P (tcp_conn_sock s) xs" "\<forall>bs\<in>set bss. packet_ok len bs"
    "drop (length (sock_recvd (tcp_conn_sock s) (trace s))) xs = concat (map frame bss)"
  shows "\<exists>h. tcp_recv_packets P len (length bss) s = (Ok bss, s\<lparr>trace := h\<rparr>)"
  using assms
proof (induction bss arbitrary: s)
  case Nil
  then show ?case by (auto intro: exI [of _ "trace s"])
next
  case (Cons bs bss)
  then obtain h where h: "dap_tcp_transport_recv P len s = (Ok (int (length bs), bs), s\<lparr>trace := h\<rparr>)"
    "drop (length (sock_recvd (tcp_conn_sock s) h)) xs = concat (map frame bss)"
    using tcp_recv_frame [OF Cons.prems(1), of len bs "concat (map frame bss)"] by auto
  then obtain g where "tcp_recv_packets P len (length bss) (s\<lparr>trace := h\<rparr>) = (Ok bss, s\<lparr>trace := g\<rparr>)"
    using Cons.IH [of "s\<lparr>trace := h\<rparr>"] Cons.prems(1,2) by auto
  then show ?case using h(1) by (auto simp: bindC_def ret_def)
qed

lemma tcp_send_frames:
  assumes "send_ok P (tcp_conn_sock s)" "\<forall>bs\<in>set bss. length bs < 2 ^ 16"
  shows "\<exists>h. tcp_send_packets P bss s = (Ok (), s\<lparr>trace := h\<rparr>)
    \<and> sock_sent (tcp_conn_sock s) h = sock_sent (tcp_conn_sock s) (trace s) @ concat (map frame bss)"
  using assms
proof (induction bss arbitrary: s)
  case Nil
  then show ?case by (auto intro: exI [of _ "trace s"])
next
  case (Cons bs bss)
  let ?c = "SockCall (SockSend (tcp_conn_sock s) (frame bs))"
  let ?h = "trace s @ [(?c, p_hw P (trace s) ?c)]"
  have len: "unat (of_nat (length bs) :: u16) = length bs"
    using Cons.prems(2) by (simp add: unat_of_nat)
  have sent: "fst (p_hw P (trace s) ?c) = int (length bs) + 2"
    using Cons.prems(1) by (simp add: send_ok_def frame_def)
  then have "dap_tcp_transport_send P bs s = (Ok (int (length bs)), s\<lparr>trace := ?h\<rparr>)"
    using len arg_cong [OF len, of int] by (simp add: dap_tcp_transport_send_def Let_def bindC_def gets_def hw_eq tcp_check_runs ret_def
      flip: frame_def)
  moreover have "sock_sent (tcp_conn_sock s) ?h = sock_sent (tcp_conn_sock s) (trace s) @ frame bs"
    using sent by (simp add: frame_def)
  moreover obtain g where "tcp_send_packets P bss (s\<lparr>trace := ?h\<rparr>) = (Ok (), s\<lparr>trace := g\<rparr>)"
    "sock_sent (tcp_conn_sock s) g = sock_sent (tcp_conn_sock s) ?h @ concat (map frame bss)"
    using Cons.IH [of "s\<lparr>trace := ?h\<rparr>"] Cons.prems(1,2) by auto
  ultimately show ?case by (auto simp: bindC_def ret_def)
qed

text \<open>
  C6: Packets sent with the TCP transport's framing are received one by one: when one end sends a
  list of non-empty packets that fit the receiver's buffer, the other end's calls return exactly
  these packets, in order.\<close>

theorem tcp_round_trip:
  assumes "send_ok P (tcp_conn_sock s)" "sock_sent (tcp_conn_sock s) (trace s) = []"
    and "\<forall>bs\<in>set bss. packet_ok len bs"
    and "stream_ok Q (tcp_conn_sock u) (sock_sent (tcp_conn_sock s) (trace (snd (tcp_send_packets P bss s))))"
    and "sock_recvd (tcp_conn_sock u) (trace u) = []"
  shows "fst (tcp_send_packets P bss s) = Ok ()
    \<and> fst (tcp_recv_packets Q len (length bss) u) = Ok bss"
proof -
  obtain h where h: "tcp_send_packets P bss s = (Ok (), s\<lparr>trace := h\<rparr>)"
    "sock_sent (tcp_conn_sock s) h = concat (map frame bss)"
    using tcp_send_frames [OF assms(1), of bss] assms(2,3) by (auto simp: packet_ok_def)
  then show ?thesis
    using tcp_recv_frames [OF assms(4,3)] assms(5) by auto
qed

definition tcp_sample :: tcp where
  "tcp_sample = \<lparr>trace = [], tcp_bind_sock = 3, tcp_conn_sock = 4\<rparr>"

text \<open>A peer that takes what it is sent and has a stream to give.\<close>

definition peer_hw :: "byte list \<Rightarrow> hist \<Rightarrow> hw_call \<Rightarrow> answer" where
  "peer_hw xs h c = (case c of
     SockCall (SockRecv k n) \<Rightarrow> (let ys = take n (drop (length (sock_recvd k h)) xs) in (int (length ys), ys))
   | SockCall (SockSend k bs) \<Rightarrow> (int (length bs), [])
   | _ \<Rightarrow> (0, []))"

lemma peer_laws:
  "p_hw P = peer_hw xs \<Longrightarrow> stream_ok P k xs" "p_hw P = peer_hw xs \<Longrightarrow> send_ok P k"
  by (simp_all add: stream_ok_def send_ok_def peer_hw_def)

lemma tcp_round_trip_witness:
  "let P = array_platform (peer_hw []) 0;
       t = snd (tcp_send_packets P [[0], [5, 0x17, 0x82]] tcp_sample);
       Q = array_platform (peer_hw (sock_sent 4 (trace t))) 0
   in fst (tcp_recv_packets Q 1024 2 tcp_sample) = Ok [[0], [5, 0x17, 0x82]]"
proof -
  let ?P = "array_platform (peer_hw []) 0" and ?bss = "[[0], [5, 0x17, 0x82]] :: byte list list"
  let ?Q = "array_platform (peer_hw (sock_sent 4 (trace (snd (tcp_send_packets ?P ?bss tcp_sample))))) 0"
  have hw: "p_hw ?P = peer_hw []"
    "p_hw ?Q = peer_hw (sock_sent 4 (trace (snd (tcp_send_packets ?P ?bss tcp_sample))))"
    by (simp_all add: array_platform_def)
  have "tcp_conn_sock tcp_sample = 4" "trace tcp_sample = []" by (simp_all add: tcp_sample_def)
  moreover have "\<forall>bs\<in>set ?bss. packet_ok 1024 bs" by (simp add: packet_ok_def)
  ultimately show ?thesis
    using tcp_round_trip [of ?P tcp_sample ?bss 1024 ?Q tcp_sample]
      peer_laws(2) [OF hw(1), of 4] peer_laws(1) [OF hw(2), of 4]
    by (simp add: Let_def numeral_2_eq_2)
qed

text \<open>
  C35: A packet of length zero is not received as an empty packet: the call returns 2, the size of
  the length itself, although it has stored nothing.\<close>

theorem tcp_recv_empty:
  assumes "stream_ok P (tcp_conn_sock s) xs" "0 < len"
    "drop (length (sock_recvd (tcp_conn_sock s) (trace s))) xs = frame [] @ rest"
  shows "\<exists>t. dap_tcp_transport_recv P len s = (Ok (2, []), t)
    \<and> drop (length (sock_recvd (tcp_conn_sock s) (trace t))) xs = rest"
proof -
  let ?k = "tcp_conn_sock s"
  have law: "p_hw P h (SockCall (SockRecv ?k n)) =
      (let ys = take n (drop (length (sock_recvd ?k h)) xs) in (int (length ys), ys))" for h n
    using assms(1) by (simp add: stream_ok_def)
  have first: "p_hw P (trace s) (SockCall (SockRecv ?k 2)) = (2, [0, 0])"
    using assms(3) by (simp add: law frame_def Let_def sys_put_le16_def)
  define h where "h = trace s @ [(SockCall (SockRecv ?k 2), 2, [0, 0])]"
  have "drop (length (sock_recvd ?k h)) xs = rest"
    using arg_cong [OF assms(3), of "drop 2"]
    by (simp add: h_def frame_def sys_put_le16_def add.commute)
  moreover have "dap_tcp_transport_recv P len s = (Ok (2, []), s\<lparr>trace := h\<rparr>)"
    using first by (simp add: dap_tcp_transport_recv_def bindC_def gets_def hw_full_eq tcp_check_runs
      Let_def ret_def sys_get_le16_def flip: h_def)
  ultimately show ?thesis by (intro exI [of _ "s\<lparr>trace := h\<rparr>"]) simp
qed

lemma tcp_recv_empty_witness:
  "\<exists>t. dap_tcp_transport_recv (array_platform (peer_hw (frame [] @ [1, 2, 3])) 0) 1024 tcp_sample = (Ok (2, []), t)
    \<and> drop (length (sock_recvd 4 (trace t))) (frame [] @ [1, 2, 3]) = [1, 2, 3]"
proof -
  let ?P = "array_platform (peer_hw (frame [] @ [1, 2, 3])) 0"
  have "p_hw ?P = peer_hw (frame [] @ [1, 2, 3])" by (simp add: array_platform_def)
  from peer_laws(1) [OF this, of 4] show ?thesis
    using tcp_recv_empty [of ?P tcp_sample "frame [] @ [1, 2, 3]" 1024 "[1, 2, 3]"]
    by (simp add: tcp_sample_def)
qed

end
