(* ===== verification/Vcp.thy ===== *)
theory Vcp
  imports General Uart Ring_Array
begin

text \<open>
  The virtual COM port (vcp/vcp.c): a serial port and two ring buffers between it and a transport.
  What arrives at the serial port goes through \<open>rx_rbuf\<close> to the transport, what the transport
  receives goes through \<open>tx_rbuf\<close> to the serial port.

  The state is that of one device, its two buffers and the list of all devices; the constants of
  its configuration, with the choice of a high speed controller, are an argument.
\<close>

record vcp_config =
  vcp_uart :: uart
  vcp_usb_cfg :: nat
  vcp_intf :: byte
  vcp_out_ep :: byte
  vcp_in_ep :: byte
  vcp_high_speed :: bool

record 'rb vcp_data = traced +
  vcp_configured :: bool
  rx_rbuf :: 'rb
  tx_rbuf :: 'rb
  vcp_devlist :: "vcp_config list"

type_synonym ('rb, 'a) vcp_cmd = "('rb vcp_data, 'a) cmd"

definition on_rx :: "('rb, 'a) cmd \<Rightarrow> ('rb, 'a) vcp_cmd" where
  "on_rx m = (\<lambda>s. (fst (m (rx_rbuf s)), s\<lparr>rx_rbuf := snd (m (rx_rbuf s))\<rparr>))"

definition on_tx :: "('rb, 'a) cmd \<Rightarrow> ('rb, 'a) vcp_cmd" where
  "on_tx m = (\<lambda>s. (fst (m (tx_rbuf s)), s\<lparr>tx_rbuf := snd (m (tx_rbuf s))\<rparr>))"

text \<open>The values of Zephyr's \<open>uart_config\<close> enumerations.\<close>

definition UART_CFG_PARITY_NONE :: byte where "UART_CFG_PARITY_NONE = 0"
definition UART_CFG_STOP_BITS_1 :: byte where "UART_CFG_STOP_BITS_1 = 1"
definition UART_CFG_DATA_BITS_5 :: byte where "UART_CFG_DATA_BITS_5 = 0"
definition UART_CFG_DATA_BITS_6 :: byte where "UART_CFG_DATA_BITS_6 = 1"
definition UART_CFG_DATA_BITS_7 :: byte where "UART_CFG_DATA_BITS_7 = 2"
definition UART_CFG_DATA_BITS_8 :: byte where "UART_CFG_DATA_BITS_8 = 3"
definition UART_CFG_FLOW_CTRL_NONE :: byte where "UART_CFG_FLOW_CTRL_NONE = 0"

lemmas uart_cfg_defs = UART_CFG_PARITY_NONE_def UART_CFG_STOP_BITS_1_def UART_CFG_DATA_BITS_5_def
  UART_CFG_DATA_BITS_6_def UART_CFG_DATA_BITS_7_def UART_CFG_DATA_BITS_8_def UART_CFG_FLOW_CTRL_NONE_def

section \<open>Configuration and reset\<close>

definition vcp_is_configured :: "('rb, bool) vcp_cmd" where
  "vcp_is_configured = gets vcp_configured"

definition vcp_configure :: "'rb platform \<Rightarrow> vcp_config \<Rightarrow> ('rb, int) vcp_cmd" where
  "vcp_configure P cfg =
     bindC (gets vcp_configured) (\<lambda>configured.
     if configured then ret 0
     else bindC (on_rx (rb_reset P)) (\<lambda>_.
          bindC (on_tx (rb_reset P)) (\<lambda>_.
          bindC (hwv P (UsbCall WorkInit)) (\<lambda>_.
          bindC (hwv P (UartIrqRxEnable (vcp_uart cfg))) (\<lambda>_.
          bindC (modify (vcp_configured_update (\<lambda>_. True))) (\<lambda>_. ret 0))))))"

text \<open>\<open>while (k_work_cancel(&data->rx_work))\<close>\<close>

fun vcp_cancel_work :: "'rb platform \<Rightarrow> nat \<Rightarrow> ('rb, unit) vcp_cmd" where
  "vcp_cancel_work P 0 = spin"
| "vcp_cancel_work P (Suc fuel) =
     bindC (hw P (UsbCall WorkCancel)) (\<lambda>busy.
     if busy \<noteq> 0 then bindC (hwv P (SleepMillis 1)) (\<lambda>_. vcp_cancel_work P fuel) else ret ())"

definition vcp_reset :: "'rb platform \<Rightarrow> vcp_config \<Rightarrow> ('rb, int) vcp_cmd" where
  "vcp_reset P cfg =
     bindC (modify (vcp_configured_update (\<lambda>_. False))) (\<lambda>_.
     bindC (hwv P (UartIrqRxDisable (vcp_uart cfg))) (\<lambda>_.
     bindC (hwv P (UartIrqTxDisable (vcp_uart cfg))) (\<lambda>_.
     bindC (on_rx (rb_reset P)) (\<lambda>_.
     bindC (on_tx (rb_reset P)) (\<lambda>_.
     bindC (vcp_cancel_work P (p_fuel P)) (\<lambda>_.
     hw P (UartCall (vcp_uart cfg) (ConfigureLine 115200 UART_CFG_PARITY_NONE UART_CFG_STOP_BITS_1
       UART_CFG_DATA_BITS_8 UART_CFG_FLOW_CTRL_NONE))))))))"

section \<open>The interrupt of the serial port\<close>

text \<open>The receive part says whether the interrupt goes on.\<close>

definition vcp_uart_rx :: "'rb platform \<Rightarrow> uart \<Rightarrow> ('rb, bool) vcp_cmd" where
  "vcp_uart_rx P u =
     bindC (on_rx (rb_put_claim P VCP_RING_BUF_SIZE)) (\<lambda>(space, ptr).
     if space = 0 then bindC (uart_drop P u (p_fuel P)) (\<lambda>_. ret False)
     else bindC (hw_full P (UartFifoRead u space)) (\<lambda>(r, bs).
          bindC (on_rx (rb_store P ptr bs)) (\<lambda>_.
          bindC (on_rx (rb_put_finish P (nat r))) (\<lambda>c.
          bindC (fatal_check (c = 0)) (\<lambda>_.
          bindC (hwv P (UsbCall WorkSubmit)) (\<lambda>_. ret True))))))"

definition vcp_uart_tx :: "'rb platform \<Rightarrow> uart \<Rightarrow> ('rb, unit) vcp_cmd" where
  "vcp_uart_tx P u =
     bindC (on_tx (rb_get_claim P VCP_RING_BUF_SIZE)) (\<lambda>(avail, ptr).
     if avail = 0 then hwv P (UartIrqTxDisable u)
     else bindC (on_tx (rb_load P ptr avail)) (\<lambda>bs.
          bindC (hw P (UartCall u (FifoFill bs))) (\<lambda>filled.
          bindC (on_tx (rb_get_finish P (nat filled))) (\<lambda>c.
          fatal_check (c = 0)))))"

fun vcp_uart_loop :: "'rb platform \<Rightarrow> uart \<Rightarrow> nat \<Rightarrow> ('rb, unit) vcp_cmd" where
  "vcp_uart_loop P u 0 = spin"
| "vcp_uart_loop P u (Suc fuel) =
     bindC (hw P (UartIrqUpdate u)) (\<lambda>update.
     if update = 0 then ret ()
     else bindC (hw P (UartCall u IrqPending)) (\<lambda>pending.
     if pending = 0 then ret ()
     else bindC (hw P (UartIrqRxReady u)) (\<lambda>rx_ready.
     bindC (if rx_ready \<noteq> 0 then vcp_uart_rx P u else ret True) (\<lambda>go_on.
     if \<not> go_on then ret ()
     else bindC (hw P (UartCall u IrqTxReady)) (\<lambda>tx_ready.
     bindC (whenC (tx_ready \<noteq> 0) (vcp_uart_tx P u)) (\<lambda>_.
     vcp_uart_loop P u fuel))))))"

definition vcp_uart_isr :: "'rb platform \<Rightarrow> vcp_config \<Rightarrow> ('rb, unit) vcp_cmd" where
  "vcp_uart_isr P cfg = vcp_uart_loop P (vcp_uart cfg) (p_fuel P)"

section \<open>Initialization\<close>

definition vcp_init :: "'rb platform \<Rightarrow> vcp_config \<Rightarrow> ('rb, int) vcp_cmd" where
  "vcp_init P cfg =
     bindC (hw P (DeviceReady (vcp_uart cfg))) (\<lambda>ready.
     if ready = 0 then fail ENODEV
     else bindC (modify (vcp_devlist_update (\<lambda>devs. devs @ [cfg]))) (\<lambda>_.
          bindC (hwv P (UartIrqRxDisable (vcp_uart cfg))) (\<lambda>_.
          bindC (hwv P (UartIrqTxDisable (vcp_uart cfg))) (\<lambda>_.
          vcp_reset P cfg))))"

end
