(* ===== verification/Usb.thy ===== *)
theory Usb
  imports Platform
begin

text \<open>
  What the USB parts of the firmware share: the states of the device controller, and setup packets.
\<close>

datatype usb_dc_status = USB_DC_ERROR | USB_DC_RESET | USB_DC_CONNECTED | USB_DC_CONFIGURED
  | USB_DC_DISCONNECTED | USB_DC_SUSPEND | USB_DC_RESUME | USB_DC_INTERFACE | USB_DC_SOF | USB_DC_UNKNOWN

record usb_setup_packet =
  bmRequestType :: byte
  bRequest :: byte
  wValue :: u16
  wIndex :: u16

text \<open>The direction is the highest bit of the request type.\<close>

definition usb_reqtype_is_to_device :: "usb_setup_packet \<Rightarrow> bool" where
  "usb_reqtype_is_to_device setup \<longleftrightarrow> \<not> bit (bmRequestType setup) 7"

end
