(* ===== verification/Vcp_Usb.thy ===== *)
theory Vcp_Usb
  imports Vcp Usb
begin

text \<open>
  The USB side of the virtual COM port (vcp/usb.c): line coding requests, the transfers in both
  directions, and the status of the bus.
\<close>

section \<open>The device of an interface or a configuration\<close>

text \<open>The macros of usb\_msos.h walk the whole list, so the last device that matches is found.\<close>

definition dev_from_usb_intf :: "byte \<Rightarrow> vcp_config list \<Rightarrow> vcp_config option" where
  "dev_from_usb_intf n devs = foldl (\<lambda>r c. if vcp_intf c = n then Some c else r) None devs"

definition dev_from_usb_cfg :: "nat \<Rightarrow> vcp_config list \<Rightarrow> vcp_config option" where
  "dev_from_usb_cfg n devs = foldl (\<lambda>r c. if vcp_usb_cfg c = n then Some c else r) None devs"

section \<open>Class requests\<close>

definition SET_LINE_CODING :: byte where "SET_LINE_CODING = 0x20"
definition GET_LINE_CODING :: byte where "GET_LINE_CODING = 0x21"
definition SET_CONTROL_LINE_STATE :: byte where "SET_CONTROL_LINE_STATE = 0x22"

text \<open>The data bits of a line coding and of a serial port configuration.\<close>

definition uart_of_usb_data_bits :: "byte \<Rightarrow> byte option" where
  "uart_of_usb_data_bits b =
     (if b = 5 then Some UART_CFG_DATA_BITS_5
      else if b = 6 then Some UART_CFG_DATA_BITS_6
      else if b = 7 then Some UART_CFG_DATA_BITS_7
      else if b = 8 then Some UART_CFG_DATA_BITS_8
      else None)"

definition usb_of_uart_data_bits :: "byte \<Rightarrow> byte option" where
  "usb_of_uart_data_bits b =
     (if b = UART_CFG_DATA_BITS_5 then Some 5
      else if b = UART_CFG_DATA_BITS_6 then Some 6
      else if b = UART_CFG_DATA_BITS_7 then Some 7
      else if b = UART_CFG_DATA_BITS_8 then Some 8
      else None)"

text \<open>
  A line coding is seven bytes: the rate, the format, the parity and the data bits.  The result is
  the return code and, for a request that answers data, the bytes.  The fields of the serial port
  configuration are read from the eight bytes of \<open>struct uart_config\<close>, whatever the call returns.
\<close>

definition vcp_usb_class_handle_req ::
  "'rb platform \<Rightarrow> usb_setup_packet \<Rightarrow> byte list \<Rightarrow> ('rb, int \<times> byte list) vcp_cmd" where
  "vcp_usb_class_handle_req P setup coding =
     bindC (gets vcp_devlist) (\<lambda>devs.
     case dev_from_usb_intf (ucast (wIndex setup AND 0xFF)) devs of
       None \<Rightarrow> fail ENODEV
     | Some cfg \<Rightarrow>
         if usb_reqtype_is_to_device setup then
           if bRequest setup = SET_LINE_CODING then
             (case uart_of_usb_data_bits (coding ! 6) of
                None \<Rightarrow> fail ENOTSUP
              | Some data_bits \<Rightarrow>
                  bindC (hw P (UartCall (vcp_uart cfg) (ConfigureLine (sys_get_le32 (take 4 coding))
                    (coding ! 5) (coding ! 4 + 1) data_bits UART_CFG_FLOW_CTRL_NONE))) (\<lambda>r.
                  if r < 0 then fail (DriverError r) else ret (r, [])))
           else if bRequest setup = SET_CONTROL_LINE_STATE then ret (0, [])
           else fail ENOTSUP
         else if bRequest setup = GET_LINE_CODING then
           bindC (hw_full P (UartCall (vcp_uart cfg) ConfigGet)) (\<lambda>(_, conf).
           case usb_of_uart_data_bits (conf ! 6) of
             None \<Rightarrow> fail ENOTSUP
           | Some data_bits \<Rightarrow> ret (0, take 4 conf @ [conf ! 5 - 1, conf ! 4, data_bits]))
         else fail ENOTSUP)"

section \<open>Transfers\<close>

text \<open>
  A transfer to the host reads its bytes through the pointer of the claim; these do not change
  while the claim is open, so the bytes are part of the call.  A transfer from the host will write
  through the pointer of its claim.
\<close>

definition VCP_BULK_EP_MPS :: "bool \<Rightarrow> nat" where
  "VCP_BULK_EP_MPS high_speed = (if high_speed then 512 else 64)"

definition usb_work_handler :: "'rb platform \<Rightarrow> vcp_config \<Rightarrow> ('rb, unit) vcp_cmd" where
  "usb_work_handler P cfg =
     bindC (hw P (UsbCall (TransferBusy (vcp_in_ep cfg)))) (\<lambda>busy.
     if busy \<noteq> 0 then ret ()
     else bindC (on_rx (rb_get_claim P VCP_RING_BUF_SIZE)) (\<lambda>(len, ptr).
     if len = 0 then ret ()
     else let len = (if len mod VCP_BULK_EP_MPS (vcp_high_speed cfg) = 0 then len - 1 else len) in
          bindC (on_rx (rb_load P ptr len)) (\<lambda>bs.
          hwv P (UsbCall (TransferWrite (vcp_in_ep cfg) bs)))))"

definition vcp_usb_write_cb :: "'rb platform \<Rightarrow> nat \<Rightarrow> ('rb, unit) vcp_cmd" where
  "vcp_usb_write_cb P len =
     bindC (on_rx (rb_get_finish P len)) (\<lambda>c.
     if c < 0 then ret ()
     else bindC (gets rx_rbuf) (\<lambda>rx.
     if p_size P rx = 0 then ret () else hwv P (UsbCall WorkSubmit)))"

definition vcp_usb_read_cb :: "'rb platform \<Rightarrow> vcp_config \<Rightarrow> byte \<Rightarrow> nat \<Rightarrow> ('rb, unit) vcp_cmd" where
  "vcp_usb_read_cb P cfg ep len =
     bindC (whenC (0 < len)
       (bindC (on_tx (rb_put_finish P len)) (\<lambda>c.
        whenC (0 \<le> c) (hwv P (UartCall (vcp_uart cfg) IrqTxEnable))))) (\<lambda>_.
     bindC (on_tx (rb_put_claim P VCP_RING_BUF_SIZE)) (\<lambda>(space, ptr).
     hwv P (UsbCall (TransferRead ep ptr space))))"

section \<open>The bus\<close>

definition vcp_usb_status_cb :: "'rb platform \<Rightarrow> nat \<Rightarrow> usb_dc_status \<Rightarrow> ('rb, unit) vcp_cmd" where
  "vcp_usb_status_cb P n status =
     bindC (gets vcp_devlist) (\<lambda>devs.
     case dev_from_usb_cfg n devs of
       None \<Rightarrow> ret ()
     | Some cfg \<Rightarrow>
         (case status of
            USB_DC_RESET \<Rightarrow> bindC (vcp_reset P cfg) (\<lambda>_. ret ())
          | USB_DC_DISCONNECTED \<Rightarrow> bindC (vcp_reset P cfg) (\<lambda>_. ret ())
          | USB_DC_CONFIGURED \<Rightarrow>
              bindC vcp_is_configured (\<lambda>configured.
              if configured then ret ()
              else bindC (vcp_configure P cfg) (\<lambda>r.
                   if r < 0 then ret () else vcp_usb_read_cb P cfg (vcp_out_ep cfg) 0))
          | _ \<Rightarrow> ret ()))"

text \<open>The fields of the descriptor that depend on the numbers the stack assigns.\<close>

record vcp_usb_descriptor =
  iad_cdc_bFirstInterface :: byte
  if0_bInterfaceNumber :: byte
  if0_iInterface :: byte
  if0_union_bControlInterface :: byte
  if0_union_bSubordinateInterface0 :: byte
  if1_bInterfaceNumber :: byte
  if1_iInterface :: byte

definition vcp_usb_interface_config :: "byte \<Rightarrow> byte \<Rightarrow> vcp_usb_descriptor \<Rightarrow> vcp_usb_descriptor" where
  "vcp_usb_interface_config str_idx n desc =
     desc\<lparr>iad_cdc_bFirstInterface := n, if0_bInterfaceNumber := n, if0_iInterface := str_idx,
       if0_union_bControlInterface := n, if0_union_bSubordinateInterface0 := n + 1,
       if1_bInterfaceNumber := n + 1, if1_iInterface := str_idx\<rparr>"

end
