(* ===== verification/Vcp_Stream.thy ===== *)
theory Vcp_Stream
  imports Vcp_Usb "HOL-Library.Sublist"
begin

text \<open>
  The two byte streams of the virtual COM port, through its interrupt, its work handler and the
  callbacks of the USB transfers, in whatever order these run.
\<close>

section \<open>What an interrupt does to the buffers\<close>

text \<open>The bytes a serial port has taken to send.\<close>

fun uart_sent :: "uart \<Rightarrow> hist \<Rightarrow> byte list" where
  "uart_sent u [] = []"
| "uart_sent u ((c, a) # h) =
     (case c of UartCall v (FifoFill bs) \<Rightarrow> if v = u then take (nat (fst a)) bs else [] | _ \<Rightarrow> []) @ uart_sent u h"

lemma uart_sent_append [simp]: "uart_sent u (g @ h) = uart_sent u g @ uart_sent u h"
  by (induction g) auto

text \<open>A serial port takes at most the bytes it is given.\<close>

definition fill_ok :: "'rb platform \<Rightarrow> uart \<Rightarrow> bool" where
  "fill_ok P u \<longleftrightarrow> (\<forall>h bs. fst (p_hw P h (UartCall u (FifoFill bs))) \<le> int (length bs))"

definition vcp_same :: "'rb vcp_data \<Rightarrow> 'rb vcp_data \<Rightarrow> bool" where
  "vcp_same s t \<longleftrightarrow> vcp_configured t = vcp_configured s \<and> vcp_devlist t = vcp_devlist s"

text \<open>
  From \<open>s\<close> to \<open>t\<close> the bytes \<open>xs\<close> have been stored and \<open>zs\<close> dropped, and \<open>k\<close> bytes have been sent.
\<close>

definition vcp_moved :: "('rb \<Rightarrow> rview) \<Rightarrow> ('rb \<Rightarrow> bool) \<Rightarrow> uart \<Rightarrow> byte list \<Rightarrow> 'rb vcp_data \<Rightarrow> 'rb vcp_data \<Rightarrow> bool" where
  "vcp_moved view ok u zs s t \<longleftrightarrow> (\<exists>xs k. ok (rx_rbuf t) \<and> ok (tx_rbuf t)
     \<and> view (rx_rbuf t) = (view (rx_rbuf s))\<lparr>r_data := r_data (view (rx_rbuf s)) @ xs\<rparr>
     \<and> fifo_bytes u (trace t) = fifo_bytes u (trace s) @ xs @ zs
     \<and> (zs \<noteq> [] \<longrightarrow> length (r_data (view (rx_rbuf t))) = r_cap (view (rx_rbuf t)))
     \<and> k \<le> length (r_data (view (tx_rbuf s)))
     \<and> view (tx_rbuf t) = (view (tx_rbuf s))\<lparr>r_data := drop k (r_data (view (tx_rbuf s))),
          r_pos := (r_pos (view (tx_rbuf s)) + k) mod r_cap (view (tx_rbuf s))\<rparr>
     \<and> uart_sent u (trace t) = uart_sent u (trace s) @ take k (r_data (view (tx_rbuf s)))
     \<and> vcp_same s t)"

lemma vcp_moved_trans:
  assumes "vcp_moved view ok u [] s t" "vcp_moved view ok u zs t v"
  shows "vcp_moved view ok u zs s v"
proof -
  let ?d = "r_data (view (tx_rbuf s))" and ?c = "r_cap (view (tx_rbuf s))"
  obtain xs j where a: "view (rx_rbuf t) = (view (rx_rbuf s))\<lparr>r_data := r_data (view (rx_rbuf s)) @ xs\<rparr>"
    "fifo_bytes u (trace t) = fifo_bytes u (trace s) @ xs" "j \<le> length ?d"
    "view (tx_rbuf t) = (view (tx_rbuf s))\<lparr>r_data := drop j ?d, r_pos := (r_pos (view (tx_rbuf s)) + j) mod ?c\<rparr>"
    "uart_sent u (trace t) = uart_sent u (trace s) @ take j ?d"
    "vcp_same s t"
    using assms(1) by (auto simp: vcp_moved_def)
  obtain ys k where b: "ok (rx_rbuf v)" "ok (tx_rbuf v)"
    "view (rx_rbuf v) = (view (rx_rbuf t))\<lparr>r_data := r_data (view (rx_rbuf t)) @ ys\<rparr>"
    "fifo_bytes u (trace v) = fifo_bytes u (trace t) @ ys @ zs"
    "zs \<noteq> [] \<longrightarrow> length (r_data (view (rx_rbuf v))) = r_cap (view (rx_rbuf v))"
    "k \<le> length (r_data (view (tx_rbuf t)))"
    "view (tx_rbuf v) = (view (tx_rbuf t))\<lparr>r_data := drop k (r_data (view (tx_rbuf t))),
       r_pos := (r_pos (view (tx_rbuf t)) + k) mod r_cap (view (tx_rbuf t))\<rparr>"
    "uart_sent u (trace v) = uart_sent u (trace t) @ take k (r_data (view (tx_rbuf t)))"
    "vcp_same t v"
    using assms(2) unfolding vcp_moved_def by blast
  show ?thesis
    unfolding vcp_moved_def
    using a b by (intro exI [of _ "xs @ ys"] exI [of _ "j + k"])
      (simp add: vcp_same_def take_add add.assoc mod_add_left_eq add.commute [of k j])
qed

lemma vcp_moved_calls:
  assumes "ok (rx_rbuf s)" "ok (tx_rbuf s)" "r_pos (view (tx_rbuf s)) < r_cap (view (tx_rbuf s))"
    "fifo_bytes u h = fifo_bytes u (trace s)" "uart_sent u h = uart_sent u (trace s)"
  shows "vcp_moved view ok u [] s (s\<lparr>trace := h\<rparr>)"
  unfolding vcp_moved_def using assms
  by (intro exI [of _ "[]"] exI [of _ 0]) (simp add: vcp_same_def)

lemma uart_drop_moves:
  assumes "uart_drop P u fuel s = (r, t)" "r \<noteq> Spin"
  shows "r = Ok () \<and> (\<exists>h ys. t = s\<lparr>trace := h\<rparr> \<and> fifo_bytes u h = fifo_bytes u (trace s) @ ys
    \<and> uart_sent u h = uart_sent u (trace s))"
  using assms
proof (induction fuel arbitrary: s)
  case (Suc fuel)
  let ?c = "UartFifoRead u 1"
  let ?t = "s\<lparr>trace := trace s @ [(?c, p_hw P (trace s) ?c)]\<rparr>"
  have step: "uart_drop P u (Suc fuel) s
      = (if 0 < fst (p_hw P (trace s) ?c) then uart_drop P u fuel ?t else (Ok (), ?t))"
    unfolding uart_drop.simps bindC_simps(1) [OF hw_eq] by (simp add: ret_def)
  show ?case
  proof (cases "0 < fst (p_hw P (trace s) ?c)")
    case True
    then have "r = Ok () \<and> (\<exists>h ys. t = ?t\<lparr>trace := h\<rparr> \<and> fifo_bytes u h = fifo_bytes u (trace ?t) @ ys
        \<and> uart_sent u h = uart_sent u (trace ?t))"
      using Suc.prems step by (intro Suc.IH) (simp_all del: One_nat_def)
    then show ?thesis by (auto simp del: One_nat_def)
  next
    case False
    then show ?thesis using step Suc.prems by (auto intro: exI [of _ "trace ?t"] simp del: One_nat_def)
  qed
qed simp

lemma runs_hw [simp]:
  "runs (hw P c) s Q \<longleftrightarrow> Q (Ok (fst (p_hw P (trace s) c))) (s\<lparr>trace := trace s @ [(c, p_hw P (trace s) c)]\<rparr>)"
  "runs (hwv P c) s R \<longleftrightarrow> R (Ok ()) (s\<lparr>trace := trace s @ [(c, p_hw P (trace s) c)]\<rparr>)"
  "runs (hw_full P c) s S \<longleftrightarrow> S (Ok (p_hw P (trace s) c)) (s\<lparr>trace := trace s @ [(c, p_hw P (trace s) c)]\<rparr>)"
  by (simp_all add: runs_def hw_eq hwv_eq hw_full_def)

lemma runs_on_rx:
  "rx_rbuf s = b0 \<Longrightarrow> m b0 = (r, b) \<Longrightarrow> Q r (s\<lparr>rx_rbuf := b\<rparr>) \<Longrightarrow> runs (on_rx m) s Q"
  by (simp add: runs_def on_rx_def)

lemma runs_on_tx:
  "tx_rbuf s = b0 \<Longrightarrow> m b0 = (r, b) \<Longrightarrow> Q r (s\<lparr>tx_rbuf := b\<rparr>) \<Longrightarrow> runs (on_tx m) s Q"
  by (simp add: runs_def on_tx_def)

context ring_buffer
begin

lemma runs_vcp_uart_rx:
  assumes "fifo_ok P u" "ok (rx_rbuf s)" "ok (tx_rbuf s)" "r_held (view (rx_rbuf s)) = []"
  shows "runs (vcp_uart_rx P u) s (\<lambda>x t. x = Spin \<or> x = Ok True \<and> vcp_moved view ok u [] s t
    \<or> x = Ok False \<and> (\<exists>zs. vcp_moved view ok u zs s t))"
proof -
  let ?v = "view (rx_rbuf s)" and ?b1 = "snd (p_put_claim P (rx_rbuf s) VCP_RING_BUF_SIZE)"
  let ?ptr = "(r_pos ?v + length (r_data ?v)) mod r_cap ?v"
  define k where "k = min VCP_RING_BUF_SIZE (min (r_cap ?v - length (r_data ?v)) (r_cap ?v - ?ptr))"
  note room = put_round [OF assms(2,4) refl refl refl k_def]
  have tx: "r_pos (view (tx_rbuf s)) < r_cap (view (tx_rbuf s))" using r_wfD(2) [OF assms(3)] .
  show ?thesis
  proof (cases "k = 0")
    case True
    have full: "length (r_data ?v) = r_cap ?v"
    proof -
      have "?ptr < r_cap ?v" "length (r_data ?v) \<le> r_cap ?v"
        using r_wfD(1,4) [OF assms(2)] by simp_all
      from no_room [OF True [unfolded k_def] _ this] show ?thesis
        by (simp add: VCP_RING_BUF_SIZE_def)
    qed
    have b1: "ok ?b1" "view ?b1 = ?v"
      using assms(2,4) put_claim_view [OF assms(2), of VCP_RING_BUF_SIZE] room(1) True
        put_claim_grant [OF assms(2), of VCP_RING_BUF_SIZE]
      by (auto simp: rb_put_claim_def)
    let ?s = "s\<lparr>rx_rbuf := ?b1\<rparr>"
    have drop: "runs (uart_drop P u (p_fuel P)) ?s (\<lambda>x t. x = Spin \<or> x = Ok ()
        \<and> (\<exists>zs. vcp_moved view ok u zs s t))"
    proof (cases "uart_drop P u (p_fuel P) ?s")
      case (Pair r t)
      show ?thesis
      proof (cases "r = Spin")
        case False
        obtain h ys where h: "r = Ok ()" "t = ?s\<lparr>trace := h\<rparr>" "fifo_bytes u h = fifo_bytes u (trace s) @ ys"
          "uart_sent u h = uart_sent u (trace s)"
          using uart_drop_moves [OF Pair False] by auto
        have "vcp_moved view ok u ys s t"
          unfolding vcp_moved_def using h b1 full assms(3) tx
          by (intro exI [of _ "[]"] exI [of _ 0]) (simp add: vcp_same_def)
        then show ?thesis using Pair h(1) by (auto simp: runs_def)
      qed (simp add: runs_def Pair)
    qed
    show ?thesis
      unfolding vcp_uart_rx_def
      apply (rule runs_bindI, rule runs_on_rx, simp, rule room(1), simp only: outcome.case prod.case)
      using True apply simp
      apply (rule runs_bindI, rule runs_mono [OF drop])
      by auto
  next
    case False
    let ?h = "trace s"
    obtain r xs where a: "p_hw P ?h (UartFifoRead u k) = (r, xs)" by fastforce
    note xs = fifo_read_bounds [OF assms(1) a]
    obtain b2 b3 where b: "rb_store P ?ptr xs ?b1 = (Ok (), b2)" "rb_put_finish P (length xs) b2 = (Ok 0, b3)"
      "ok b3" "view b3 = ?v\<lparr>r_data := r_data ?v @ xs\<rparr>"
      using room(2) [OF xs(2)] by blast
    have moved: "vcp_moved view ok u [] s (s\<lparr>rx_rbuf := b3, trace := h\<rparr>)"
      if "fifo_bytes u h = fifo_bytes u ?h @ xs" "uart_sent u h = uart_sent u ?h" for h
      unfolding vcp_moved_def using b(3,4) assms(3) tx that
      by (intro exI [of _ xs] exI [of _ 0]) (simp add: vcp_same_def)
    show ?thesis
      unfolding vcp_uart_rx_def
      apply (rule runs_bindI, rule runs_on_rx, simp, rule room(1), simp only: outcome.case prod.case)
      using False apply simp
      apply (rule runs_bindI)
      apply (simp add: a)
      apply (rule runs_bindI, rule runs_on_rx, simp, rule b(1), simp only: outcome.case)
      apply (rule runs_bindI, rule runs_on_rx, simp, simp add: b(2) flip: xs(1), simp only: outcome.case)
      apply (simp add: runs_bindC)
      using moved by simp
  qed
qed

lemma runs_vcp_uart_tx:
  assumes "fill_ok P u" "ok (rx_rbuf s)" "ok (tx_rbuf s)" "r_got (view (tx_rbuf s)) = 0"
  shows "runs (vcp_uart_tx P u) s (\<lambda>x t. x = Ok () \<and> vcp_moved view ok u [] s t)"
proof -
  let ?v = "view (tx_rbuf s)" and ?b1 = "snd (p_get_claim P (tx_rbuf s) VCP_RING_BUF_SIZE)"
  define n where "n = min VCP_RING_BUF_SIZE (min (length (r_data ?v)) (r_cap ?v - r_pos ?v))"
  note a = get_round [OF assms(3,4) refl refl n_def]
  have pos: "r_pos ?v < r_cap ?v" using r_wfD(2) [OF assms(3)] .
  show ?thesis
  proof (cases "n = 0")
    case True
    have "vcp_moved view ok u [] s (s\<lparr>tx_rbuf := ?b1, trace := trace s @ [(UartIrqTxDisable u, a)]\<rparr>)" for a
      unfolding vcp_moved_def using a(2,3) True assms(2,4) pos
      by (intro exI [of _ "[]"] exI [of _ 0]) (simp add: vcp_same_def)
    then show ?thesis
      unfolding vcp_uart_tx_def
      apply -
      apply (rule runs_bindI, rule runs_on_tx, simp, rule a(1), simp only: outcome.case prod.case)
      using True by simp
  next
    case False
    have "n \<le> length (r_data ?v)" unfolding n_def by (simp add: min_le_iff_disj)
    let ?bs = "take n (r_data ?v)"
    let ?c = "UartCall u (FifoFill ?bs)"
    define f where "f = nat (fst (p_hw P (trace s) ?c))"
    have "length ?bs = n" using \<open>n \<le> length (r_data ?v)\<close> by simp
    moreover have "fst (p_hw P (trace s) ?c) \<le> int (length ?bs)"
      using assms(1) unfolding fill_ok_def by blast
    ultimately have "f \<le> n" by (simp add: f_def)
    then have f: "f \<le> n" "f \<le> length (r_data ?v)" "take f ?bs = take f (r_data ?v)"
      using \<open>n \<le> length (r_data ?v)\<close> by (simp_all add: min_def)
    obtain b2 where b: "rb_get_finish P f ?b1 = (Ok 0, b2)" "ok b2"
      "view b2 = ?v\<lparr>r_data := drop f (r_data ?v), r_pos := (r_pos ?v + f) mod r_cap ?v\<rparr>"
      using a(5) [OF f(1)] by blast
    have "vcp_moved view ok u [] s (s\<lparr>trace := trace s @ [(?c, p_hw P (trace s) ?c)], tx_rbuf := b2\<rparr>)"
      unfolding vcp_moved_def using b(2,3) f assms(2)
      by (intro exI [of _ "[]"] exI [of _ f]) (simp add: vcp_same_def flip: f_def)
    then show ?thesis
      unfolding vcp_uart_tx_def
      apply -
      apply (rule runs_bindI, rule runs_on_tx, simp, rule a(1), simp only: outcome.case prod.case)
      using False apply simp
      apply (rule runs_bindI, rule runs_on_tx, simp, rule a(4) [OF order_refl], simp only: outcome.case)
      apply (rule runs_bindI, simp)
      apply (rule runs_bindI, rule runs_on_tx, simp, simp add: b(1) flip: f_def, simp only: outcome.case)
      by simp
  qed
qed

lemma runs_vcp_uart_loop:
  assumes "fifo_ok P u" "fill_ok P u" "ok (rx_rbuf s)" "ok (tx_rbuf s)" "r_held (view (rx_rbuf s)) = []"
    "r_got (view (tx_rbuf s)) = 0"
  shows "runs (vcp_uart_loop P u fuel) s (\<lambda>x t. x = Spin \<or> x = Ok () \<and> (\<exists>zs. vcp_moved view ok u zs s t))"
  using assms(3-6)
proof (induction fuel arbitrary: s)
  case (Suc fuel)
  have tx: "r_pos (view (tx_rbuf s)) < r_cap (view (tx_rbuf s))" using r_wfD(2) [OF Suc.prems(2)] .
  note calls = vcp_moved_calls [where s = s and ok = ok and view = view and u = u, OF Suc.prems(1,2) tx]
  have next': "runs (vcp_uart_loop P u fuel) t (\<lambda>x v. x = Spin \<or> x = Ok () \<and> (\<exists>zs. vcp_moved view ok u zs s v))"
    if t: "vcp_moved view ok u [] s t" for t
  proof -
    have "ok (rx_rbuf t)" "ok (tx_rbuf t)" "r_held (view (rx_rbuf t)) = []" "r_got (view (tx_rbuf t)) = 0"
      using t Suc.prems by (auto simp: vcp_moved_def)
    from Suc.IH [OF this] show ?thesis
      by (rule runs_mono) (use vcp_moved_trans [OF t] in blast)
  qed
  have tx_part: "runs (bindC (hw P (UartCall u IrqTxReady)) (\<lambda>tx_ready.
       bindC (whenC (tx_ready \<noteq> 0) (vcp_uart_tx P u)) (\<lambda>_. vcp_uart_loop P u fuel))) t
     (\<lambda>x v. x = Spin \<or> x = Ok () \<and> (\<exists>zs. vcp_moved view ok u zs s v))"
    if t: "vcp_moved view ok u [] s t" for t
  proof -
    let ?t = "t\<lparr>trace := trace t @ [(UartCall u IrqTxReady, p_hw P (trace t) (UartCall u IrqTxReady))]\<rparr>"
    have ok: "ok (rx_rbuf t)" "ok (tx_rbuf t)" "r_got (view (tx_rbuf t)) = 0"
      using t Suc.prems by (auto simp: vcp_moved_def)
    have "vcp_moved view ok u [] t ?t"
      using ok r_wfD(2) [OF ok(2)] by (intro vcp_moved_calls) simp_all
    then have t': "vcp_moved view ok u [] s ?t" by (rule vcp_moved_trans [OF t])
    have "runs (vcp_uart_tx P u) ?t (\<lambda>x v. x = Ok () \<and> vcp_moved view ok u [] ?t v)"
      using ok by (intro runs_vcp_uart_tx [OF assms(2)]) simp_all
    then have "runs (vcp_uart_tx P u) ?t (\<lambda>x v. x = Ok () \<and> vcp_moved view ok u [] s v)"
      by (rule runs_mono) (use vcp_moved_trans [OF t'] in blast)
    then show ?thesis
      using next' t' by (auto simp: runs_bindC whenC_def elim!: runs_mono)
  qed
  let ?u = "UartIrqUpdate u" and ?p = "UartCall u IrqPending" and ?r = "UartIrqRxReady u"
  define h1 where "h1 = trace s @ [(?u, p_hw P (trace s) ?u)]"
  define h2 where "h2 = h1 @ [(?p, p_hw P h1 ?p)]"
  define h3 where "h3 = h2 @ [(?r, p_hw P h2 ?r)]"
  have m: "vcp_moved view ok u [] s (s\<lparr>trace := h\<rparr>)" if "h \<in> {h1, h2, h3}" for h
    using that by (intro calls) (auto simp: h1_def h2_def h3_def)
  have "runs (vcp_uart_rx P u) (s\<lparr>trace := h3\<rparr>) (\<lambda>x t. x = Spin
      \<or> x = Ok True \<and> vcp_moved view ok u [] (s\<lparr>trace := h3\<rparr>) t
      \<or> x = Ok False \<and> (\<exists>zs. vcp_moved view ok u zs (s\<lparr>trace := h3\<rparr>) t))"
    using Suc.prems by (intro runs_vcp_uart_rx [OF assms(1)]) simp_all
  then have rx: "runs (vcp_uart_rx P u) (s\<lparr>trace := h3\<rparr>) (\<lambda>x t. x = Spin
      \<or> x = Ok True \<and> vcp_moved view ok u [] s t \<or> x = Ok False \<and> (\<exists>zs. vcp_moved view ok u zs s t))"
    by (rule runs_mono) (use vcp_moved_trans [OF m [of h3]] in blast)
  have rest: "runs (bindC (if r \<noteq> 0 then vcp_uart_rx P u else ret True) (\<lambda>go_on.
     if \<not> go_on then ret ()
     else bindC (hw P (UartCall u IrqTxReady)) (\<lambda>tx_ready.
     bindC (whenC (tx_ready \<noteq> 0) (vcp_uart_tx P u)) (\<lambda>_. vcp_uart_loop P u fuel)))) (s\<lparr>trace := h3\<rparr>)
     (\<lambda>x t. x = Spin \<or> x = Ok () \<and> (\<exists>zs. vcp_moved view ok u zs s t))" for r :: int
  proof (cases "r = 0")
    case True
    then show ?thesis using tx_part [OF m [of h3]] by simp
  next
    case False
    then show ?thesis
      apply simp
      apply (rule runs_bindI, rule runs_mono [OF rx])
      using tx_part by auto
  qed
  show ?case
    unfolding vcp_uart_loop.simps
    apply (rule runs_bindI, simp flip: h1_def)
    apply (intro conjI impI)
    using m [of h1] apply blast
    apply (rule runs_bindI, simp flip: h2_def)
    apply (intro conjI impI)
    using m [of h2] apply blast
    apply (rule runs_bindI, simp only: runs_hw outcome.case)
    using rest by (simp flip: h3_def)
qed simp

lemma runs_usb_work_handler:
  assumes "ok (rx_rbuf s)" "fst (p_hw P (trace s) (UsbCall (TransferBusy (vcp_in_ep cfg)))) = 0 \<Longrightarrow> r_got (view (rx_rbuf s)) = 0"
  shows "runs (usb_work_handler P cfg) s (\<lambda>x t. x = Ok () \<and> vcp_same s t \<and> tx_rbuf t = tx_rbuf s
     \<and> (\<exists>a. trace t = trace s @ (UsbCall (TransferBusy (vcp_in_ep cfg)), p_hw P (trace s) (UsbCall (TransferBusy (vcp_in_ep cfg)))) # a
     \<and> ok (rx_rbuf t) \<and> (a = [] \<and> view (rx_rbuf t) = view (rx_rbuf s)
        \<or> (\<exists>len n r. a = [(UsbCall (TransferWrite (vcp_in_ep cfg) (take len (r_data (view (rx_rbuf s))))), r)]
            \<and> fst (p_hw P (trace s) (UsbCall (TransferBusy (vcp_in_ep cfg)))) = 0
            \<and> len \<le> n \<and> n \<le> length (r_data (view (rx_rbuf s)))
            \<and> view (rx_rbuf t) = (view (rx_rbuf s))\<lparr>r_got := n\<rparr>))))"
proof (cases "fst (p_hw P (trace s) (UsbCall (TransferBusy (vcp_in_ep cfg)))) = 0")
  case False
  then show ?thesis
    using assms(1) by (simp add: usb_work_handler_def runs_bindC vcp_same_def)
next
  case idle: True
  let ?v = "view (rx_rbuf s)" and ?b1 = "snd (p_get_claim P (rx_rbuf s) VCP_RING_BUF_SIZE)"
  define n where "n = min VCP_RING_BUF_SIZE (min (length (r_data ?v)) (r_cap ?v - r_pos ?v))"
  define len where "len = (if n mod VCP_BULK_EP_MPS (vcp_high_speed cfg) = 0 then n - 1 else n)"
  note a = get_round [OF assms(1) assms(2) [OF idle] refl refl n_def]
  have n: "n \<le> length (r_data ?v)" unfolding n_def by (simp add: min_le_iff_disj)
  have len: "len \<le> n" by (simp add: len_def)
  have same: "n = 0 \<Longrightarrow> view ?b1 = ?v" using a(3) assms(2) [OF idle] by simp
  show ?thesis
    unfolding usb_work_handler_def
    apply (rule runs_bindI)
    apply (simp add: idle)
    apply (rule runs_bindI, rule runs_on_rx, simp, rule a(1), simp only: outcome.case prod.case)
    apply (simp add: Let_def flip: len_def)
    apply (intro conjI impI)
    using a(2) same apply (simp_all add: vcp_same_def)
    apply (rule runs_bindI, rule runs_on_rx, simp, rule a(4) [OF len], simp only: outcome.case)
    using a(2,3) n len idle by (auto simp: vcp_same_def)
qed

lemma runs_vcp_usb_write_cb:
  assumes "ok (rx_rbuf s)" "n \<le> r_got (view (rx_rbuf s))"
  shows "runs (vcp_usb_write_cb P n) s (\<lambda>x t. x = Ok () \<and> vcp_same s t \<and> tx_rbuf t = tx_rbuf s \<and> (\<exists>a. trace t = trace s @ a
     \<and> a \<in> {[], [(UsbCall WorkSubmit, p_hw P (trace s) (UsbCall WorkSubmit))]}
     \<and> ok (rx_rbuf t) \<and> view (rx_rbuf t) = (view (rx_rbuf s))\<lparr>r_data := drop n (r_data (view (rx_rbuf s))),
         r_pos := (r_pos (view (rx_rbuf s)) + n) mod r_cap (view (rx_rbuf s)), r_got := 0\<rparr>))"
proof -
  let ?b = "snd (p_get_finish P (rx_rbuf s) n)"
  have fin: "rb_get_finish P n (rx_rbuf s) = (Ok 0, ?b)"
    using get_finish [OF assms] by (simp add: rb_get_finish_def)
  show ?thesis
    unfolding vcp_usb_write_cb_def
    apply (rule runs_bindI, rule runs_on_rx, simp, rule fin, simp only: outcome.case)
    using get_finish [OF assms] ok_ops(6) [OF assms(1), of n] by (simp add: runs_bindC vcp_same_def)
qed

text \<open>
  The callback of a transfer from the host, when the host has stored bytes: they are appended, and
  the next transfer starts behind them.
\<close>

lemma vcp_read_next:
  assumes "ok r" "r_held (view r) = []" "r_pos (view r) < r_cap (view r)"
  shows "\<exists>b ptr room. rb_put_claim P VCP_RING_BUF_SIZE r = (Ok (room, ptr), b) \<and> ok b
    \<and> ptr = (r_pos (view r) + length (r_data (view r))) mod r_cap (view r) \<and> ptr + room \<le> r_cap (view r)
    \<and> (\<exists>junk. length junk = room \<and> view b = (view r)\<lparr>r_held := junk\<rparr>)"
proof -
  let ?v = "view r"
  let ?ptr = "(r_pos ?v + length (r_data ?v)) mod r_cap ?v"
  define k where "k = min VCP_RING_BUF_SIZE (min (r_cap ?v - length (r_data ?v)) (r_cap ?v - ?ptr))"
  note room = put_round [OF assms(1,2) refl refl refl k_def]
  have grant: "min VCP_RING_BUF_SIZE (r_put_room ?v) = k"
    using assms(2) k_def by (simp add: r_put_room_def Let_def)
  obtain junk where junk: "length junk = k"
    "view (snd (p_put_claim P r VCP_RING_BUF_SIZE)) = ?v\<lparr>r_held := junk\<rparr>"
    using put_claim_view [OF assms(1), of VCP_RING_BUF_SIZE] grant assms(2) by auto
  have "k \<le> r_cap ?v - ?ptr" unfolding k_def by (simp add: min_le_iff_disj)
  moreover have "?ptr < r_cap ?v" using assms(3) by simp
  ultimately have "?ptr + k \<le> r_cap ?v" by simp
  then show ?thesis
    using room(1) junk ok_ops(3) [OF assms(1), of VCP_RING_BUF_SIZE] by blast
qed

lemma runs_vcp_usb_read_cb:
  assumes "ok (tx_rbuf s)" "length (r_held (view (tx_rbuf s))) = room" "length xs \<le> room" "0 < length xs"
    "ptr = (r_pos (view (tx_rbuf s)) + length (r_data (view (tx_rbuf s)))) mod r_cap (view (tx_rbuf s))"
    "ptr + room \<le> r_cap (view (tx_rbuf s))" "r_got (view (tx_rbuf s)) = 0"
  shows "runs (bindC (on_tx (rb_store P ptr xs)) (\<lambda>_. vcp_usb_read_cb P cfg ep (length xs))) s
    (\<lambda>x t. x = Ok () \<and> vcp_same s t \<and> rx_rbuf t = rx_rbuf s \<and> (\<exists>ptr2 room2 a b junk. trace t = trace s
         @ [(UartCall (vcp_uart cfg) IrqTxEnable, a), (UsbCall (TransferRead ep ptr2 room2), b)]
       \<and> ok (tx_rbuf t) \<and> length junk = room2
       \<and> view (tx_rbuf t) = (view (tx_rbuf s))\<lparr>r_data := r_data (view (tx_rbuf s)) @ xs, r_held := junk\<rparr>
       \<and> ptr2 = (r_pos (view (tx_rbuf t)) + length (r_data (view (tx_rbuf t)))) mod r_cap (view (tx_rbuf t))
       \<and> ptr2 + room2 \<le> r_cap (view (tx_rbuf t))))"
proof -
  let ?v = "view (tx_rbuf s)" and ?b = "p_store P (tx_rbuf s) ptr xs"
  have st: "ok ?b" "view ?b = r_write ?v (length (r_data ?v)) xs"
    using store [OF assms(1), of "length (r_data ?v)" xs ptr] assms(2-6) by simp_all
  have held: "length (r_data ?v) + length (r_held ?v) \<le> r_cap ?v" and pos: "r_pos ?v < r_cap ?v"
    using r_wfD [OF assms(1)] by simp_all
  have v: "view ?b = ?v\<lparr>r_held := xs @ drop (length xs) (r_held ?v)\<rparr>"
    using st(2) assms(2,3) by (simp add: r_write_def Let_def)
  let ?b2 = "snd (p_put_finish P ?b (length xs))"
  have fin: "rb_put_finish P (length xs) ?b = (Ok 0, ?b2)" "ok ?b2"
    "view ?b2 = ?v\<lparr>r_data := r_data ?v @ xs, r_held := []\<rparr>"
    using put_finish [OF st(1), of "length xs"] v ok_ops(4) [OF st(1), of "length xs"]
    by (simp_all add: rb_put_finish_def)
  obtain b3 ptr2 room2 junk where b3: "rb_put_claim P VCP_RING_BUF_SIZE ?b2 = (Ok (room2, ptr2), b3)" "ok b3"
    "ptr2 = (r_pos ?v + length (r_data ?v @ xs)) mod r_cap ?v" "ptr2 + room2 \<le> r_cap ?v"
    "length junk = room2" "view b3 = ?v\<lparr>r_data := r_data ?v @ xs, r_held := junk\<rparr>"
    using vcp_read_next [OF fin(2)] fin(3) pos by auto
  show ?thesis
    unfolding vcp_usb_read_cb_def rb_store_def
    apply (rule runs_bindI, rule runs_on_tx, simp, simp add: modify_def, simp only: outcome.case)
    using assms(4) apply (simp add: whenC_def)
    apply (rule runs_bindI)
    apply (rule runs_bindI, rule runs_on_tx, simp, rule fin(1), simp only: outcome.case)
    apply (simp)
    apply (rule runs_bindI, rule runs_on_tx, simp, rule b3(1), simp only: outcome.case prod.case)
    using b3 by (auto simp: vcp_same_def)
qed

end

end
