(* ===== verification/Vcp_Session.thy ===== *)
theory Vcp_Session
  imports Vcp_Stream
begin

text \<open>
  A session of the virtual COM port: from the configuration of the bus on, its interrupt, its work
  handler and the callbacks of the two transfers run in any order, as long as the bus is neither
  reset nor disconnected.
\<close>

section \<open>Steps\<close>

text \<open>
  Beside the device: the transfer to the host in progress, the pointer and the room of the transfer
  from the host in progress, what the host has received and sent, and whether an interrupt has left
  the receive buffer full.
\<close>

record 'rb vcp_world =
  vw_dev :: "'rb vcp_data"
  vw_in :: "byte list option"
  vw_out :: "(nat \<times> nat) option"
  vw_got :: "byte list"
  vw_gave :: "byte list"
  vw_full :: bool

text \<open>The transfers that have been started.\<close>

fun usb_writes :: "byte \<Rightarrow> hist \<Rightarrow> byte list list" where
  "usb_writes ep [] = []"
| "usb_writes ep ((c, a) # h) =
     (case c of UsbCall (TransferWrite e bs) \<Rightarrow> if e = ep then [bs] else [] | _ \<Rightarrow> []) @ usb_writes ep h"

fun usb_reads :: "byte \<Rightarrow> hist \<Rightarrow> (nat \<times> nat) list" where
  "usb_reads ep [] = []"
| "usb_reads ep ((c, a) # h) =
     (case c of UsbCall (TransferRead e ptr room) \<Rightarrow> if e = ep then [(ptr, room)] else [] | _ \<Rightarrow> []) @ usb_reads ep h"

lemma usb_transfers_append [simp]:
  "usb_writes ep (g @ h) = usb_writes ep g @ usb_writes ep h" "usb_reads ep (g @ h) = usb_reads ep g @ usb_reads ep h"
  by (induction g) auto

text \<open>
  The USB stack knows whether a transfer is in progress, accepts a transfer on an idle endpoint,
  and calls back once for each transfer: after it has sent some of the bytes, or after it has
  stored some bytes where the transfer from the host says.
\<close>

definition busy_ok :: "'rb platform \<Rightarrow> vcp_config \<Rightarrow> 'rb vcp_world \<Rightarrow> bool" where
  "busy_ok P cfg w \<longleftrightarrow>
     (fst (p_hw P (trace (vw_dev w)) (UsbCall (TransferBusy (vcp_in_ep cfg)))) \<noteq> 0) = (vw_in w \<noteq> None)"

inductive vcp_step :: "'rb platform \<Rightarrow> vcp_config \<Rightarrow> 'rb vcp_world \<Rightarrow> 'rb vcp_world \<Rightarrow> bool" for P cfg where
  isr: "vcp_uart_isr P cfg (vw_dev w) = (Ok (), t) \<Longrightarrow>
    vcp_step P cfg w (w\<lparr>vw_dev := t, vw_full := vw_full w \<or> p_space P (rx_rbuf t) = 0\<rparr>)"
| work_idle: "busy_ok P cfg w \<Longrightarrow> usb_work_handler P cfg (vw_dev w) = (Ok (), t) \<Longrightarrow>
    usb_writes (vcp_in_ep cfg) (trace t) = usb_writes (vcp_in_ep cfg) (trace (vw_dev w)) \<Longrightarrow>
    vcp_step P cfg w (w\<lparr>vw_dev := t\<rparr>)"
| work_send: "busy_ok P cfg w \<Longrightarrow> usb_work_handler P cfg (vw_dev w) = (Ok (), t) \<Longrightarrow>
    usb_writes (vcp_in_ep cfg) (trace t) = usb_writes (vcp_in_ep cfg) (trace (vw_dev w)) @ [bs] \<Longrightarrow>
    vcp_step P cfg w (w\<lparr>vw_dev := t, vw_in := Some bs\<rparr>)"
| sent: "vw_in w = Some bs \<Longrightarrow> n \<le> length bs \<Longrightarrow>
    vcp_usb_write_cb P n (vw_dev w) = (Ok (), t) \<Longrightarrow>
    vcp_step P cfg w (w\<lparr>vw_dev := t, vw_in := None, vw_got := vw_got w @ take n bs\<rparr>)"
| received: "vw_out w = Some (ptr, room) \<Longrightarrow> 0 < length xs \<Longrightarrow> length xs \<le> room \<Longrightarrow>
    bindC (on_tx (rb_store P ptr xs)) (\<lambda>_. vcp_usb_read_cb P cfg (vcp_out_ep cfg) (length xs)) (vw_dev w) = (Ok (), t) \<Longrightarrow>
    usb_reads (vcp_out_ep cfg) (trace t) = usb_reads (vcp_out_ep cfg) (trace (vw_dev w)) @ [(ptr2, room2)] \<Longrightarrow>
    vcp_step P cfg w (w\<lparr>vw_dev := t, vw_out := Some (ptr2, room2), vw_gave := vw_gave w @ xs\<rparr>)"
| status: "status \<noteq> USB_DC_RESET \<Longrightarrow> status \<noteq> USB_DC_DISCONNECTED \<Longrightarrow>
    vcp_usb_status_cb P n status (vw_dev w) = (Ok (), t) \<Longrightarrow> vcp_step P cfg w (w\<lparr>vw_dev := t\<rparr>)"

section \<open>The invariant\<close>

definition vcp_rx_inv :: "('rb \<Rightarrow> rview) \<Rightarrow> ('rb \<Rightarrow> bool) \<Rightarrow> 'rb vcp_world \<Rightarrow> bool" where
  "vcp_rx_inv view ok w \<longleftrightarrow> ok (rx_rbuf (vw_dev w)) \<and> r_held (view (rx_rbuf (vw_dev w))) = []
     \<and> (case vw_in w of None \<Rightarrow> r_got (view (rx_rbuf (vw_dev w))) = 0
        | Some bs \<Rightarrow> length bs \<le> r_got (view (rx_rbuf (vw_dev w)))
            \<and> bs = take (length bs) (r_data (view (rx_rbuf (vw_dev w)))))"

definition vcp_tx_inv :: "('rb \<Rightarrow> rview) \<Rightarrow> ('rb \<Rightarrow> bool) \<Rightarrow> 'rb vcp_world \<Rightarrow> bool" where
  "vcp_tx_inv view ok w \<longleftrightarrow> ok (tx_rbuf (vw_dev w)) \<and> r_got (view (tx_rbuf (vw_dev w))) = 0
     \<and> (case vw_out w of None \<Rightarrow> False | Some (ptr, room) \<Rightarrow>
          length (r_held (view (tx_rbuf (vw_dev w)))) = room
          \<and> ptr = (r_pos (view (tx_rbuf (vw_dev w))) + length (r_data (view (tx_rbuf (vw_dev w)))))
               mod r_cap (view (tx_rbuf (vw_dev w)))
          \<and> ptr + room \<le> r_cap (view (tx_rbuf (vw_dev w))))"

text \<open>
  The streams since the trace was \<open>h\<close>: what the serial port delivered is what the host got and
  what is still buffered, but for bytes dropped by an interrupt that found the buffer full; what
  the host gave is what the serial port has taken and what is still buffered.
\<close>

definition vcp_streams :: "('rb \<Rightarrow> rview) \<Rightarrow> uart \<Rightarrow> hist \<Rightarrow> 'rb vcp_world \<Rightarrow> bool" where
  "vcp_streams view u h w \<longleftrightarrow>
     (\<exists>xs. fifo_bytes u (trace (vw_dev w)) = fifo_bytes u h @ xs
        \<and> subseq (vw_got w @ r_data (view (rx_rbuf (vw_dev w)))) xs
        \<and> (\<not> vw_full w \<longrightarrow> vw_got w @ r_data (view (rx_rbuf (vw_dev w))) = xs))
   \<and> (\<exists>ys. uart_sent u (trace (vw_dev w)) = uart_sent u h @ ys
        \<and> vw_gave w = ys @ r_data (view (tx_rbuf (vw_dev w))))"

definition vcp_inv :: "('rb \<Rightarrow> rview) \<Rightarrow> ('rb \<Rightarrow> bool) \<Rightarrow> uart \<Rightarrow> hist \<Rightarrow> 'rb vcp_world \<Rightarrow> bool" where
  "vcp_inv view ok u h w \<longleftrightarrow> vcp_rx_inv view ok w \<and> vcp_tx_inv view ok w \<and> vcp_streams view u h w
     \<and> vcp_configured (vw_dev w)"

lemma vcp_inv_same:
  "tx_rbuf (vw_dev v) = tx_rbuf (vw_dev w) \<Longrightarrow> vw_out v = vw_out w \<Longrightarrow> vcp_tx_inv view ok v = vcp_tx_inv view ok w"
  "rx_rbuf (vw_dev v) = rx_rbuf (vw_dev w) \<Longrightarrow> vw_in v = vw_in w \<Longrightarrow> vcp_rx_inv view ok v = vcp_rx_inv view ok w"
  unfolding vcp_tx_inv_def vcp_rx_inv_def by (simp_all split: option.split)

lemma ring_shift: "k \<le> n \<Longrightarrow> ((p + k) mod c + n - k) mod c = (p + n) mod (c::nat)"
  by (metis Nat.add_diff_assoc mod_add_left_eq add.assoc le_add_diff_inverse)

context ring_buffer
begin

lemma vcp_inv_isr:
  assumes "fifo_ok P (vcp_uart cfg)" "fill_ok P (vcp_uart cfg)" "vcp_inv view ok (vcp_uart cfg) h w"
    "vcp_uart_isr P cfg (vw_dev w) = (Ok (), t)"
  shows "vcp_inv view ok (vcp_uart cfg) h (w\<lparr>vw_dev := t, vw_full := vw_full w \<or> p_space P (rx_rbuf t) = 0\<rparr>)"
proof -
  let ?u = "vcp_uart cfg" and ?s = "vw_dev w"
  let ?rx = "view (rx_rbuf ?s)" and ?tx = "view (tx_rbuf ?s)"
  have inv: "vcp_rx_inv view ok w" "vcp_tx_inv view ok w" "vcp_streams view ?u h w" "vcp_configured ?s"
    using assms(3) by (simp_all add: vcp_inv_def)
  have ok: "ok (rx_rbuf ?s)" "ok (tx_rbuf ?s)" "r_held ?rx = []" "r_got ?tx = 0"
    using inv(1,2) by (simp_all add: vcp_rx_inv_def vcp_tx_inv_def)
  obtain zs where "vcp_moved view ok ?u zs ?s t"
    using runs_vcp_uart_loop [OF assms(1,2) ok, of "p_fuel P"] assms(4)
    by (auto simp: runs_def vcp_uart_isr_def)
  then obtain xs k where m: "ok (rx_rbuf t)" "ok (tx_rbuf t)"
    "view (rx_rbuf t) = ?rx\<lparr>r_data := r_data ?rx @ xs\<rparr>"
    "fifo_bytes ?u (trace t) = fifo_bytes ?u (trace ?s) @ xs @ zs"
    "zs \<noteq> [] \<longrightarrow> length (r_data (view (rx_rbuf t))) = r_cap (view (rx_rbuf t))"
    "k \<le> length (r_data ?tx)"
    "view (tx_rbuf t) = ?tx\<lparr>r_data := drop k (r_data ?tx), r_pos := (r_pos ?tx + k) mod r_cap ?tx\<rparr>"
    "uart_sent ?u (trace t) = uart_sent ?u (trace ?s) @ take k (r_data ?tx)" "vcp_same ?s t"
    unfolding vcp_moved_def by blast
  have full: "zs \<noteq> [] \<Longrightarrow> p_space P (rx_rbuf t) = 0"
    using space_get [OF m(1)] m(3,5) ok(3) by simp
  have "r_got ?rx \<le> length (r_data ?rx)" using r_wfD(3) [OF ok(1)] .
  then have "vcp_rx_inv view ok (w\<lparr>vw_dev := t, vw_full := f\<rparr>)" for f
    using inv(1) m(1,3) by (auto simp: vcp_rx_inv_def split: option.splits)
  moreover have "vcp_tx_inv view ok (w\<lparr>vw_dev := t, vw_full := f\<rparr>)" for f
    using inv(2) m(2,6,7) by (auto simp: vcp_tx_inv_def ring_shift split: option.splits)
  moreover have "vcp_streams view ?u h (w\<lparr>vw_dev := t, vw_full := vw_full w \<or> p_space P (rx_rbuf t) = 0\<rparr>)"
  proof -
    obtain as bs where s: "fifo_bytes ?u (trace ?s) = fifo_bytes ?u h @ as" "subseq (vw_got w @ r_data ?rx) as"
      "\<not> vw_full w \<longrightarrow> vw_got w @ r_data ?rx = as" "uart_sent ?u (trace ?s) = uart_sent ?u h @ bs"
      "vw_gave w = bs @ r_data ?tx"
      using inv(3) by (auto simp: vcp_streams_def)
    have "subseq ((vw_got w @ r_data ?rx) @ xs) (as @ xs @ zs)"
      using s(2) by (intro list_emb_append_mono) (auto intro: list_emb_append_mono)
    then show ?thesis
      unfolding vcp_streams_def using s m(3,4,7,8) full
      by - (rule conjI, rule exI [of _ "as @ xs @ zs"], force, rule exI [of _ "bs @ take k (r_data ?tx)"], simp)
  qed
  ultimately show ?thesis using inv(4) m(9) by (simp add: vcp_inv_def vcp_same_def)
qed

text \<open>A device whose receive side alone has changed, and one whose transmit side alone has.\<close>

lemma vcp_inv_work:
  assumes "vcp_inv view ok u h w" "busy_ok P cfg w" "usb_work_handler P cfg (vw_dev w) = (Ok (), t)"
  shows "usb_writes (vcp_in_ep cfg) (trace t) = usb_writes (vcp_in_ep cfg) (trace (vw_dev w)) \<Longrightarrow>
      vcp_inv view ok u h (w\<lparr>vw_dev := t\<rparr>)"
    "usb_writes (vcp_in_ep cfg) (trace t) = usb_writes (vcp_in_ep cfg) (trace (vw_dev w)) @ [bs] \<Longrightarrow>
      vcp_inv view ok u h (w\<lparr>vw_dev := t, vw_in := Some bs\<rparr>)"
proof -
  let ?s = "vw_dev w" let ?rx = "view (rx_rbuf ?s)"
  have inv: "vcp_rx_inv view ok w" "vcp_tx_inv view ok w" "vcp_streams view u h w" "vcp_configured ?s"
    using assms(1) by (simp_all add: vcp_inv_def)
  have ok: "ok (rx_rbuf ?s)" using inv(1) by (simp add: vcp_rx_inv_def)
  have idle: "fst (p_hw P (trace ?s) (UsbCall (TransferBusy (vcp_in_ep cfg)))) = 0 \<Longrightarrow> vw_in w = None"
    using assms(2) by (auto simp: busy_ok_def)
  then have got: "fst (p_hw P (trace ?s) (UsbCall (TransferBusy (vcp_in_ep cfg)))) = 0 \<Longrightarrow> r_got ?rx = 0"
    using inv(1) by (simp add: vcp_rx_inv_def)
  let ?b = "(UsbCall (TransferBusy (vcp_in_ep cfg)), p_hw P (trace ?s) (UsbCall (TransferBusy (vcp_in_ep cfg))))"
  obtain a where t: "vcp_same ?s t" "tx_rbuf t = tx_rbuf ?s" "trace t = trace ?s @ ?b # a" "ok (rx_rbuf t)"
    and a: "a = [] \<and> view (rx_rbuf t) = ?rx \<or> (\<exists>len n r.
        a = [(UsbCall (TransferWrite (vcp_in_ep cfg) (take len (r_data ?rx))), r)]
        \<and> fst (p_hw P (trace ?s) (UsbCall (TransferBusy (vcp_in_ep cfg)))) = 0
        \<and> len \<le> n \<and> n \<le> length (r_data ?rx) \<and> view (rx_rbuf t) = ?rx\<lparr>r_got := n\<rparr>)"
    using runsD [OF runs_usb_work_handler [where cfg = cfg, OF ok got] assms(3)] by blast
  have tr: "fifo_bytes u (trace t) = fifo_bytes u (trace ?s)" "uart_sent u (trace t) = uart_sent u (trace ?s)"
    using a t(3) by auto
  have data: "r_data (view (rx_rbuf t)) = r_data ?rx" "r_held (view (rx_rbuf t)) = []"
    using a inv(1) by (auto simp: vcp_rx_inv_def)
  have rest: "vcp_tx_inv view ok (w\<lparr>vw_dev := t, vw_in := i\<rparr>)" "vcp_streams view u h (w\<lparr>vw_dev := t, vw_in := i\<rparr>)"
 for i
    using inv(3,4) t(1,2) tr data vcp_inv_same(1) [where v = "w\<lparr>vw_dev := t, vw_in := i\<rparr>" and w = w] inv(2)
    by (simp_all add: vcp_streams_def)
  have conf: "vcp_configured t" using inv(4) t(1) by (simp add: vcp_same_def)
  show "vcp_inv view ok u h (w\<lparr>vw_dev := t\<rparr>)"
    if "usb_writes (vcp_in_ep cfg) (trace t) = usb_writes (vcp_in_ep cfg) (trace ?s)"
  proof -
    have "view (rx_rbuf t) = ?rx" using a that t(3) by auto
    then show ?thesis
      using inv(1) t(4) rest [of "vw_in w"] conf by (simp add: vcp_inv_def vcp_rx_inv_def split: option.splits)
  qed
  show "vcp_inv view ok u h (w\<lparr>vw_dev := t, vw_in := Some bs\<rparr>)"
    if "usb_writes (vcp_in_ep cfg) (trace t) = usb_writes (vcp_in_ep cfg) (trace ?s) @ [bs]"
  proof -
    from a show ?thesis
    proof (elim disjE exE conjE, goal_cases)
      case 1
      then show ?case using that t(3) by simp
    next
      case (2 len n r)
      then have "bs = take len (r_data ?rx)" using that t(3) by simp
      then show ?case
        using 2 data t(4) rest [of "Some bs"] conf by (simp add: vcp_inv_def vcp_rx_inv_def)
    qed
  qed
qed

lemma vcp_inv_sent:
  assumes "vcp_inv view ok u h w" "vw_in w = Some bs" "n \<le> length bs"
    "vcp_usb_write_cb P n (vw_dev w) = (Ok (), t)"
  shows "vcp_inv view ok u h (w\<lparr>vw_dev := t, vw_in := None, vw_got := vw_got w @ take n bs\<rparr>)"
proof -
  let ?s = "vw_dev w" let ?rx = "view (rx_rbuf ?s)"
  have inv: "vcp_rx_inv view ok w" "vcp_tx_inv view ok w" "vcp_streams view u h w" "vcp_configured ?s"
    using assms(1) by (simp_all add: vcp_inv_def)
  have ok: "ok (rx_rbuf ?s)" "r_held ?rx = []" and got: "length bs \<le> r_got ?rx" and bs: "bs = take (length bs) (r_data ?rx)"
    using inv(1) assms(2) by (simp_all add: vcp_rx_inv_def)
  have n: "n \<le> r_got ?rx" using assms(3) got by simp
  obtain a where t: "vcp_same ?s t" "tx_rbuf t = tx_rbuf ?s" "trace t = trace ?s @ a" "ok (rx_rbuf t)"
    "a \<in> {[], [(UsbCall WorkSubmit, p_hw P (trace ?s) (UsbCall WorkSubmit))]}"
    "view (rx_rbuf t) = ?rx\<lparr>r_data := drop n (r_data ?rx), r_pos := (r_pos ?rx + n) mod r_cap ?rx, r_got := 0\<rparr>"
    using runsD [OF runs_vcp_usb_write_cb [OF ok(1) n] assms(4)] by blast
  have "take n bs = take n (r_data ?rx)"
    using assms(3) by (subst bs) (simp add: min_def)
  then have "(vw_got w @ take n bs) @ drop n (r_data ?rx) = vw_got w @ r_data ?rx" by simp
  moreover have "fifo_bytes u (trace t) = fifo_bytes u (trace ?s)" "uart_sent u (trace t) = uart_sent u (trace ?s)"
    using t(3,5) by auto
  ultimately have "vcp_streams view u h (w\<lparr>vw_dev := t, vw_in := None, vw_got := vw_got w @ take n bs\<rparr>)"
    using inv(3) t(2,6) by (simp add: vcp_streams_def)
  moreover have "vcp_tx_inv view ok (w\<lparr>vw_dev := t, vw_in := None, vw_got := vw_got w @ take n bs\<rparr>)"
    using inv(2) t(2) by (subst vcp_inv_same(1) [where w = w]) simp_all
  moreover have "vcp_rx_inv view ok (w\<lparr>vw_dev := t, vw_in := None, vw_got := vw_got w @ take n bs\<rparr>)"
    using t(4,6) ok(2) by (simp add: vcp_rx_inv_def)
  ultimately show ?thesis
    using inv(4) t(1) by (simp add: vcp_inv_def vcp_same_def)
qed

lemma vcp_inv_received:
  assumes "vcp_inv view ok u h w" "vw_out w = Some (ptr, room)" "0 < length xs" "length xs \<le> room"
    "bindC (on_tx (rb_store P ptr xs)) (\<lambda>_. vcp_usb_read_cb P cfg (vcp_out_ep cfg) (length xs)) (vw_dev w) = (Ok (), t)"
    "usb_reads (vcp_out_ep cfg) (trace t) = usb_reads (vcp_out_ep cfg) (trace (vw_dev w)) @ [(ptr2, room2)]"
  shows "vcp_inv view ok u h (w\<lparr>vw_dev := t, vw_out := Some (ptr2, room2), vw_gave := vw_gave w @ xs\<rparr>)"
proof -
  let ?s = "vw_dev w" let ?tx = "view (tx_rbuf ?s)"
  have inv: "vcp_rx_inv view ok w" "vcp_tx_inv view ok w" "vcp_streams view u h w" "vcp_configured ?s"
    using assms(1) by (simp_all add: vcp_inv_def)
  have pre: "ok (tx_rbuf ?s)" "length (r_held ?tx) = room" "ptr = (r_pos ?tx + length (r_data ?tx)) mod r_cap ?tx"
    "ptr + room \<le> r_cap ?tx" "r_got ?tx = 0"
    using inv(2) assms(2) by (simp_all add: vcp_tx_inv_def)
  obtain ptr3 room3 a b junk where t: "vcp_same ?s t" "rx_rbuf t = rx_rbuf ?s"
    "trace t = trace ?s @ [(UartCall (vcp_uart cfg) IrqTxEnable, a), (UsbCall (TransferRead (vcp_out_ep cfg) ptr3 room3), b)]"
    "ok (tx_rbuf t)" "length junk = room3" "view (tx_rbuf t) = ?tx\<lparr>r_data := r_data ?tx @ xs, r_held := junk\<rparr>"
    "ptr3 = (r_pos (view (tx_rbuf t)) + length (r_data (view (tx_rbuf t)))) mod r_cap (view (tx_rbuf t))"
    "ptr3 + room3 \<le> r_cap (view (tx_rbuf t))"
    using runs_vcp_usb_read_cb [OF pre(1,2) assms(4,3) pre(3,4,5), of cfg "vcp_out_ep cfg", THEN runsD, OF assms(5)]
    by blast
  have out: "ptr2 = ptr3" "room2 = room3" using assms(6) t(3) by simp_all
  have "fifo_bytes u (trace t) = fifo_bytes u (trace ?s)" "uart_sent u (trace t) = uart_sent u (trace ?s)"
    using t(3) by auto
  then have "vcp_streams view u h (w\<lparr>vw_dev := t, vw_out := Some (ptr2, room2), vw_gave := vw_gave w @ xs\<rparr>)"
    using inv(3) t(2,6) by (simp add: vcp_streams_def)
  moreover have "vcp_rx_inv view ok (w\<lparr>vw_dev := t, vw_out := Some (ptr2, room2), vw_gave := vw_gave w @ xs\<rparr>)"
    using inv(1) t(2) by (subst vcp_inv_same(2) [where w = w]) simp_all
  moreover have "vcp_tx_inv view ok (w\<lparr>vw_dev := t, vw_out := Some (ptr2, room2), vw_gave := vw_gave w @ xs\<rparr>)"
    using t(4-8) pre(5) out by (simp add: vcp_tx_inv_def)
  ultimately show ?thesis
    using inv(4) t(1) by (simp add: vcp_inv_def vcp_same_def)
qed

lemma vcp_inv_status:
  assumes "vcp_inv view ok u h w" "status \<noteq> USB_DC_RESET" "status \<noteq> USB_DC_DISCONNECTED"
    "vcp_usb_status_cb P n status (vw_dev w) = (Ok (), t)"
  shows "t = vw_dev w"
proof -
  have "vcp_configured (vw_dev w)" using assms(1) by (simp add: vcp_inv_def)
  then show ?thesis
    using assms(2-4)
    by (auto simp: vcp_usb_status_cb_def vcp_is_configured_def bindC_def gets_def
      split: option.splits usb_dc_status.splits)
qed

lemma vcp_step_inv:
  assumes "fifo_ok P (vcp_uart cfg)" "fill_ok P (vcp_uart cfg)" "vcp_step P cfg w w'"
    "vcp_inv view ok (vcp_uart cfg) h w"
  shows "vcp_inv view ok (vcp_uart cfg) h w'"
  using assms(3,4)
proof (cases rule: vcp_step.cases)
  case (status st n t)
  then have "t = vw_dev w" using vcp_inv_status assms(4) by blast
  then show ?thesis using status(1) assms(4) by simp
qed (simp_all add: assms(4) vcp_inv_isr [OF assms(1,2)] vcp_inv_work vcp_inv_sent vcp_inv_received)

text \<open>The configuration of the bus starts a session.\<close>

lemma runs_vcp_configured:
  assumes "ok (rx_rbuf s)" "ok (tx_rbuf s)" "\<not> vcp_configured s" "dev_from_usb_cfg n (vcp_devlist s) = Some cfg"
  shows "runs (vcp_usb_status_cb P n USB_DC_CONFIGURED) s (\<lambda>x t. x = Ok () \<and> vcp_configured t
    \<and> vcp_devlist t = vcp_devlist s \<and> ok (rx_rbuf t) \<and> ok (tx_rbuf t)
    \<and> r_data (view (rx_rbuf t)) = [] \<and> r_idle (view (rx_rbuf t))
    \<and> r_data (view (tx_rbuf t)) = [] \<and> r_got (view (tx_rbuf t)) = 0 \<and> r_pos (view (tx_rbuf t)) = 0
    \<and> r_cap (view (tx_rbuf t)) = r_cap (view (tx_rbuf s))
    \<and> (\<exists>a b c room. length (r_held (view (tx_rbuf t))) = room \<and> room \<le> r_cap (view (tx_rbuf t))
        \<and> trace t = trace s @ [(UsbCall WorkInit, a), (UartIrqRxEnable (vcp_uart cfg), b),
             (UsbCall (TransferRead (vcp_out_ep cfg) 0 room), c)]))"
proof -
  let ?r = "p_reset P (rx_rbuf s)" and ?t = "p_reset P (tx_rbuf s)"
  have r: "ok ?r" "view ?r = \<lparr>r_cap = r_cap (view (rx_rbuf s)), r_pos = 0, r_data = [], r_got = 0, r_held = []\<rparr>"
    and t: "ok ?t" "view ?t = \<lparr>r_cap = r_cap (view (tx_rbuf s)), r_pos = 0, r_data = [], r_got = 0, r_held = []\<rparr>"
    using assms(1,2) reset_view by simp_all
  have "0 < r_cap (view (tx_rbuf s))" using r_wfD(1) [OF assms(2)] .
  then obtain b ptr room junk where b: "rb_put_claim P VCP_RING_BUF_SIZE ?t = (Ok (room, ptr), b)" "ok b"
    "ptr = 0" "ptr + room \<le> r_cap (view (tx_rbuf s))" "length junk = room" "view b = (view ?t)\<lparr>r_held := junk\<rparr>"
    using vcp_read_next [OF t(1)] t(2) by auto
  show ?thesis
    unfolding vcp_usb_status_cb_def vcp_is_configured_def vcp_configure_def vcp_usb_read_cb_def rb_reset_def
    using assms(3,4)
    apply (simp add: runs_bindC on_rx_def on_tx_def modify_def)
    apply (simp add: runs_def bindC_def gets_def hwv_eq ret_def modify_def on_rx_def on_tx_def b(1))
    using b r t by (simp add: r_idle_def)
qed

end

section \<open>Properties\<close>

text \<open>
  The start of a session: the device is configured, its buffers are empty, and one transfer from
  the host has been started.
\<close>

definition vcp_start :: "'rb platform \<Rightarrow> nat \<Rightarrow> vcp_config \<Rightarrow> 'rb vcp_data \<Rightarrow> 'rb vcp_world \<Rightarrow> bool" where
  "vcp_start P n cfg s w \<longleftrightarrow> \<not> vcp_configured s \<and> dev_from_usb_cfg n (vcp_devlist s) = Some cfg
     \<and> vcp_usb_status_cb P n USB_DC_CONFIGURED s = (Ok (), vw_dev w)
     \<and> vw_in w = None \<and> vw_got w = [] \<and> vw_gave w = [] \<and> \<not> vw_full w
     \<and> (\<exists>ptr room. vw_out w = Some (ptr, room)
          \<and> usb_reads (vcp_out_ep cfg) (trace (vw_dev w)) = usb_reads (vcp_out_ep cfg) (trace s) @ [(ptr, room)])"

lemma vcp_start_inv:
  assumes "ring_buffer P view ok" "ok (rx_rbuf s)" "ok (tx_rbuf s)" "vcp_start P n cfg s w"
  shows "vcp_inv view ok (vcp_uart cfg) (trace s) w"
proof -
  have s: "\<not> vcp_configured s" "dev_from_usb_cfg n (vcp_devlist s) = Some cfg"
    "vcp_usb_status_cb P n USB_DC_CONFIGURED s = (Ok (), vw_dev w)"
    "vw_in w = None" "vw_got w = []" "vw_gave w = []" "\<not> vw_full w"
    using assms(4) by (simp_all add: vcp_start_def)
  obtain ptr room where out: "vw_out w = Some (ptr, room)"
    "usb_reads (vcp_out_ep cfg) (trace (vw_dev w)) = usb_reads (vcp_out_ep cfg) (trace s) @ [(ptr, room)]"
    using assms(4) by (auto simp: vcp_start_def)
  note start = runsD [OF ring_buffer.runs_vcp_configured [OF assms(1-3) s(1,2)] s(3)]
  obtain a b c room' where tr: "length (r_held (view (tx_rbuf (vw_dev w)))) = room'" "room' \<le> r_cap (view (tx_rbuf (vw_dev w)))"
    "trace (vw_dev w) = trace s @ [(UsbCall WorkInit, a), (UartIrqRxEnable (vcp_uart cfg), b),
       (UsbCall (TransferRead (vcp_out_ep cfg) 0 room'), c)]"
    using start by blast
  have "ptr = 0" "room = room'" using out(2) tr(3) by simp_all
  then show ?thesis
    using start tr s(4-7) out(1)
    by (simp add: vcp_inv_def vcp_rx_inv_def vcp_tx_inv_def vcp_streams_def r_idle_def)
qed


end
