(* ===== verification/Vcp_Control.thy ===== *)
theory Vcp_Control
  imports Vcp_Session
begin

text \<open>
  The virtual COM port seen from its control side: the end of its interrupt and of its reset, the
  line coding, and what an empty transfer from the host does.
\<close>

section \<open>The interrupt ends\<close>

definition polled :: "uart \<Rightarrow> nat \<Rightarrow> ('z traced_scheme) \<Rightarrow> bool" where
  "polled u n s \<longleftrightarrow> n \<le> irq_polls u (trace s)"

lemma polled_update [simp]:
  "polled u n (s\<lparr>rx_rbuf := b\<rparr>) = polled u n s" "polled u n (s\<lparr>tx_rbuf := b\<rparr>) = polled u n s"
  by (simp_all add: polled_def)

lemma ends_polled_calls [ends_intros]:
  "ends (polled u n) (hw P c) (polled u n)" "ends (polled u n) (hwv P c) (polled u n)"
  "ends (polled u n) (hw_full P c) (polled u n)"
  by (auto simp: ends_def polled_def hw_eq hwv_eq hw_full_def)

lemma ends_polled_rb [ends_intros]:
  "safe False (\<lambda>_. True) m \<Longrightarrow> ends (polled u n) (on_rx m) (polled u n)"
  "safe False (\<lambda>_. True) m \<Longrightarrow> ends (polled u n) (on_tx m) (polled u n)"
  by (auto simp: ends_def polled_def on_rx_def on_tx_def safe_def)

lemma uart_drop_trace: "\<exists>g. trace (snd (uart_drop P u fuel s)) = trace s @ g"
proof (induction fuel arbitrary: s)
  case (Suc fuel)
  show ?case
    unfolding uart_drop.simps bindC_simps(1) [OF hw_eq]
    using Suc.IH [of "s\<lparr>trace := trace s @ [(UartFifoRead u 1, p_hw P (trace s) (UartFifoRead u 1))]\<rparr>"]
    by auto
qed simp

lemma ends_uart_drop [ends_intros]:
  assumes "fifo_drained P u m" "m < fuel"
  shows "ends (polled u n) (uart_drop P u fuel) (polled u n)"
proof (rule endsI)
  fix s :: "'b traced_scheme" assume "polled u n s"
  show "fst (uart_drop P u fuel s) \<noteq> Spin"
    using uart_drop_ends [OF assms(1), of fuel s] assms(2) by auto
next
  fix s :: "'b traced_scheme" and a t assume "polled u n s" "uart_drop P u fuel s = (Ok a, t)"
  then show "polled u n t"
    using uart_drop_trace [of P u fuel s] by (auto simp: polled_def)
qed

lemma ends_vcp_uart_parts:
  assumes "fifo_drained P u m" "m < p_fuel P"
  shows "ends (polled u n) (vcp_uart_rx P u) (polled u n)" "ends (polled u n) (vcp_uart_tx P u) (polled u n)"
  unfolding vcp_uart_rx_def vcp_uart_tx_def fatal_check_def
  by (rule ends_same ends_if ends_prod ends_stop ends_polled_calls ends_polled_rb ends_uart_drop [OF assms] safe_rb)+

lemma ends_vcp_uart_loop:
  assumes "fifo_drained P u m" "m < p_fuel P" "irq_quiet P u n" "n < k + fuel" "0 < fuel"
  shows "ends (polled u k) (vcp_uart_loop P u fuel) (\<lambda>_. True)"
  using assms(4,5)
proof (induction fuel arbitrary: k)
  case (Suc fuel)
  define body :: "('a, unit) vcp_cmd" where "body = bindC (hw P (UartIrqRxReady u)) (\<lambda>rx_ready.
     bindC (if rx_ready \<noteq> 0 then vcp_uart_rx P u else ret True) (\<lambda>go_on.
     if \<not> go_on then ret ()
     else bindC (hw P (UartCall u IrqTxReady)) (\<lambda>tx_ready.
     bindC (whenC (tx_ready \<noteq> 0) (vcp_uart_tx P u)) (\<lambda>_.
     vcp_uart_loop P u fuel))))"
  let ?I = "polled u k" and ?J = "polled u (Suc k)" and ?c = "UartCall u IrqPending"
  note parts = ends_vcp_uart_parts [OF assms(1,2), of "Suc k"]
  have body: "ends ?J body (\<lambda>_. True)" if "k < n"
  proof -
    have tail: "ends ?J (vcp_uart_loop P u fuel) (\<lambda>_. True)"
      using Suc that by (cases fuel) simp_all
    show ?thesis
      unfolding body_def
      by (rule ends_bindC [OF ends_polled_calls(1)], rule ends_bindC [where J = ?J],
          rule ends_if, rule parts(1), rule ends_same(2), rule ends_if, rule ends_ret, rule TrueI,
          rule ends_bindC [OF ends_polled_calls(1)], rule ends_bindC [where J = ?J],
          rule ends_same(4), rule parts(2), rule tail)
  qed
  have pend: "ends ?I (bindC (hw P ?c) (\<lambda>pending. if pending = 0 then ret () else body)) (\<lambda>_. True)"
  proof (rule endsI)
    fix s :: "'a vcp_data" assume s: "?I s"
    let ?s = "s\<lparr>trace := trace s @ [(?c, p_hw P (trace s) ?c)]\<rparr>"
    have "?J ?s" using s by (simp add: polled_def)
    moreover have "fst (p_hw P (trace s) ?c) \<noteq> 0 \<Longrightarrow> k < n"
      using assms(3) s unfolding irq_quiet_def polled_def by (meson le_trans not_le)
    ultimately show "fst (bindC (hw P ?c) (\<lambda>pending. if pending = 0 then ret () else body) s) \<noteq> Spin"
      using endsD(1) [OF body] by (simp add: bindC_simps(1) [OF hw_eq])
  qed simp
  show ?case
    unfolding vcp_uart_loop.simps body_def [symmetric]
    by (rule ends_bindC [OF ends_polled_calls(1)], rule ends_if, rule ends_ret, rule TrueI, rule pend)
qed simp


definition vcp_config0 :: vcp_config where
  "vcp_config0 = \<lparr>vcp_uart = UART_VCP 0, vcp_usb_cfg = 7, vcp_intf = 2, vcp_out_ep = 0x01, vcp_in_ep = 0x81,
     vcp_high_speed = False\<rparr>"

definition vcp_sample :: "aring vcp_data" where
  "vcp_sample = \<lparr>trace = [], vcp_configured = False, rx_rbuf = a_new 8, tx_rbuf = a_new 8,
     vcp_devlist = [vcp_config0]\<rparr>"

lemma vcp_sample_simps [simp]:
  "trace vcp_sample = []" "\<not> vcp_configured vcp_sample" "rx_rbuf vcp_sample = a_new 8" "tx_rbuf vcp_sample = a_new 8"
  "vcp_devlist vcp_sample = [vcp_config0]" "dev_from_usb_cfg 7 [vcp_config0] = Some vcp_config0"
  "dev_from_usb_intf 2 [vcp_config0] = Some vcp_config0" "vcp_uart vcp_config0 = UART_VCP 0"
  by (simp_all add: vcp_sample_def dev_from_usb_cfg_def dev_from_usb_intf_def vcp_config0_def)

text \<open>A platform whose serial port delivers two lists of bytes.\<close>

definition vcp_platform :: "aring platform" where
  "vcp_platform = array_platform (serial_hw [[1, 2, 3], [4]]) 8"

lemma vcp_platform_ok [simp]:
  "ring_buffer vcp_platform a_view a_ok" "fifo_ok vcp_platform u" "fill_ok vcp_platform u"
  "fifo_drained vcp_platform u 2" "irq_quiet vcp_platform u 2" "p_fuel vcp_platform = 8"
proof -
  have hw: "p_hw vcp_platform = serial_hw [[1, 2, 3], [4]]" by (simp add: vcp_platform_def array_platform_def)
  show "fifo_ok vcp_platform u" "fifo_drained vcp_platform u 2" "irq_quiet vcp_platform u 2"
    using serial_hw_laws [OF hw, of u] by (simp_all add: numeral_2_eq_2)
  show "fill_ok vcp_platform u" by (simp add: fill_ok_def hw serial_hw_def)
  show "ring_buffer vcp_platform a_view a_ok" "p_fuel vcp_platform = 8"
    by (simp_all add: vcp_platform_def arr.ring_buffer_axioms) (simp add: array_platform_def)
qed



section \<open>Reset\<close>

text \<open>The work queue has let go of the work after it has been asked to cancel it \<open>n\<close> times.\<close>

fun work_cancels :: "hist \<Rightarrow> nat" where
  "work_cancels [] = 0"
| "work_cancels ((c, a) # h) = (if c = UsbCall WorkCancel then 1 else 0) + work_cancels h"

definition cancel_ok :: "'rb platform \<Rightarrow> nat \<Rightarrow> bool" where
  "cancel_ok P n \<longleftrightarrow> (\<forall>h. n \<le> work_cancels h \<longrightarrow> fst (p_hw P h (UsbCall WorkCancel)) = 0)"

lemma work_cancels_append [simp]: "work_cancels (g @ h) = work_cancels g + work_cancels h"
  by (induction g) auto

lemma vcp_cancel_work_ends:
  assumes "cancel_ok P n" "n < work_cancels (trace s) + fuel" "0 < fuel"
  shows "\<exists>h. vcp_cancel_work P fuel s = (Ok (), s\<lparr>trace := h\<rparr>)"
  using assms(2,3)
proof (induction fuel arbitrary: s)
  case (Suc fuel)
  let ?c = "UsbCall WorkCancel"
  let ?t = "s\<lparr>trace := trace s @ [(?c, p_hw P (trace s) ?c)]\<rparr>"
  show ?case
  proof (cases "fst (p_hw P (trace s) ?c) = 0")
    case True
    then show ?thesis
      by (auto simp: bindC_simps(1) [OF hw_eq] ret_def intro: exI [of _ "trace ?t"])
  next
    case False
    then have less: "work_cancels (trace s) < n"
      using assms(1) unfolding cancel_ok_def by (meson not_le)
    let ?d = "SleepMillis 1"
    let ?u = "?t\<lparr>trace := trace ?t @ [(?d, p_hw P (trace ?t) ?d)]\<rparr>"
    obtain h where "vcp_cancel_work P fuel ?u = (Ok (), ?u\<lparr>trace := h\<rparr>)"
      using Suc.IH [of ?u] Suc.prems less by auto
    moreover have "vcp_cancel_work P (Suc fuel) s = vcp_cancel_work P fuel ?u"
      using False by (simp add: bindC_simps(1) [OF hw_eq] bindC_simps(1) [OF hwv_eq])
    ultimately show ?thesis by auto
  qed
qed simp

text \<open>
  C18: When the bus is reset or disconnected, the virtual COM port always gets to its initial
  state, provided the work queue lets go of its work: not configured, both buffers empty with no
  claim open, and the serial port set to 115200 baud, 8N1, as the last call; whatever it was doing
  before.\<close>

theorem vcp_bus_reset:
  assumes "ring_buffer P view ok" "cancel_ok P n" "n < p_fuel P" "ok (rx_rbuf s)" "ok (tx_rbuf s)"
    and "dev_from_usb_cfg k (vcp_devlist s) = Some cfg" "status \<in> {USB_DC_RESET, USB_DC_DISCONNECTED}"
  shows "\<exists>t h a. vcp_usb_status_cb P k status s = (Ok (), t) \<and> \<not> vcp_configured t
    \<and> r_data (view (rx_rbuf t)) = [] \<and> r_idle (view (rx_rbuf t))
    \<and> r_data (view (tx_rbuf t)) = [] \<and> r_idle (view (tx_rbuf t)) \<and> vcp_devlist t = vcp_devlist s
    \<and> trace t = h @ [(UartCall (vcp_uart cfg) (ConfigureLine 115200 0 1 3 0), a)]"
proof -
  let ?u = "vcp_uart cfg"
  have bufs: "ok (p_reset P (rx_rbuf s))" "r_data (view (p_reset P (rx_rbuf s))) = []" "r_idle (view (p_reset P (rx_rbuf s)))"
    "ok (p_reset P (tx_rbuf s))" "r_data (view (p_reset P (tx_rbuf s))) = []" "r_idle (view (p_reset P (tx_rbuf s)))"
    using ring_buffer.ok_ops(7) [OF assms(1)] ring_buffer.reset_view [OF assms(1)] assms(4,5)
    by (simp_all add: r_idle_def)
  define h1 where "h1 = trace s @ [(UartIrqRxDisable ?u, p_hw P (trace s) (UartIrqRxDisable ?u))]"
  define h2 where "h2 = h1 @ [(UartIrqTxDisable ?u, p_hw P h1 (UartIrqTxDisable ?u))]"
  define u where "u = s\<lparr>vcp_configured := False, trace := h2, rx_rbuf := p_reset P (rx_rbuf s), tx_rbuf := p_reset P (tx_rbuf s)\<rparr>"
  obtain h where h: "vcp_cancel_work P (p_fuel P) u = (Ok (), u\<lparr>trace := h\<rparr>)"
    using vcp_cancel_work_ends [OF assms(2), of u "p_fuel P"] assms(3) by auto
  let ?c = "UartCall ?u (ConfigureLine 115200 0 1 3 0)"
  define t where "t = u\<lparr>trace := h @ [(?c, p_hw P h ?c)]\<rparr>"
  have "vcp_reset P cfg s = (Ok (fst (p_hw P h ?c)), t)"
    using h unfolding vcp_reset_def
    by (simp add: bindC_def modify_def hwv_eq hw_eq on_rx_def on_tx_def rb_reset_def uart_cfg_defs t_def u_def
      del: append_assoc flip: h1_def h2_def)
  then have "vcp_usb_status_cb P k status s = (Ok (), t)"
    using assms(6,7) by (auto simp: vcp_usb_status_cb_def bindC_def gets_def ret_def)
  then show ?thesis
    using bufs by (intro exI [of _ t] exI [of _ h] exI [of _ "p_hw P h ?c"]) (simp add: t_def u_def)
qed

lemma vcp_bus_reset_witness:
  "\<exists>t h a. vcp_usb_status_cb vcp_platform 7 USB_DC_RESET vcp_sample = (Ok (), t) \<and> \<not> vcp_configured t
    \<and> trace t = h @ [(UartCall (UART_VCP 0) (ConfigureLine 115200 0 1 3 0), a)]"
proof -
  have "cancel_ok vcp_platform 0"
    by (simp add: cancel_ok_def vcp_platform_def array_platform_def serial_hw_def)
  from vcp_bus_reset [OF vcp_platform_ok(1) this, of vcp_sample 7 vcp_config0 USB_DC_RESET]
  show ?thesis by auto
qed

section \<open>Line coding\<close>

text \<open>
  The configuration a serial port has been given last, as the bytes of \<open>struct uart_config\<close>, and
  the law of its driver: it answers with them.
\<close>

fun uart_line :: "uart \<Rightarrow> hist \<Rightarrow> byte list option" where
  "uart_line u [] = None"
| "uart_line u ((c, a) # h) = (case uart_line u h of Some l \<Rightarrow> Some l | None \<Rightarrow>
     (case c of UartCall v (ConfigureLine baud parity stop bits flow) \<Rightarrow>
        if v = u \<and> 0 \<le> fst a then Some (sys_put_le32 baud @ [parity, stop, bits, flow]) else None
      | _ \<Rightarrow> None))"

definition line_ok :: "'rb platform \<Rightarrow> uart \<Rightarrow> bool" where
  "line_ok P u \<longleftrightarrow> (\<forall>h l. uart_line u h = Some l \<longrightarrow> snd (p_hw P h (UartCall u ConfigGet)) = l)"

lemma uart_line_append:
  "uart_line u (g @ h) = (case uart_line u h of Some l \<Rightarrow> Some l | None \<Rightarrow> uart_line u g)"
  by (induction g) (auto split: option.splits)

definition setup_packet :: "bool \<Rightarrow> byte \<Rightarrow> u16 \<Rightarrow> usb_setup_packet" where
  "setup_packet to_host r i = \<lparr>bmRequestType = (if to_host then 0xA1 else 0x21), bRequest = r, wValue = 0, wIndex = i\<rparr>"

lemma setup_packet_simps [simp]:
  "usb_reqtype_is_to_device (setup_packet True r i) = False" "usb_reqtype_is_to_device (setup_packet False r i) = True"
  "bRequest (setup_packet b r i) = r" "wIndex (setup_packet b r i) = i"
  by (simp_all add: setup_packet_def usb_reqtype_is_to_device_def bit_numeral_rec)

lemmas line_defs = SET_LINE_CODING_def GET_LINE_CODING_def SET_CONTROL_LINE_STATE_def
  uart_of_usb_data_bits_def usb_of_uart_data_bits_def uart_cfg_defs

text \<open>
  C17: A line coding that the serial port accepts is read back byte for byte: setting a coding with
  5 to 8 data bits and then getting it answers the same seven bytes, whatever the rate, the format
  and the parity are.\<close>

theorem line_coding_round_trip:
  assumes "line_ok P (vcp_uart cfg)" "dev_from_usb_intf (ucast (i AND 0xFF)) (vcp_devlist s) = Some cfg"
    and "length coding = 7" "coding ! 6 \<in> {5, 6, 7, 8}"
    and "vcp_usb_class_handle_req P (setup_packet False SET_LINE_CODING i) coding s = (Ok r, t)"
  shows "\<exists>u. vcp_usb_class_handle_req P (setup_packet True GET_LINE_CODING i) [] t = (Ok (0, coding), u)"
proof -
  let ?u = "vcp_uart cfg"
  obtain bits where bits: "uart_of_usb_data_bits (coding ! 6) = Some bits" "usb_of_uart_data_bits bits = Some (coding ! 6)"
    using assms(4) by (auto simp: line_defs)
  let ?c = "UartCall ?u (ConfigureLine (sys_get_le32 (take 4 coding)) (coding ! 5) (coding ! 4 + 1) bits UART_CFG_FLOW_CTRL_NONE)"
  have t: "t = s\<lparr>trace := trace s @ [(?c, p_hw P (trace s) ?c)]\<rparr>" "0 \<le> fst (p_hw P (trace s) ?c)"
    using assms(2,5) bits(1)
    by (auto simp: vcp_usb_class_handle_req_def bindC_def gets_def hw_eq fail_def ret_def split: if_splits)
  have "uart_line ?u (trace t) = Some (sys_put_le32 (sys_get_le32 (take 4 coding))
      @ [coding ! 5, coding ! 4 + 1, bits, UART_CFG_FLOW_CTRL_NONE])"
    using t by (simp add: uart_line_append)
  then have conf: "snd (p_hw P (trace t) (UartCall ?u ConfigGet))
      = take 4 coding @ [coding ! 5, coding ! 4 + 1, bits, UART_CFG_FLOW_CTRL_NONE]"
    using assms(1,3) by (simp add: line_ok_def)
  have seven: "take 4 coding @ [coding ! 4, coding ! 5, coding ! 6] = coding"
    using assms(3) by (auto intro!: nth_equalityI simp: nth_append less_Suc_eq numeral_eq_Suc)
  have "dev_from_usb_intf (ucast (i AND 0xFF)) (vcp_devlist t) = Some cfg" using assms(2) t by simp
  then show ?thesis
    using conf bits(2) seven assms(3)
    by (auto simp: vcp_usb_class_handle_req_def bindC_def gets_def hw_full_def ret_def nth_append split: prod.split)
qed

definition line_hw :: "hist \<Rightarrow> hw_call \<Rightarrow> answer" where
  "line_hw h c = (case c of UartCall u ConfigGet \<Rightarrow> (case uart_line u h of Some l \<Rightarrow> (0, l) | None \<Rightarrow> (0, []))
     | _ \<Rightarrow> (0, []))"

lemma line_coding_round_trip_witness:
  "\<exists>t u. vcp_usb_class_handle_req (array_platform line_hw 0) (setup_packet False SET_LINE_CODING 2)
      [0x80, 0x25, 0, 0, 2, 1, 7] vcp_sample = (Ok (0, []), t)
    \<and> vcp_usb_class_handle_req (array_platform line_hw 0) (setup_packet True GET_LINE_CODING 2) [] t
      = (Ok (0, [0x80, 0x25, 0, 0, 2, 1, 7]), u)"
proof -
  let ?P = "array_platform line_hw 0"
  have law: "line_ok ?P (vcp_uart vcp_config0)"
    by (auto simp: line_ok_def array_platform_def line_hw_def)
  obtain t where t: "vcp_usb_class_handle_req ?P (setup_packet False SET_LINE_CODING 2)
      [0x80, 0x25, 0, 0, 2, 1, 7] vcp_sample = (Ok (0, []), t)"
    by (simp add: vcp_usb_class_handle_req_def bindC_def gets_def hw_eq ret_def line_defs array_platform_def line_hw_def)
  show ?thesis
    using line_coding_round_trip [OF law _ _ _ t] t by auto
qed

section \<open>Empty transfers\<close>

text \<open>
  C34: A transfer from the host that ends with no bytes, as after a zero-length packet, misplaces
  what follows.  Its callback claims more room without giving back the room it has: when the first
  claim covers all free room, the next transfer is started with no room at all; otherwise the bytes
  the host sends next are stored behind the first claim, but the bytes that are passed on to the
  serial port are the old contents of the first claim.\<close>

theorem vcp_empty_transfer_misplaces:
  assumes "ring_buffer P view ok" "ok (tx_rbuf s)" "v = view (tx_rbuf s)"
  shows "\<exists>t ptr room a. vcp_usb_read_cb P cfg ep 0 s = (Ok (), t)
    \<and> trace t = trace s @ [(UsbCall (TransferRead ep ptr room), a)]
    \<and> (length (r_data v) + length (r_held v) = r_cap v \<longrightarrow> room = 0)
    \<and> (\<forall>xs. 0 < length xs \<and> length xs \<le> room \<and> length xs \<le> length (r_held v) \<longrightarrow>
         (\<exists>u. bindC (on_tx (rb_store P ptr xs)) (\<lambda>_. vcp_usb_read_cb P cfg ep (length xs)) t = (Ok (), u)
            \<and> r_data (view (tx_rbuf u)) = r_data v @ take (length xs) (r_held v)))"
proof -
  let ?r = "tx_rbuf s" and ?n = "length (r_data v) + length (r_held v)"
  let ?b = "snd (p_put_claim P ?r VCP_RING_BUF_SIZE)" and ?ptr = "(r_pos v + ?n) mod r_cap v"
  define room where "room = min VCP_RING_BUF_SIZE (r_put_room v)"
  have wf: "0 < r_cap v" "?n \<le> r_cap v"
    using ring_buffer.r_wfD [OF assms(1,2)] assms(3) by simp_all
  have room_le: "room \<le> r_cap v - ?n" "room \<le> r_cap v - ?ptr"
    by (simp_all add: room_def r_put_room_def Let_def add.assoc min_le_iff_disj)
  have claim: "rb_put_claim P VCP_RING_BUF_SIZE ?r = (Ok (room, ?ptr), ?b)"
    using ring_buffer.put_claim_grant [OF assms(1,2)] assms(3)
    by (simp add: rb_put_claim_def room_def add.assoc)
  obtain junk where b: "ok ?b" "length junk = room" "view ?b = v\<lparr>r_held := r_held v @ junk\<rparr>"
    using ring_buffer.put_claim_view [OF assms(1,2), of VCP_RING_BUF_SIZE] ring_buffer.ok_ops(3) [OF assms(1,2)] assms(3)
    by (auto simp: room_def)
  let ?c = "UsbCall (TransferRead ep ?ptr room)"
  let ?t = "s\<lparr>tx_rbuf := ?b, trace := trace s @ [(?c, p_hw P (trace s) ?c)]\<rparr>"
  have first: "vcp_usb_read_cb P cfg ep 0 s = (Ok (), ?t)"
    by (simp add: vcp_usb_read_cb_def bindC_def on_tx_def claim hwv_eq ret_def)
  have later: "\<exists>u. bindC (on_tx (rb_store P ?ptr xs)) (\<lambda>_. vcp_usb_read_cb P cfg ep (length xs)) ?t = (Ok (), u)
      \<and> r_data (view (tx_rbuf u)) = r_data v @ take (length xs) (r_held v)"
    if xs: "0 < length xs" "length xs \<le> room" "length xs \<le> length (r_held v)" for xs
  proof -
    let ?b2 = "p_store P ?b ?ptr xs" and ?b3 = "snd (p_put_finish P (p_store P ?b ?ptr xs) (length xs))"
    have "?ptr < r_cap v" using wf(1) by simp
    then have "?ptr + length xs \<le> r_cap v" using room_le(2) xs(2) by simp
    then have st: "ok ?b2" "view ?b2 = r_write (view ?b) ?n xs"
      using ring_buffer.store [OF assms(1) b(1), of ?n xs ?ptr] b(2,3) xs(2) by (simp_all add: add.assoc)
    then have v2: "view ?b2 = v\<lparr>r_held := r_held v @ xs @ drop (length xs) junk\<rparr>"
      using b(2,3) xs(2) by (simp add: r_write_def Let_def)
    then have fin: "fst (p_put_finish P ?b2 (length xs)) = 0" "ok ?b3"
      "view ?b3 = v\<lparr>r_data := r_data v @ take (length xs) (r_held v), r_held := []\<rparr>"
      using ring_buffer.put_finish [OF assms(1) st(1), of "length xs"] ring_buffer.ok_ops(4) [OF assms(1) st(1)] xs(3)
      by simp_all
    let ?b4 = "snd (p_put_claim P ?b3 VCP_RING_BUF_SIZE)"
    have "r_data (view ?b4) = r_data v @ take (length xs) (r_held v)"
      using ring_buffer.put_claim_view [OF assms(1) fin(2), of VCP_RING_BUF_SIZE] fin(3) by auto
    then show ?thesis
      using xs(1) fin(1)
      by (simp add: vcp_usb_read_cb_def bindC_def on_tx_def rb_store_def rb_put_finish_def rb_put_claim_def
        modify_def hwv_eq split: prod.split)
  qed
  have "?n = r_cap v \<longrightarrow> room = 0" using room_le(1) by linarith
  then show ?thesis
    using first later
    by - (rule exI [of _ ?t], rule exI [of _ ?ptr], rule exI [of _ room], rule exI, intro conjI allI impI,
      assumption, simp, blast, blast)
qed

lemma vcp_empty_transfer_misplaces_witness:
  "\<exists>t u. vcp_usb_read_cb vcp_platform vcp_config0 1 0
      (vcp_sample\<lparr>tx_rbuf := \<lparr>a_mem = [1, 2, 3, 4, 5, 6, 7, 8], a_pos = 6, a_len = 0, a_got = 0, a_held = 2\<rparr>\<rparr>) = (Ok (), t)
    \<and> bindC (on_tx (rb_store vcp_platform 0 [9])) (\<lambda>_. vcp_usb_read_cb vcp_platform vcp_config0 1 1) t = (Ok (), u)
    \<and> r_data (a_view (tx_rbuf u)) = [7]"
proof -
  let ?r = "\<lparr>a_mem = [1, 2, 3, 4, 5, 6, 7, 8], a_pos = 6, a_len = 0, a_got = 0, a_held = 2\<rparr>"
  let ?s = "vcp_sample\<lparr>tx_rbuf := ?r\<rparr>"
  have r: "a_ok (tx_rbuf ?s)" "r_held (a_view ?r) = [7, 8]" "r_data (a_view ?r) = []" "r_cap (a_view ?r) = 8"
    by (simp_all add: a_ok_def a_view_def seg_def upt_rec)
  have claim: "fst (p_put_claim vcp_platform ?r VCP_RING_BUF_SIZE) = (6, 0)"
    by (simp add: vcp_platform_def array_platform_def a_put_claim_def VCP_RING_BUF_SIZE_def)
  have first: "trace (snd (vcp_usb_read_cb vcp_platform vcp_config0 1 0 ?s))
      = trace ?s @ [(UsbCall (TransferRead 1 0 6), p_hw vcp_platform [] (UsbCall (TransferRead 1 0 6)))]"
    by (simp add: vcp_usb_read_cb_def bindC_def on_tx_def rb_put_claim_def hwv_eq ret_def claim)
  obtain t ptr room a where t: "vcp_usb_read_cb vcp_platform vcp_config0 1 0 ?s = (Ok (), t)"
    "trace t = trace ?s @ [(UsbCall (TransferRead 1 ptr room), a)]"
    and later: "\<forall>xs. 0 < length xs \<and> length xs \<le> room \<and> length xs \<le> length (r_held (a_view (tx_rbuf ?s))) \<longrightarrow>
      (\<exists>u. bindC (on_tx (rb_store vcp_platform ptr xs)) (\<lambda>_. vcp_usb_read_cb vcp_platform vcp_config0 1 (length xs)) t = (Ok (), u)
        \<and> r_data (a_view (tx_rbuf u)) = r_data (a_view (tx_rbuf ?s)) @ take (length xs) (r_held (a_view (tx_rbuf ?s))))"
    using vcp_empty_transfer_misplaces [OF vcp_platform_ok(1) r(1) refl, of vcp_config0 1] by blast
  have "ptr = 0" "room = 6" using first t by simp_all
  moreover have "tx_rbuf ?s = ?r" by simp
  ultimately obtain u where "bindC (on_tx (rb_store vcp_platform 0 [9])) (\<lambda>_. vcp_usb_read_cb vcp_platform vcp_config0 1 1) t = (Ok (), u)"
    "r_data (a_view (tx_rbuf u)) = [7]"
    using later [rule_format, of "[9]"] r by auto
  then show ?thesis using t(1) by blast
qed

end
