(* ===== verification/Usb_Transport.thy ===== *)
theory Usb_Transport
  imports Usb Timing
begin

text \<open>
  The USB transports of the two drivers (dap/transport\_usb.c and io/transport\_usb.c).  They are the
  same program on different endpoints: a call starts a transfer and waits, on a semaphore with a
  timeout, for its callback or for the loss of the configuration.

  The thread and the interrupts share the state, so a call is a small-step machine: every step of
  the thread is what it does between two points where an interrupt can be seen, and a run is any
  sequence of steps of the thread, completions of transfers and changes of the bus.
\<close>

section \<open>State and interrupts\<close>

text \<open>Where the thread is: before the transfer is started, at the loop test, in the semaphore, after
  it, and returned.\<close>

datatype usb_pc = Call | Loop | Take | Check | Returned "int outcome"

text \<open>
  The variables of one transport; \<open>uc_busy\<close> says which endpoints the stack has a transfer on, and
  \<open>uc_size\<close> is the variable the callback stores its size in.
\<close>

record usb_transport =
  uc_configured :: bool
  uc_wake :: bool
  uc_busy :: "byte \<Rightarrow> bool"
  uc_size :: int
  uc_pc :: usb_pc

definition usb_status :: "usb_dc_status \<Rightarrow> usb_transport \<Rightarrow> usb_transport" where
  "usb_status status c =
     (if status = USB_DC_CONFIGURED then c\<lparr>uc_configured := True\<rparr>
      else if status = USB_DC_SUSPEND \<or> status = USB_DC_RESET \<or> status = USB_DC_DISCONNECTED
        \<or> status = USB_DC_ERROR
      then c\<lparr>uc_configured := False, uc_wake := True\<rparr>
      else c)"

definition usb_transfer_cb :: "int \<Rightarrow> usb_transport \<Rightarrow> usb_transport" where
  "usb_transfer_cb n c = c\<lparr>uc_size := n, uc_wake := True\<rparr>"

section \<open>A call\<close>

text \<open>
  \<open>r\<close> is what \<open>usb_transfer\<close> returns, should this step call it.  The semaphore is left after it
  has been given or after the timeout; both clear it.
\<close>

definition usb_bulk_step :: "byte \<Rightarrow> int \<Rightarrow> usb_transport \<Rightarrow> usb_transport" where
  "usb_bulk_step ep r c = (case uc_pc c of
     Call \<Rightarrow>
       if r < 0 then c\<lparr>uc_size := 0, uc_pc := Returned (Fail (DriverError r))\<rparr>
       else c\<lparr>uc_size := 0, uc_busy := (uc_busy c)(ep := True), uc_pc := Loop\<rparr>
   | Loop \<Rightarrow> c\<lparr>uc_pc := (if uc_busy c ep then Take else Returned (Ok (uc_size c)))\<rparr>
   | Take \<Rightarrow> c\<lparr>uc_wake := False, uc_pc := Check\<rparr>
   | Check \<Rightarrow>
       if \<not> uc_configured c
       then c\<lparr>uc_busy := (uc_busy c)(ep := False), uc_pc := Returned (Fail ESHUTDOWN)\<rparr>
       else c\<lparr>uc_pc := Loop\<rparr>
   | Returned x \<Rightarrow> c)"

text \<open>The two transports; the stack assigns the endpoint addresses.\<close>

record usb_eps =
  out_ep :: byte
  in_ep :: byte

definition dap_usb_status_cb :: "usb_dc_status \<Rightarrow> usb_transport \<Rightarrow> usb_transport" where
  "dap_usb_status_cb = usb_status"

definition dap_usb_send_cb :: "int \<Rightarrow> usb_transport \<Rightarrow> usb_transport" where
  "dap_usb_send_cb = usb_transfer_cb"

definition dap_usb_recv_cb :: "int \<Rightarrow> usb_transport \<Rightarrow> usb_transport" where
  "dap_usb_recv_cb = usb_transfer_cb"

text \<open>All USB initialization is static.\<close>

definition dap_usb_transport_init :: "unit outcome" where
  "dap_usb_transport_init = Ok ()"

definition dap_usb_transport_configure :: "usb_transport \<Rightarrow> unit outcome" where
  "dap_usb_transport_configure c = (if uc_configured c then Ok () else Fail EAGAIN)"

definition dap_usb_transport_recv :: "usb_eps \<Rightarrow> int \<Rightarrow> usb_transport \<Rightarrow> usb_transport" where
  "dap_usb_transport_recv eps = usb_bulk_step (out_ep eps)"

definition dap_usb_transport_send :: "usb_eps \<Rightarrow> int \<Rightarrow> usb_transport \<Rightarrow> usb_transport" where
  "dap_usb_transport_send eps = usb_bulk_step (in_ep eps)"

definition io_usb_status_cb :: "usb_dc_status \<Rightarrow> usb_transport \<Rightarrow> usb_transport" where
  "io_usb_status_cb = usb_status"

definition io_usb_send_cb :: "int \<Rightarrow> usb_transport \<Rightarrow> usb_transport" where
  "io_usb_send_cb = usb_transfer_cb"

definition io_usb_recv_cb :: "int \<Rightarrow> usb_transport \<Rightarrow> usb_transport" where
  "io_usb_recv_cb = usb_transfer_cb"

definition io_usb_transport_init :: "unit outcome" where
  "io_usb_transport_init = Ok ()"

definition io_usb_transport_configure :: "usb_transport \<Rightarrow> unit outcome" where
  "io_usb_transport_configure c = (if uc_configured c then Ok () else Fail EAGAIN)"

definition io_usb_transport_recv :: "usb_eps \<Rightarrow> int \<Rightarrow> usb_transport \<Rightarrow> usb_transport" where
  "io_usb_transport_recv eps = usb_bulk_step (out_ep eps)"

definition io_usb_transport_send :: "usb_eps \<Rightarrow> int \<Rightarrow> usb_transport \<Rightarrow> usb_transport" where
  "io_usb_transport_send eps = usb_bulk_step (in_ep eps)"

section \<open>Runs\<close>

text \<open>
  The stack completes a transfer only on an endpoint that has one, and calls back as it does.
\<close>

datatype usb_event = Thread int | Complete byte int | Status usb_dc_status

definition usb_event :: "(int \<Rightarrow> usb_transport \<Rightarrow> usb_transport) \<Rightarrow> (int \<Rightarrow> usb_transport \<Rightarrow> usb_transport) \<Rightarrow>
    (usb_dc_status \<Rightarrow> usb_transport \<Rightarrow> usb_transport) \<Rightarrow> usb_event \<Rightarrow> usb_transport \<Rightarrow> usb_transport" where
  "usb_event call cb st e c = (case e of
     Thread r \<Rightarrow> call r c
   | Complete ep n \<Rightarrow> if uc_busy c ep then cb n (c\<lparr>uc_busy := (uc_busy c)(ep := False)\<rparr>) else c
   | Status s \<Rightarrow> st s c)"

definition usb_run :: "(int \<Rightarrow> usb_transport \<Rightarrow> usb_transport) \<Rightarrow> (int \<Rightarrow> usb_transport \<Rightarrow> usb_transport) \<Rightarrow>
    (usb_dc_status \<Rightarrow> usb_transport \<Rightarrow> usb_transport) \<Rightarrow> usb_event list \<Rightarrow> usb_transport \<Rightarrow> usb_transport" where
  "usb_run call cb st es c = foldl (\<lambda>c e. usb_event call cb st e c) c es"

abbreviation usb_bulk_run :: "byte \<Rightarrow> usb_event list \<Rightarrow> usb_transport \<Rightarrow> usb_transport" where
  "usb_bulk_run ep \<equiv> usb_run (usb_bulk_step ep) usb_transfer_cb usb_status"

definition lost_status :: "usb_dc_status \<Rightarrow> bool" where
  "lost_status s \<longleftrightarrow> s \<in> {USB_DC_SUSPEND, USB_DC_RESET, USB_DC_DISCONNECTED, USB_DC_ERROR}"

text \<open>What holds along a run that starts with a call on idle endpoints.\<close>

definition lost_in :: "bool \<Rightarrow> usb_event list \<Rightarrow> bool" where
  "lost_in conf es \<longleftrightarrow> \<not> conf \<or> (\<exists>s. lost_status s \<and> Status s \<in> set es)"

definition usb_result_ok :: "byte \<Rightarrow> bool \<Rightarrow> usb_event list \<Rightarrow> int outcome \<Rightarrow> bool" where
  "usb_result_ok ep conf es x \<longleftrightarrow> (case x of
     Ok n \<Rightarrow> Complete ep n \<in> set es
   | Fail e \<Rightarrow> e = ESHUTDOWN \<and> lost_in conf es \<or> (\<exists>r. r < 0 \<and> e = DriverError r \<and> Thread r \<in> set es)
   | _ \<Rightarrow> False)"

definition usb_call_inv :: "byte \<Rightarrow> bool \<Rightarrow> usb_event list \<Rightarrow> usb_transport \<Rightarrow> bool" where
  "usb_call_inv ep conf es c \<longleftrightarrow>
     (\<forall>e. e \<noteq> ep \<longrightarrow> \<not> uc_busy c e) \<and> (\<not> uc_configured c \<longrightarrow> lost_in conf es)
   \<and> (case uc_pc c of
        Call \<Rightarrow> \<not> uc_busy c ep
      | Returned x \<Rightarrow> \<not> uc_busy c ep \<and> usb_result_ok ep conf es x
      | _ \<Rightarrow> uc_busy c ep \<or> Complete ep (uc_size c) \<in> set es)"

lemma lost_in_more: "lost_in conf es \<Longrightarrow> lost_in conf (es @ [e])" "lost_status s \<Longrightarrow> lost_in conf (es @ [Status s])"
  by (auto simp: lost_in_def)

lemma usb_result_more: "usb_result_ok ep conf es x \<Longrightarrow> usb_result_ok ep conf (es @ [e]) x"
  by (cases x) (auto simp: usb_result_ok_def intro: lost_in_more)

lemma usb_result_new:
  "r < 0 \<Longrightarrow> usb_result_ok ep conf (es @ [Thread r]) (Fail (DriverError r))"
  "lost_in conf es \<Longrightarrow> usb_result_ok ep conf es (Fail ESHUTDOWN)"
  "Complete ep n \<in> set es \<Longrightarrow> usb_result_ok ep conf es (Ok n)"
  by (auto simp: usb_result_ok_def)

lemma usb_call_inv_step:
  assumes "usb_call_inv ep conf es c"
  shows "usb_call_inv ep conf (es @ [e]) (usb_event (usb_bulk_step ep) usb_transfer_cb usb_status e c)"
proof (cases e)
  case (Thread r)
  then show ?thesis
    using assms by (cases "uc_pc c")
      (auto simp: usb_call_inv_def usb_event_def usb_bulk_step_def intro: lost_in_more usb_result_more usb_result_new)
next
  case (Complete k n)
  then show ?thesis
    using assms by (cases "uc_pc c")
      (auto simp: usb_call_inv_def usb_event_def usb_transfer_cb_def intro: lost_in_more usb_result_more)
next
  case (Status s)
  then show ?thesis
    using assms by (cases "uc_pc c")
      (auto simp: usb_call_inv_def usb_event_def usb_status_def intro: lost_in_more usb_result_more lost_in_more(2) [of s]
        simp: lost_status_def)
qed

lemma usb_call_inv_run:
  assumes "uc_pc c = Call" "\<forall>e. \<not> uc_busy c e"
  shows "usb_call_inv ep (uc_configured c) es (usb_bulk_run ep es c)"
proof (induction es rule: rev_induct)
  case Nil
  show ?case using assms by (simp add: usb_call_inv_def usb_run_def lost_in_def)
next
  case (snoc e es)
  then show ?case using usb_call_inv_step by (simp add: usb_run_def)
qed

text \<open>The steps the thread needs to return, once the configuration is lost.\<close>

fun steps_left :: "usb_pc \<Rightarrow> nat" where
  "steps_left Call = 4"
| "steps_left Loop = 3"
| "steps_left Take = 2"
| "steps_left Check = 1"
| "steps_left (Returned x) = 0"

definition thread_steps :: "usb_event list \<Rightarrow> nat" where
  "thread_steps es = length (filter (\<lambda>e. case e of Thread r \<Rightarrow> True | _ \<Rightarrow> False) es)"

lemma usb_lost_run:
  "\<not> uc_configured c \<Longrightarrow> Status USB_DC_CONFIGURED \<notin> set es \<Longrightarrow>
   steps_left (uc_pc (usb_bulk_run ep es c)) \<le> steps_left (uc_pc c) - thread_steps es"
proof (induction es arbitrary: c)
  case (Cons e es)
  let ?c = "usb_event (usb_bulk_step ep) usb_transfer_cb usb_status e c"
  have "\<not> uc_configured ?c"
    using Cons.prems by (cases e) (auto simp: usb_event_def usb_bulk_step_def usb_transfer_cb_def usb_status_def split: usb_pc.splits)
  moreover have "steps_left (uc_pc ?c) \<le> steps_left (uc_pc c) - thread_steps [e]"
    using Cons.prems by (cases e)
      (auto simp: usb_event_def usb_bulk_step_def usb_transfer_cb_def usb_status_def thread_steps_def split: usb_pc.splits)
  ultimately show ?case
    using Cons.IH [of ?c] Cons.prems(2) by (auto simp: usb_run_def thread_steps_def split: usb_event.splits)
qed (simp add: usb_run_def thread_steps_def)

section \<open>Properties\<close>

text \<open>The four calls of the two transports, with their callbacks.\<close>

definition usb_calls :: "usb_eps \<Rightarrow> (byte \<times> (int \<Rightarrow> usb_transport \<Rightarrow> usb_transport)
    \<times> (int \<Rightarrow> usb_transport \<Rightarrow> usb_transport) \<times> (usb_dc_status \<Rightarrow> usb_transport \<Rightarrow> usb_transport)) list" where
  "usb_calls eps =
     [(out_ep eps, dap_usb_transport_recv eps, dap_usb_recv_cb, dap_usb_status_cb),
      (in_ep eps, dap_usb_transport_send eps, dap_usb_send_cb, dap_usb_status_cb),
      (out_ep eps, io_usb_transport_recv eps, io_usb_recv_cb, io_usb_status_cb),
      (in_ep eps, io_usb_transport_send eps, io_usb_send_cb, io_usb_status_cb)]"

lemma usb_calls_bulk:
  "(ep, call, cb, st) \<in> set (usb_calls eps) \<Longrightarrow> call = usb_bulk_step ep \<and> cb = usb_transfer_cb \<and> st = usb_status"
  by (auto simp: usb_calls_def dap_usb_transport_recv_def dap_usb_transport_send_def dap_usb_recv_cb_def
    dap_usb_send_cb_def dap_usb_status_cb_def io_usb_transport_recv_def io_usb_transport_send_def io_usb_recv_cb_def
    io_usb_send_cb_def io_usb_status_cb_def)


definition usb_idle :: usb_transport where
  "usb_idle = \<lparr>uc_configured = True, uc_wake = False, uc_busy = (\<lambda>_. False), uc_size = 0, uc_pc = Call\<rparr>"


text \<open>
  C22: No call on a USB transport waits forever for a host that is gone: once the configuration is
  lost and as long as the bus is not configured again, four more steps of the thread bring it back,
  whatever happens on the bus meanwhile.\<close>

theorem usb_call_returns:
  assumes "(ep, call, cb, st) \<in> set (usb_calls eps)" "lost_status s"
    and "Status USB_DC_CONFIGURED \<notin> set fs" "4 \<le> thread_steps fs"
  shows "\<exists>x. uc_pc (usb_run call cb st (es @ [Status s] @ fs) c) = Returned x"
proof -
  let ?c = "usb_bulk_run ep (es @ [Status s]) c"
  have lost: "\<not> uc_configured ?c"
    using assms(2) by (auto simp: usb_run_def usb_event_def usb_status_def lost_status_def)
  have "steps_left (uc_pc ?c) \<le> 4" by (cases "uc_pc ?c") simp_all
  then have "steps_left (uc_pc (usb_bulk_run ep fs ?c)) = 0"
    using usb_lost_run [OF lost assms(3), of ep] assms(4) by simp
  moreover have "usb_bulk_run ep fs ?c = usb_run call cb st (es @ [Status s] @ fs) c"
    using usb_calls_bulk [OF assms(1)] by (simp add: usb_run_def)
  ultimately show ?thesis
    by (cases "uc_pc (usb_run call cb st (es @ [Status s] @ fs) c)") simp_all
qed

lemma usb_call_returns_witness:
  "\<exists>x. uc_pc (usb_run (io_usb_transport_send \<lparr>out_ep = 1, in_ep = 0x81\<rparr>) io_usb_send_cb io_usb_status_cb
     ([Thread 0, Thread 0] @ [Status USB_DC_DISCONNECTED] @ [Thread 0, Thread 0, Status USB_DC_SOF, Thread 0, Thread 0]) usb_idle)
   = Returned x"
  by (rule usb_call_returns [of "0x81" _ _ _ "\<lparr>out_ep = 1, in_ep = 0x81\<rparr>"])
     (simp_all add: usb_calls_def lost_status_def thread_steps_def)

end
