(* ===== verification/Usb_Msos.thy ===== *)
theory Usb_Msos
  imports Usb Nvs Util
begin

text \<open>
  The Microsoft OS descriptors (usb\_msos.c): three packed structures that are answered as bytes,
  and the serial number of the USB device.  The numbers of the two interfaces are the state; the
  structures are written out field by field, in the order of their bytes.
\<close>

record usb_msos =
  func0_bFirstInterfaceNumber :: byte
  func1_bFirstInterfaceNumber :: byte

definition USB_MSOS_VENDOR_CODE :: byte where "USB_MSOS_VENDOR_CODE = 0x20"
definition USB_DESC_STRING :: byte where "USB_DESC_STRING = 3"

text \<open>A character of the wide strings is its code and a zero.\<close>

definition wide :: "string \<Rightarrow> byte list" where
  "wide cs = concat (map (\<lambda>c. [of_char c, 0]) cs)"

definition usb_msos_string_descr :: "byte list" where
  "usb_msos_string_descr = [18, USB_DESC_STRING] @ wide ''MSFT100'' @ sys_put_le16 (ucast USB_MSOS_VENDOR_CODE)"

definition usb_msos_compatid_func :: "byte \<Rightarrow> byte list" where
  "usb_msos_compatid_func intf = [intf, 1] @ (ascii ''WINUSB'' @ [0, 0]) @ replicate 8 0 @ replicate 6 0"

definition usb_msos_compatid_descr :: "usb_msos \<Rightarrow> byte list" where
  "usb_msos_compatid_descr m = sys_put_le32 64 @ sys_put_le16 0x100 @ sys_put_le16 4 @ [2] @ replicate 7 0
     @ usb_msos_compatid_func (func0_bFirstInterfaceNumber m) @ usb_msos_compatid_func (func1_bFirstInterfaceNumber m)"

definition usb_msos_set_func0_interface :: "byte \<Rightarrow> usb_msos \<Rightarrow> usb_msos" where
  "usb_msos_set_func0_interface intf m = m\<lparr>func0_bFirstInterfaceNumber := intf\<rparr>"

definition usb_msos_set_func1_interface :: "byte \<Rightarrow> usb_msos \<Rightarrow> usb_msos" where
  "usb_msos_set_func1_interface intf m = m\<lparr>func1_bFirstInterfaceNumber := intf\<rparr>"

definition usb_msos_device_intf_guid :: "byte list" where
  "usb_msos_device_intf_guid = sys_put_le32 132 @ sys_put_le32 1 @ sys_put_le16 40
     @ (wide ''DeviceInterfaceGUID'' @ [0, 0]) @ sys_put_le32 78
     @ (wide ''{CDB3B5AD-293B-4663-AA36-1AAE46463776}'' @ [0, 0])"

definition usb_msos_extprop_descr :: "byte list" where
  "usb_msos_extprop_descr = sys_put_le32 142 @ sys_put_le16 0x100 @ sys_put_le16 5 @ sys_put_le16 1
     @ usb_msos_device_intf_guid"

text \<open>
  The interface callbacks of the two USB transports; \<open>str_idx\<close> is the index the stack assigns to the
  interface string.
\<close>

record usb_intf =
  bInterfaceNumber :: byte
  iInterface :: byte

definition dap_usb_interface_config :: "byte \<Rightarrow> byte \<Rightarrow> usb_intf \<times> usb_msos \<Rightarrow> usb_intf \<times> usb_msos" where
  "dap_usb_interface_config str_idx n = (\<lambda>(intf, m).
     (intf\<lparr>bInterfaceNumber := n, iInterface := str_idx\<rparr>, usb_msos_set_func0_interface n m))"

definition io_usb_interface_config :: "byte \<Rightarrow> byte \<Rightarrow> usb_intf \<times> usb_msos \<Rightarrow> usb_intf \<times> usb_msos" where
  "io_usb_interface_config str_idx n = (\<lambda>(intf, m).
     (intf\<lparr>bInterfaceNumber := n, iInterface := str_idx\<rparr>, usb_msos_set_func1_interface n m))"

section \<open>Requests\<close>

text \<open>The type and the index of a descriptor are the high and the low byte of the value.\<close>

definition usb_msos_custom_handle_req :: "usb_setup_packet \<Rightarrow> byte list outcome" where
  "usb_msos_custom_handle_req setup =
     (if usb_reqtype_is_to_device setup then Fail ENOTSUP
      else if ucast (drop_bit 8 (wValue setup)) = USB_DESC_STRING \<and> ucast (wValue setup AND 0xFF) = (0xEE :: byte)
      then Ok usb_msos_string_descr
      else Fail EINVAL)"

definition usb_msos_vendor_handle_req :: "usb_msos \<Rightarrow> usb_setup_packet \<Rightarrow> byte list outcome" where
  "usb_msos_vendor_handle_req m setup =
     (if usb_reqtype_is_to_device setup then Fail ENOTSUP
      else if bRequest setup = USB_MSOS_VENDOR_CODE \<and> wIndex setup = 0x04 then Ok (usb_msos_compatid_descr m)
      else if bRequest setup = USB_MSOS_VENDOR_CODE \<and> wIndex setup = 0x05 then Ok usb_msos_extprop_descr
      else Fail ENOTSUP)"

text \<open>\<open>n\<close> is the size of the configured serial number with its final zero.\<close>

definition usb_update_sn_string_descriptor :: "nat \<Rightarrow> nvs \<Rightarrow> byte list \<Rightarrow> byte list" where
  "usb_update_sn_string_descriptor n s serial =
     (case fst (nvs_get_serial_number n s) of Ok bs \<Rightarrow> bs | _ \<Rightarrow> serial[0 := 0])"

section \<open>Properties\<close>

lemma wide_simps [simp]: "wide [] = []" "wide (c # cs) = of_char c # 0 # wide cs"
  by (simp_all add: wide_def)

lemma length_wide [simp]: "length (wide cs) = 2 * length cs"
  by (induction cs) simp_all


end
