(* ===== verification/Nvs_Record.thy ===== *)
theory Nvs_Record
  imports Nvs
begin

text \<open>
  What the rest of the firmware gets from the manufacturing data: the identity strings after a
  successful boot, and the two entries of the DNS-SD TXT record.
\<close>

section \<open>Strings\<close>

lemma c_str_pad: "0 \<notin> set bs \<Longrightarrow> c_str (bs @ 0 # xs) = bs"
  unfolding c_str_def by (induction bs) auto

lemma c_str_set: "b \<in> set (c_str bs) \<Longrightarrow> b \<noteq> 0"
  unfolding c_str_def by (auto dest: set_takeWhileD)

lemma c_str_idem [simp]: "c_str (c_str bs) = c_str bs"
  unfolding c_str_def by (rule takeWhile_idem)

lemma c_str_strncpy: "strlen bs < n \<Longrightarrow> c_str (strncpy n bs) = c_str bs"
proof -
  assume n: "strlen bs < n"
  have "c_str (c_str bs @ replicate (Suc k) 0) = c_str bs" for k
    using c_str_pad [of "c_str bs"] c_str_set [of 0 bs] by auto
  moreover have "strncpy n bs = c_str bs @ replicate (n - strlen bs) 0"
    using n by (simp add: strncpy_def strlen_def min_def)
  moreover obtain k where "n - strlen bs = Suc k" using n by (cases "n - strlen bs") auto
  ultimately show ?thesis by simp
qed

lemma hex02_length [simp]: "length (concat (map hex02 bs)) = 2 * length bs"
  by (induction bs) (simp_all add: hex02_def)

lemma uuid_str_length [simp]: "length u = 16 \<Longrightarrow> length (uuid_str u) = 36"
  by (simp add: uuid_str_def)

lemma strlen_le: "strlen bs \<le> length bs"
  by (simp add: strlen_def c_str_def length_takeWhile_le)

lemma strlen_terminated: "length bs = 32 \<Longrightarrow> bs ! 31 = 0 \<Longrightarrow> strlen bs \<le> 31"
proof (rule ccontr)
  assume bs: "length bs = 32" "bs ! 31 = 0" and "\<not> strlen bs \<le> 31"
  then have long: "31 < length (c_str bs)" by (simp add: strlen_def)
  then have "c_str bs ! 31 = bs ! 31" unfolding c_str_def by (rule takeWhile_nth)
  then show False using c_str_set [of 0 bs] bs(2) nth_mem [OF long] by simp
qed

section \<open>Boot\<close>

text \<open>A flash read stores as many bytes as it is asked for.\<close>

definition flash_ok :: "flash \<Rightarrow> bool" where
  "flash_ok F \<longleftrightarrow> (\<forall>off n. length (snd (flash_area_read F off n)) = n)"

lemma nvs_read_eq:
  "nvs_read F off n upd s = (if fst (flash_area_read F off n) < 0 then Fail EIO else Ok (snd (flash_area_read F off n)),
     upd (snd (flash_area_read F off n)) s)"
  by (simp add: nvs_read_def Let_def split: prod.split)

lemma nvs_init_fields:
  assumes "nvs_init F s = (Ok (), t)"
  shows "serial_number t = snd (flash_area_read F 4 32)" "uuid t = snd (flash_area_read F 36 16)"
    "snd (flash_area_read F 4 32) ! 31 = 0"
    "nvs_dns_txt_record t = nvs_make_txt (s\<lparr>serial_number := serial_number t, uuid := uuid t\<rparr>)"
  using assms
  by (auto simp: nvs_init_def bindC_Ok_iff nvs_read_eq nvs_consts fail_def modify_def split: if_splits)

text \<open>
  C24: After a successful boot the identity is that of the flash: a serial number is accepted only
  when it is terminated, any buffer that has room for it and its final zero gets exactly its
  characters, a shorter one is refused, and the unique identifier is answered in full to a buffer
  of 16 bytes.\<close>

theorem nvs_boot_identity:
  assumes "flash_ok F" "nvs_init F s = (Ok (), t)"
    and "serial = c_str (snd (flash_area_read F NVS_MFG_SERIAL_ADDRESS 32))"
  shows "length serial \<le> 31
    \<and> (if length serial < n then \<exists>bs. nvs_get_serial_number n t = (Ok bs, t) \<and> length bs = n \<and> c_str bs = serial
       else nvs_get_serial_number n t = (Fail ENOBUFS, t))
    \<and> nvs_get_uuid 16 t = (Ok (snd (flash_area_read F NVS_MFG_UUID_ADDRESS 16)), t)"
proof -
  note t = nvs_init_fields [OF assms(2)]
  have serial: "c_str (serial_number t) = serial" using t(1) assms(3) by (simp add: nvs_consts)
  have len: "length (serial_number t) = 32" "length (uuid t) = 16"
    using assms(1) t(1,2) by (simp_all add: flash_ok_def)
  have "strlen (serial_number t) \<le> 31"
    using strlen_terminated [OF len(1)] t(1,3) by simp
  moreover have "length (strncpy n (serial_number t)) = n"
    by (simp add: strncpy_def)
  ultimately show ?thesis
    using serial len t(2) c_str_strncpy [of "serial_number t" n]
    by (auto simp: nvs_get_serial_number_def nvs_get_uuid_def strlen_def nvs_consts)
qed

definition flash0 :: flash where
  "flash0 = \<lparr>flash_area_open = 0, flash_area_read = (\<lambda>off n. (0, take n
     ((if off = 0 then [0x5a, 0x7a] else if off = 2 then [0x01, 0x01]
       else if off = 4 then [82, 80, 49] @ replicate 29 0
       else [1, 2, 3, 4, 5, 6, 7, 8, 9, 10, 11, 12, 13, 14, 15, 16]) @ replicate n 0))) \<rparr>"

lemma flash0_reads:
  "flash_ok flash0" "snd (flash_area_read flash0 4 32) = [82, 80, 49] @ replicate 29 0"
  "nvs_init flash0 nvs0 = (Ok (), snd (nvs_init flash0 nvs0))"
proof -
  have tag: "le16 (snd (flash_area_read flash0 0 2)) = NVS_MFG_TAG" "le16 (snd (flash_area_read flash0 2 2)) = NVS_MFG_VERSION"
    by (simp_all add: flash0_def le16_def nvs_consts)
  show serial: "snd (flash_area_read flash0 4 32) = [82, 80, 49] @ replicate 29 0"
    by (simp add: flash0_def)
  show "flash_ok flash0" by (auto simp: flash_ok_def flash0_def)
  have zero: "fst (flash_area_read flash0 off n) = 0" "flash_area_open flash0 = 0" for off n
    by (simp_all add: flash0_def)
  have last: "snd (flash_area_read flash0 4 32) ! 31 = 0" unfolding serial by simp
  have "fst (nvs_init flash0 nvs0) = Ok ()"
    using zero tag last by (simp add: nvs_init_def bindC_def nvs_read_eq NVS_MFG_TAG_ADDRESS_def
      NVS_MFG_VERSION_ADDRESS_def NVS_MFG_SERIAL_ADDRESS_def modify_def)
  then show "nvs_init flash0 nvs0 = (Ok (), snd (nvs_init flash0 nvs0))" by (simp add: prod_eq_iff)
qed

lemma nvs_boot_identity_witness:
  "\<exists>t bs. nvs_init flash0 nvs0 = (Ok (), t) \<and> nvs_get_serial_number 4 t = (Ok bs, t) \<and> c_str bs = [82, 80, 49]"
proof -
  have "[82, 80, 49] = c_str (snd (flash_area_read flash0 NVS_MFG_SERIAL_ADDRESS 32))"
    by (simp add: nvs_consts flash0_reads c_str_def)
  from nvs_boot_identity [OF flash0_reads(1,3) this, of 4] show ?thesis
    using flash0_reads(3) by auto
qed

section \<open>The TXT record\<close>

lemma ascii_simps [simp]: "ascii [] = []" "ascii (c # cs) = of_char c # ascii cs"
  by (simp_all add: ascii_def)

definition txt_serial :: "byte list \<Rightarrow> byte list" where
  "txt_serial serial = [of_nat (7 + length serial)] @ ascii ''serial='' @ serial"

definition txt_uuid :: "byte list \<Rightarrow> byte list" where
  "txt_uuid u = [5 + 36] @ ascii ''uuid='' @ uuid_str u"

lemma small_byte: "n < 256 \<Longrightarrow> unat (of_nat n :: byte) = n"
  by (simp add: unat_of_nat)

text \<open>A TXT record is a list of entries that are preceded by their length.\<close>

fun txt_entries :: "nat \<Rightarrow> byte list \<Rightarrow> byte list list" where
  "txt_entries 0 bs = []"
| "txt_entries (Suc n) bs = (case bs of [] \<Rightarrow> [] | b # bs \<Rightarrow>
     if b = 0 \<or> length bs < unat b then [] else take (unat b) bs # txt_entries n (drop (unat b) bs))"

lemma nvs_make_txt_eq:
  assumes "serial = c_str (serial_number s)" "length serial \<le> 31" "length (uuid s) = 16"
    "nvs_dns_txt_record s = replicate 68 0"
  shows "nvs_make_txt s = txt_serial serial @ take (59 - length serial) (txt_uuid (uuid s))
    @ 0 # replicate (59 - (length serial + min 42 (59 - length serial))) 0"
proof -
  let ?n = "length serial"
  have nz: "0 \<notin> set (txt_serial serial)"
  proof -
    have "unat (of_nat (7 + ?n) :: byte) = 7 + ?n" using assms(2) by (intro small_byte) simp
    then have "(of_nat (7 + ?n) :: byte) \<noteq> 0" by (metis unat_0 add_eq_0_iff_both_eq_0 zero_neq_numeral)
    moreover have "0 \<notin> set serial" using assms(1) c_str_set by auto
    ultimately show ?thesis by (simp add: txt_serial_def)
  qed
  have len: "length (txt_serial serial) = 8 + ?n" "length (txt_uuid (uuid s)) = 42"
    using assms(3) by (simp_all add: txt_serial_def txt_uuid_def)
  have first: "snprintk_at (replicate 68 0) 0 (txt_serial serial) = txt_serial serial @ 0 # replicate (59 - ?n) 0"
    using assms(2) len(1) by (simp add: snprintk_at_def Let_def)
  have "strlen (txt_serial serial @ 0 # replicate (59 - ?n) 0) = 8 + ?n"
    using c_str_pad [OF nz] len(1) by (simp add: strlen_def)
  moreover have "unat (of_nat (8 + ?n) :: byte) = 8 + ?n" using assms(2) by (intro small_byte) simp
  ultimately have "nvs_make_txt s = snprintk_at (txt_serial serial @ 0 # replicate (59 - ?n) 0) (8 + ?n) (txt_uuid (uuid s))"
    using first assms(1,4) by (simp add: nvs_make_txt_def Let_def txt_serial_def txt_uuid_def)
  then show ?thesis
    using len assms(2) by (simp add: snprintk_at_def Let_def)
qed

text \<open>
  C30: The TXT record made at boot parses into the two entries \<open>serial=...\<close> and \<open>uuid=...\<close> when the
  serial number has at most 17 characters.  A longer one, which the boot accepts, leaves no room:
  the second entry still announces 41 characters, but is cut after \<open>58 - n\<close> of them.\<close>

theorem nvs_txt_record_entries:
  assumes "flash_ok F" "nvs_init F nvs0 = (Ok (), t)" "serial = c_str (serial_number t)"
  shows "length (nvs_dns_txt_record t) = 68
    \<and> (length serial \<le> 17 \<longrightarrow> txt_entries 2 (nvs_dns_txt_record t) = [ascii ''serial='' @ serial, ascii ''uuid='' @ uuid_str (uuid t)])
    \<and> (17 < length serial \<longrightarrow> nvs_dns_txt_record t
         = txt_serial serial @ [41] @ take (58 - length serial) (ascii ''uuid='' @ uuid_str (uuid t)) @ [0])"
proof -
  note t = nvs_init_fields [OF assms(2)]
  let ?n = "length serial" and ?u = "ascii ''uuid='' @ uuid_str (uuid t)"
  have len: "length (serial_number t) = 32" "length (uuid t) = 16"
    using assms(1) t(1,2) by (simp_all add: flash_ok_def)
  have n: "?n \<le> 31"
    using strlen_terminated [OF len(1)] t(1,3) assms(3) by (simp add: strlen_def)
  have rec: "nvs_dns_txt_record t = txt_serial serial @ take (59 - ?n) (txt_uuid (uuid t))
      @ 0 # replicate (59 - (?n + min 42 (59 - ?n))) 0"
    using t(4) nvs_make_txt_eq [of serial "nvs0\<lparr>serial_number := serial_number t, uuid := uuid t\<rparr>"] assms(3) n len(2)
    by (simp add: nvs0_def)
  have lens: "length (txt_serial serial) = 8 + ?n" "length (txt_uuid (uuid t)) = 42" "length ?u = 41"
    using len(2) by (simp_all add: txt_serial_def txt_uuid_def)
  have "length (nvs_dns_txt_record t) = 68"
    using n lens(1,2) by (simp add: rec min_def)
  moreover have "txt_entries 2 (nvs_dns_txt_record t) = [ascii ''serial='' @ serial, ?u]" if "?n \<le> 17"
  proof -
    have b: "unat (of_nat (7 + ?n) :: byte) = 7 + ?n" by (intro small_byte) (use n in simp)
    then have b0: "(of_nat (7 + ?n) :: byte) \<noteq> 0" by (metis unat_0 add_eq_0_iff_both_eq_0 zero_neq_numeral)
    have split: "txt_serial serial = of_nat (7 + ?n) # (ascii ''serial='' @ serial)" "txt_uuid (uuid t) = 41 # ?u"
      "take (59 - ?n) (txt_uuid (uuid t)) = txt_uuid (uuid t)"
      using that lens(2) by (simp_all add: txt_serial_def txt_uuid_def)
    have l7: "length (ascii ''serial='' @ serial) = 7 + ?n" by simp
    show ?thesis
      unfolding rec split(3) unfolding split(1,2) numeral_2_eq_2 txt_entries.simps
      using b b0 l7 lens(3) by (simp del: ascii_simps of_nat_add)
  qed
  moreover have "nvs_dns_txt_record t = txt_serial serial @ [41] @ take (58 - ?n) ?u @ [0]" if "17 < ?n"
    using that n by (simp add: rec txt_uuid_def take_Cons' min_def)
  ultimately show ?thesis by blast
qed

lemma nvs_txt_record_entries_witness:
  "\<exists>t. nvs_init flash0 nvs0 = (Ok (), t) \<and> length (nvs_dns_txt_record t) = 68"
  using nvs_txt_record_entries [OF flash0_reads(1,3) refl] flash0_reads(3) by blast

end
