(* ===== verification/Boot.thy ===== *)
theory Boot
  imports Vcp_Stream Dap_Safety Io_Safety Nvs
begin

text \<open>
  The start of the firmware (main.c): the manufacturing data is read before the main function, which
  then brings up the two protocol drivers, checks the virtual COM port, and goes on the bus and the
  network.
\<close>

text \<open>
  The parts of the system; the trace holds the calls main makes itself.  Whether the device of the
  virtual COM port is ready is the result of its initialization, which runs before main as well.
\<close>

record 'rb system = traced +
  sys_nvs :: nvs
  early_init_ret :: "unit outcome"
  sys_dap :: "'rb dap_driver"
  sys_io :: "'rb io_driver"
  sys_vcp_ready :: bool

lemma system_trace [simp]:
  "sys_dap (s\<lparr>trace := h\<rparr>) = sys_dap s" "sys_io (s\<lparr>trace := h\<rparr>) = sys_io s"
  "trace (s\<lparr>sys_dap := d\<rparr>) = trace s" "trace (s\<lparr>sys_io := i\<rparr>) = trace s"
  by (cases s, simp)+

definition on_dap :: "('rb, 'a) dap_cmd \<Rightarrow> ('rb system, 'a) cmd" where
  "on_dap m = (\<lambda>s. (fst (m (sys_dap s)), s\<lparr>sys_dap := snd (m (sys_dap s))\<rparr>))"

definition on_io :: "('rb, 'a) io_cmd \<Rightarrow> ('rb system, 'a) cmd" where
  "on_io m = (\<lambda>s. (fst (m (sys_io s)), s\<lparr>sys_io := snd (m (sys_io s))\<rparr>))"

definition early_init :: "flash \<Rightarrow> ('rb system, unit) cmd" where
  "early_init F = (\<lambda>s. (fst (nvs_init F (sys_nvs s)),
     s\<lparr>sys_nvs := snd (nvs_init F (sys_nvs s)), early_init_ret := fst (nvs_init F (sys_nvs s))\<rparr>))"

definition main :: "'rb platform \<Rightarrow> bool \<Rightarrow> nat \<Rightarrow> nat \<Rightarrow> ('rb system, unit) cmd" where
  "main P same_led n_dap n_io =
     bindC (\<lambda>s. (early_init_ret s, s)) (\<lambda>_.
     bindC (on_dap (dap_init P same_led n_dap)) (\<lambda>_.
     bindC (on_io (io_init P n_io)) (\<lambda>_.
     bindC (gets sys_vcp_ready) (\<lambda>ready.
     bindC (fatal_check ready) (\<lambda>_.
     bindC (hw P (UsbCall UsbEnable)) (\<lambda>r.
     bindC (fatal_check (r = 0)) (\<lambda>_.
     bindC (hw P (SockCall NetFirstUp)) (\<lambda>iface.
     hwv P (SockCall (DhcpStart iface))))))))))"

lemma runs_on [simp]:
  "runs (on_dap m) s Q = Q (fst (m (sys_dap s))) (s\<lparr>sys_dap := snd (m (sys_dap s))\<rparr>)"
  "runs (on_io k) s Q = Q (fst (k (sys_io s))) (s\<lparr>sys_io := snd (k (sys_io s))\<rparr>)"
  by (simp_all add: runs_def on_dap_def on_io_def)

section \<open>Properties\<close>

lemma safe_io_init: "safe sp io_inv (io_init P n)"
proof -
  have ready: "safe sp I (io_gpios_ready P xs)" if "\<And>h s. I s \<Longrightarrow> I (s\<lparr>trace := h\<rparr>)"
    for I :: "'a io_driver \<Rightarrow> bool" and xs
    by (induction xs) (auto intro!: safe_intros that)
  have trs: "safe sp io_inv (io_init_transports P xs)" for xs
    by (induction xs) (auto intro!: safe_intros)
  have reset: "safe sp io_inv (io_reset P)"
    unfolding io_reset_def by (rule safe_intros | simp)+
  show ?thesis
    unfolding io_init_def
    apply (rule safe_bind_gets)
    apply (rule safe_bindC, rule ready, simp)
    apply (rule safe_bindC, rule safe_loop_ends, simp add: io_inv_def)
    by (intro safe_intros reset trs) simp_all
qed


text \<open>A start on a platform on which every call succeeds.\<close>

definition ready_platform :: "aring platform" where
  "ready_platform = array_platform (\<lambda>_ c. case c of DeviceReady _ \<Rightarrow> (1, []) | GpioReady _ \<Rightarrow> (1, []) | _ \<Rightarrow> (0, [])) 8"

definition system0 :: "aring system" where
  "system0 = \<lparr>trace = [], sys_nvs = nvs0, early_init_ret = Ok (), sys_dap = dap_sample 1 (a_new 16),
     sys_io = io_sample (a_new 16), sys_vcp_ready = True\<rparr>"


end
