(* ===== verification/Spec2Isabelle.thy ===== *)
theory Spec2Isabelle
  imports Swd_Frames Io_Gpio Swo_Trace Dap_Tcp Vcp_Control Usb_Transport Usb_Msos Nvs_Record Boot
begin

text \<open>
  Verification of the riceprobe firmware.
\<close>

end
